(* ===== verification/Kernel_Prelude.thy ===== *)
theory Kernel_Prelude
  imports Main "HOL-Library.Word" "HOL-Library.While_Combinator"
begin

text \<open>
  Shared vocabulary of the development: machine integers, the ways a kernel operation can
  stop, the state-passing type of an operation and its combinators, the two loop shapes of
  the C code, and the two proof notions every component uses (total correctness of an
  operation, and invariants kept by an operation on all its exits).

  A C function is modelled by an operation \<open>kop\<close>: from a kernel state it either returns a
  value and a new state (\<open>Inr\<close>), or stops (\<open>Inl\<close>). It stops by \<open>KERN_PANIC\<close> (\<open>Panic\<close>), by
  indexing past the end of a static array (\<open>OutOfBounds\<close>), by acquiring a spinlock that is
  already held or staying in a loop for ever (\<open>Spin\<close>), by dividing by zero (\<open>DivideByZero\<close>), or because \<open>cswitch\<close> gave the CPU to another thread
  (\<open>Switched s\<close>, \<open>s\<close> being the state the other thread starts from).
\<close>

section \<open>Machine integers\<close>

type_synonym u8 = "8 word"
type_synonym u16 = "16 word"
type_synonym u32 = "32 word"

section \<open>Operations\<close>

datatype 's stop =
    Panic string
  | OutOfBounds
  | Spin
  | DivideByZero
  | Switched 's

type_synonym ('s, 'a) kop = "'s \<Rightarrow> 's stop + ('a \<times> 's)"

named_theorems exec \<open>symbolic execution of operations on a state\<close>
named_theorems keeps_intro \<open>composition rules for invariants of operations\<close>

definition ret :: "'a \<Rightarrow> ('s, 'a) kop" where
  "ret a s = Inr (a, s)"

definition stop_with :: "'s stop \<Rightarrow> ('s, 'a) kop" where
  "stop_with e s = Inl e"

definition panic :: "string \<Rightarrow> ('s, 'a) kop" where
  "panic msg s = Inl (Panic msg)"

definition switched :: "('s, 'a) kop" where
  "switched s = Inl (Switched s)"

definition bind :: "('s, 'a) kop \<Rightarrow> ('a \<Rightarrow> ('s, 'b) kop) \<Rightarrow> ('s, 'b) kop" where
  "bind m f s = (case m s of Inl e \<Rightarrow> Inl e | Inr (a, s') \<Rightarrow> f a s')"

definition seq :: "('s, 'a) kop \<Rightarrow> ('s, 'b) kop \<Rightarrow> ('s, 'b) kop" where
  "seq m n = bind m (\<lambda>_. n)"

definition gets :: "('s \<Rightarrow> 'a) \<Rightarrow> ('s, 'a) kop" where
  "gets f s = Inr (f s, s)"

definition modify :: "('s \<Rightarrow> 's) \<Rightarrow> ('s, unit) kop" where
  "modify f s = Inr ((), f s)"

definition in_bounds :: "bool \<Rightarrow> ('s, unit) kop" where
  "in_bounds b s = (if b then Inr ((), s) else Inl OutOfBounds)"

definition when_true :: "bool \<Rightarrow> ('s, unit) kop \<Rightarrow> ('s, unit) kop" where
  "when_true b m = (if b then m else ret ())"

text \<open>A pure function that may read or write beyond the end of a buffer, which is its value \<open>None\<close>.\<close>

definition opt_bounds :: "'a option \<Rightarrow> ('s, 'a) kop" where
  "opt_bounds r = (case r of None \<Rightarrow> stop_with OutOfBounds | Some a \<Rightarrow> ret a)"

primrec block :: "('s, unit) kop list \<Rightarrow> ('s, unit) kop" where
  "block [] = ret ()"
| "block (m # ms) = seq m (block ms)"

lemma ret_exec [exec]: "ret a s = Inr (a, s)"
  by (simp add: ret_def)

lemma stop_with_exec [exec]: "stop_with e s = Inl e"
  by (simp add: stop_with_def)

lemma panic_exec [exec]: "panic msg s = Inl (Panic msg)"
  by (simp add: panic_def)

lemma switched_exec [exec]: "switched s = Inl (Switched s)"
  by (simp add: switched_def)

lemma bind_exec [exec]: "bind m f s = (case m s of Inl e \<Rightarrow> Inl e | Inr (a, s') \<Rightarrow> f a s')"
  by (simp add: bind_def)

lemma seq_exec [exec]: "seq m n s = (case m s of Inl e \<Rightarrow> Inl e | Inr (a, s') \<Rightarrow> n s')"
  by (simp add: seq_def bind_def)

lemma gets_exec [exec]: "gets f s = Inr (f s, s)"
  by (simp add: gets_def)

lemma modify_exec [exec]: "modify f s = Inr ((), f s)"
  by (simp add: modify_def)

lemma in_bounds_exec [exec]: "in_bounds b s = (if b then Inr ((), s) else Inl OutOfBounds)"
  by (simp add: in_bounds_def)

lemma when_true_exec [exec]: "when_true b m s = (if b then m s else Inr ((), s))"
  by (simp add: when_true_def ret_def)

lemma opt_bounds_exec [exec]: "opt_bounds r s = (case r of None \<Rightarrow> Inl OutOfBounds | Some a \<Rightarrow> Inr (a, s))"
  by (simp add: opt_bounds_def stop_with_def ret_def split: option.split)

lemma block_Nil_exec [exec]: "block [] s = Inr ((), s)"
  by (simp add: ret_def)

lemma block_Cons_exec [exec]:
  "block (m # ms) s = (case m s of Inl e \<Rightarrow> Inl e | Inr (a, s') \<Rightarrow> block ms s')"
  by (simp add: seq_exec)

lemma if_exec [exec]: "(if b then m else n) s = (if b then m s else n s)"
  by simp

lemma Let_exec [exec]: "Let x f s = Let x (\<lambda>y. f y s)"
  by (simp add: Let_def)

lemma case_option_exec [exec]:
  "(case x of None \<Rightarrow> m | Some y \<Rightarrow> f y) s = (case x of None \<Rightarrow> m s | Some y \<Rightarrow> f y s)"
  by (cases x) auto

lemma case_prod_exec [exec]:
  "(case p of (x, y) \<Rightarrow> f x y) s = (case p of (x, y) \<Rightarrow> f x y s)"
  by (cases p) auto

declare block.simps [simp del]

lemma bind_Inr: "m s = Inr (a, s') \<Longrightarrow> bind m f s = f a s'"
  by (simp add: bind_def)

lemma seq_Inr: "m s = Inr (a, s') \<Longrightarrow> seq m n s = n s'"
  by (simp add: seq_exec)

lemma bind_InrE:
  assumes "bind m f s = Inr r"
  obtains a s' where "m s = Inr (a, s')" and "f a s' = Inr r"
  using assms by (auto simp: bind_def split: sum.splits)

section \<open>Loops\<close>

text \<open>
  \<open>for_loop lo hi body\<close> is \<^verbatim>\<open>for (i = lo; i < hi; i++) body(i)\<close> over an unsigned 32-bit
  counter. The counter never wraps, because it is incremented only while it is below \<open>hi\<close>.
\<close>

lemma unat_Suc_below: "(i::u32) < n \<Longrightarrow> unat (i + 1) = Suc (unat i)"
  using unsigned_less [of n, where ?'a = nat] by (simp add: unat_word_ariths word_less_nat_alt)

lemma below_Suc: "(k :: u32) < n \<Longrightarrow> j < k + 1 \<longleftrightarrow> j < k \<or> j = k"
  by (frule unat_Suc_below) (auto simp: word_less_nat_alt word_unat_eq_iff)

function for_loop :: "u32 \<Rightarrow> u32 \<Rightarrow> (u32 \<Rightarrow> ('s, unit) kop) \<Rightarrow> ('s, unit) kop" where
  "for_loop i n body = (if i < n then seq (body i) (for_loop (i + 1) n body) else ret ())"
  by pat_completeness auto
termination
  by (relation "measure (\<lambda>(i, n, body). unat n - unat i)")
    (auto simp: unat_Suc_below word_less_nat_alt)

declare for_loop.simps [simp del]

lemma for_loop_done [exec]: "\<not> i < n \<Longrightarrow> for_loop i n body s = Inr ((), s)"
  by (simp add: for_loop.simps exec)

lemma for_loop_step:
  "i < n \<Longrightarrow> body i s = Inr ((), s') \<Longrightarrow> for_loop i n body s = for_loop (i + 1) n body s'"
  by (subst for_loop.simps) (simp add: exec)

text \<open>
  \<open>iterate f a\<close> is every other loop of the C code: \<open>f\<close> is one iteration on the loop's local
  variables, which goes on with new values (\<open>Inl\<close>) or leaves the loop with a result (\<open>Inr\<close>). A loop
  that is never left is \<open>Spin\<close>.
\<close>

definition iterate :: "('a \<Rightarrow> ('s, 'a + 'b) kop) \<Rightarrow> 'a \<Rightarrow> ('s, 'b) kop" where
  "iterate f a s =
     (case while_option (\<lambda>r. case r of Inr (Inl _, _) \<Rightarrow> True | _ \<Rightarrow> False)
         (\<lambda>r. case r of Inr (Inl x, t) \<Rightarrow> f x t | _ \<Rightarrow> r) (Inr (Inl a, s)) of
        Some (Inr (Inr b, t)) \<Rightarrow> Inr (b, t)
      | Some (Inl e) \<Rightarrow> Inl e
      | _ \<Rightarrow> Inl Spin)"

lemma iterate_unfold:
  fixes f :: "'a \<Rightarrow> ('s, 'a + 'b) kop"
  shows "iterate f a s = (case f a s of Inl e \<Rightarrow> Inl e | Inr (Inl a', t) \<Rightarrow> iterate f a' t | Inr (Inr b, t) \<Rightarrow> Inr (b, t))"
proof -
  let ?c = "\<lambda>r :: 's stop + ('a + 'b) \<times> 's. case r of Inr (Inl _, _) \<Rightarrow> True | _ \<Rightarrow> False"
  let ?b = "\<lambda>r :: 's stop + ('a + 'b) \<times> 's. case r of Inr (Inl x, t) \<Rightarrow> f x t | _ \<Rightarrow> r"
  have one: "while_option ?c ?b (Inr (Inl a, s)) = while_option ?c ?b (f a s)"
    by (subst while_option_unfold) simp
  show ?thesis
  proof (cases "\<exists>a' t. f a s = Inr (Inl a', t)")
    case True
    then show ?thesis unfolding iterate_def one by auto
  next
    case False
    then have "\<not> ?c (f a s)" by (auto split: sum.split)
    then have "while_option ?c ?b (f a s) = Some (f a s)" by (subst while_option_unfold) (simp only: if_False)
    with False show ?thesis unfolding iterate_def one by (auto split: sum.split)
  qed
qed

lemma iterate_next: "f a s = Inr (Inl a', t) \<Longrightarrow> iterate f a s = iterate f a' t"
  by (subst iterate_unfold) simp

lemma iterate_done: "f a s = Inr (Inr b, t) \<Longrightarrow> iterate f a s = Inr (b, t)"
  by (subst iterate_unfold) simp

lemma iterate_stop: "f a s = Inl e \<Longrightarrow> iterate f a s = Inl e"
  by (subst iterate_unfold) simp

text \<open>A loop returns when every iteration returns and a measure falls.\<close>

lemma iterate_returns:
  assumes "I a s"
    and "\<And>a s. I a s \<Longrightarrow> (\<exists>a' t. f a s = Inr (Inl a', t) \<and> I a' t \<and> (m a' t :: nat) < m a s) \<or>
      (\<exists>b t. f a s = Inr (Inr b, t) \<and> Q b t)"
  shows "\<exists>b t. iterate f a s = Inr (b, t) \<and> Q b t"
  using assms(1)
proof (induction "m a s" arbitrary: a s rule: less_induct)
  case less
  from assms(2) [OF less.prems] show ?case
  proof (elim disjE exE conjE)
    fix a' t assume "f a s = Inr (Inl a', t)" "I a' t" "m a' t < m a s"
    with less.hyps [of a' t] show ?case by (simp add: iterate_next)
  qed (auto simp: iterate_done)
qed

text \<open>A loop whose iterations never leave it does not return.\<close>

lemma iterate_spins:
  fixes f :: "'a \<Rightarrow> ('s, 'a + 'b) kop"
  assumes "I a s" and "\<And>a s. I a s \<Longrightarrow> \<exists>a' t. f a s = Inr (Inl a', t) \<and> I a' t"
  shows "iterate f a s = Inl Spin"
proof -
  let ?c = "\<lambda>r :: 's stop + ('a + 'b) \<times> 's. case r of Inr (Inl _, _) \<Rightarrow> True | _ \<Rightarrow> False"
  let ?b = "\<lambda>r :: 's stop + ('a + 'b) \<times> 's. case r of Inr (Inl x, t) \<Rightarrow> f x t | _ \<Rightarrow> r"
  have "while_option ?c ?b (Inr (Inl a, s)) = None"
  proof (rule ccontr)
    assume "\<not> ?thesis"
    then obtain r where r: "while_option ?c ?b (Inr (Inl a, s)) = Some r" by blast
    have "\<exists>a t. r = Inr (Inl a, t) \<and> I a t"
      by (rule while_option_rule [OF _ r, where P = "\<lambda>r. \<exists>a t. r = Inr (Inl a, t) \<and> I a t"])
        (use assms in \<open>auto split: sum.splits\<close>)
    with while_option_stop [OF r] show False by auto
  qed
  then show ?thesis by (simp add: iterate_def)
qed

section \<open>Total correctness\<close>

text \<open>
  \<open>returns P m Q\<close>: from every state that satisfies \<open>P\<close> the operation returns (it does not
  panic, index out of bounds, spin, or lose the CPU), with \<open>Q\<close> of the result and the
  new state.
\<close>

definition returns :: "('s \<Rightarrow> bool) \<Rightarrow> ('s, 'a) kop \<Rightarrow> ('a \<Rightarrow> 's \<Rightarrow> bool) \<Rightarrow> bool" where
  "returns P m Q \<longleftrightarrow> (\<forall>s. P s \<longrightarrow> (\<exists>a s'. m s = Inr (a, s') \<and> Q a s'))"

lemma returnsI: "(\<And>s. P s \<Longrightarrow> \<exists>a s'. m s = Inr (a, s') \<and> Q a s') \<Longrightarrow> returns P m Q"
  by (simp add: returns_def)

lemma returnsD: "returns P m Q \<Longrightarrow> P s \<Longrightarrow> \<exists>a s'. m s = Inr (a, s') \<and> Q a s'"
  by (simp add: returns_def)

lemma returnsE:
  assumes "returns P m Q" and "P s"
  obtains a s' where "m s = Inr (a, s')" and "Q a s'"
  using assms by (auto simp: returns_def)

lemma returns_weaken: "returns P m Q \<Longrightarrow> (\<And>s. P' s \<Longrightarrow> P s) \<Longrightarrow> (\<And>a s. Q a s \<Longrightarrow> Q' a s) \<Longrightarrow> returns P' m Q'"
  by (fastforce simp: returns_def)

lemma returns_bind:
  assumes "returns P m Q" and "\<And>a. returns (Q a) (f a) R"
  shows "returns P (bind m f) R"
proof (rule returnsI)
  fix s assume "P s"
  with assms(1) obtain a s' where "m s = Inr (a, s')" and q: "Q a s'"
    by (rule returnsE)
  moreover from assms(2) q obtain b t where "f a s' = Inr (b, t)" and "R b t"
    by (rule returnsE)
  ultimately show "\<exists>b t. bind m f s = Inr (b, t) \<and> R b t"
    by (simp add: bind_Inr)
qed

lemma returns_seq:
  "returns P m (\<lambda>_. Q) \<Longrightarrow> returns Q n R \<Longrightarrow> returns P (seq m n) R"
  unfolding seq_def by (rule returns_bind)

text \<open>The loop rule: an invariant indexed by the counter.\<close>

lemma for_loop_returns_exec:
  assumes "I i s" and "i \<le> n"
    and body: "\<And>j s. i \<le> j \<Longrightarrow> j < n \<Longrightarrow> I j s \<Longrightarrow> \<exists>s'. body j s = Inr ((), s') \<and> I (j + 1) s'"
  shows "\<exists>s'. for_loop i n body s = Inr ((), s') \<and> I n s'"
  using assms
proof (induction i n body arbitrary: s rule: for_loop.induct)
  case (1 i n body)
  show ?case
  proof (cases "i < n")
    case True
    with "1.prems" obtain s' where s': "body i s = Inr ((), s')" "I (i + 1) s'"
      by blast
    have le: "i + 1 \<le> n"
      using True by (simp add: word_le_nat_alt word_less_nat_alt unat_Suc_below)
    have above: "i \<le> j" if "i + 1 \<le> j" for j
      using that True by (simp add: word_le_nat_alt unat_Suc_below)
    have "\<exists>t. for_loop (i + 1) n body s' = Inr ((), t) \<and> I n t"
      by (rule "1.IH" [OF True s'(2) le]) (blast intro: "1.prems"(3) above)
    with True s'(1) show ?thesis
      by (simp add: for_loop_step)
  next
    case False
    with "1.prems" have "i = n" by simp
    with False "1.prems" show ?thesis by (simp add: exec)
  qed
qed

lemma for_loop_returns:
  assumes "lo \<le> hi"
    and "\<And>j. lo \<le> j \<Longrightarrow> j < hi \<Longrightarrow> returns (I j) (body j) (\<lambda>_. I (j + 1))"
  shows "returns (I lo) (for_loop lo hi body) (\<lambda>_. I hi)"
proof (rule returnsI)
  fix s assume "I lo s"
  then have "\<exists>s'. for_loop lo hi body s = Inr ((), s') \<and> I hi s'"
    using assms(1) by (rule for_loop_returns_exec) (use assms(2) in \<open>force simp: returns_def\<close>)
  then show "\<exists>a s'. for_loop lo hi body s = Inr (a, s') \<and> I hi s'" by auto
qed

section \<open>Invariants\<close>

text \<open>
  \<open>preserves I m\<close>: if \<open>I\<close> holds before, it holds in every state the operation leaves
  behind, whether it returns or is switched away from.
\<close>

definition preserves :: "('s \<Rightarrow> bool) \<Rightarrow> ('s, 'a) kop \<Rightarrow> bool" where
  "preserves I m \<longleftrightarrow>
     (\<forall>s. I s \<longrightarrow> (case m s of Inr (a, s') \<Rightarrow> I s' | Inl (Switched s') \<Rightarrow> I s' | Inl _ \<Rightarrow> True))"

abbreviation keeps :: "('s \<Rightarrow> 'v) \<Rightarrow> ('s, 'a) kop \<Rightarrow> bool" where
  "keeps f m \<equiv> \<forall>v. preserves (\<lambda>s. f s = v) m"

lemma preservesD: "preserves I m \<Longrightarrow> I s \<Longrightarrow> m s = Inr (a, s') \<Longrightarrow> I s'"
  by (force simp: preserves_def)

lemma preserves_switchedD: "preserves I m \<Longrightarrow> I s \<Longrightarrow> m s = Inl (Switched s') \<Longrightarrow> I s'"
  by (force simp: preserves_def)

lemma keepsD: "keeps f m \<Longrightarrow> m s = Inr (a, s') \<Longrightarrow> f s' = f s"
  by (blast dest: preservesD)

lemma preserves_ret [keeps_intro]: "preserves I (ret a)"
  by (simp add: preserves_def exec)

lemma preserves_gets [keeps_intro]: "preserves I (gets f)"
  by (simp add: preserves_def exec)

lemma preserves_panic [keeps_intro]: "preserves I (panic msg)"
  by (simp add: preserves_def exec)

lemma preserves_switched [keeps_intro]: "preserves I switched"
  by (simp add: preserves_def exec)

lemma preserves_in_bounds [keeps_intro]: "preserves I (in_bounds b)"
  by (simp add: preserves_def exec)

lemma preserves_modify [keeps_intro]: "(\<And>s. I s \<Longrightarrow> I (f s)) \<Longrightarrow> preserves I (modify f)"
  by (simp add: preserves_def exec)

lemma preserves_bind [keeps_intro]:
  assumes "preserves I m" and "\<And>a. preserves I (f a)"
  shows "preserves I (bind m f)"
  unfolding preserves_def
proof (intro allI impI)
  fix s assume I: "I s"
  show "case bind m f s of Inr (a, s') \<Rightarrow> I s' | Inl (Switched s') \<Rightarrow> I s' | Inl _ \<Rightarrow> True"
  proof (cases "m s")
    case (Inl e)
    with I assms(1) show ?thesis by (force simp: preserves_def bind_def)
  next
    case (Inr p)
    obtain a s' where p: "p = (a, s')" by (cases p)
    with Inr I assms(1) have "I s'" by (auto dest: preservesD)
    with assms(2) [of a] Inr p show ?thesis by (simp add: preserves_def bind_def)
  qed
qed

lemma preserves_seq [keeps_intro]: "preserves I m \<Longrightarrow> preserves I n \<Longrightarrow> preserves I (seq m n)"
  unfolding seq_def by (rule preserves_bind)

lemma preserves_block_Nil [keeps_intro]: "preserves I (block [])"
  by (simp add: block.simps preserves_ret)

lemma preserves_block_Cons [keeps_intro]:
  "preserves I m \<Longrightarrow> preserves I (block ms) \<Longrightarrow> preserves I (block (m # ms))"
  by (simp add: block.simps preserves_seq)

lemma preserves_if [keeps_intro]:
  "(b \<Longrightarrow> preserves I m) \<Longrightarrow> (\<not> b \<Longrightarrow> preserves I n) \<Longrightarrow> preserves I (if b then m else n)"
  by simp

lemma preserves_when [keeps_intro]: "(b \<Longrightarrow> preserves I m) \<Longrightarrow> preserves I (when_true b m)"
  by (simp add: when_true_def preserves_ret)

lemma preserves_Let [keeps_intro]: "(\<And>x. preserves I (f x)) \<Longrightarrow> preserves I (Let a f)"
  by (simp add: Let_def)

lemma preserves_case_option [keeps_intro]:
  "preserves I m \<Longrightarrow> (\<And>y. preserves I (f y)) \<Longrightarrow>
   preserves I (case x of None \<Rightarrow> m | Some y \<Rightarrow> f y)"
  by (cases x) auto

lemma preserves_case_prod [keeps_intro]:
  "(\<And>x y. preserves I (f x y)) \<Longrightarrow> preserves I (case p of (x, y) \<Rightarrow> f x y)"
  by (cases p) auto

lemma preserves_for_loop [keeps_intro]:
  assumes "\<And>i. preserves I (body i)"
  shows "preserves I (for_loop lo hi body)"
  using assms
proof (induction lo hi body rule: for_loop.induct)
  case (1 i n body)
  show ?case
    by (subst for_loop.simps) (auto intro!: keeps_intro "1.prems" "1.IH")
qed

lemma preserves_returns:
  assumes "preserves I m" and "returns P m Q"
  shows "returns (\<lambda>s. P s \<and> I s) m (\<lambda>a s. Q a s \<and> I s)"
  using assms by (fastforce simp: returns_def dest: preservesD)

section \<open>Signed comparison of small words\<close>

lemma sint_small: "unat (x :: u32) < 2 ^ 31 \<Longrightarrow> sint x = uint x"
proof -
  assume a: "unat x < 2 ^ 31"
  then have "int (unat x) < int (2 ^ 31)" by (simp only: of_nat_less_iff)
  then have "uint x < 2 ^ 31" by simp
  then have "signed_take_bit 31 (uint x) = uint x"
    by (intro signed_take_bit_int_eq_self) (simp_all add: order.trans [OF _ uint_ge_0])
  then show ?thesis by (simp add: sint_uint)
qed

lemma sless_small: "unat (x :: u32) < 2 ^ 31 \<Longrightarrow> unat y < 2 ^ 31 \<Longrightarrow> x <s y \<longleftrightarrow> x < y"
  by (simp add: word_sless_alt sint_small word_less_def)

lemma sle_small: "unat (x :: u32) < 2 ^ 31 \<Longrightarrow> unat y < 2 ^ 31 \<Longrightarrow> x <=s y \<longleftrightarrow> x \<le> y"
  by (simp add: word_sle_eq sint_small word_le_def)

end
