(* ===== verification/Machine.thy ===== *)
theory Machine
  imports Kernel_Prelude
begin

text \<open>
  The processor-level base of the kernel state (\<open>kern/pcpu/PCPUIntro\<close>, \<open>kern/lib/kstack.c\<close>)
  and the spinlocks (\<open>kern/lib/spinlock.c\<close>).

  The kernel state is a chain of record extensions, one per layer of the kernel: every
  operation is polymorphic in the part of the state that higher layers add, so a higher layer
  calls it unchanged. A spinlock lives in some field of the state; its operations take the
  selector and the update function of that field. The locale \<open>lock_field\<close> states what such
  a field has to satisfy and proves once what acquiring and releasing do; every layer
  interprets it for its own lock.
\<close>

section \<open>Constants of \<open>kern/lib/x86.h\<close>\<close>

abbreviation (input) NUM_CPUS :: u32 where "NUM_CPUS \<equiv> 8"
abbreviation (input) NUM_IDS :: u32 where "NUM_IDS \<equiv> 8192"
abbreviation (input) MagicNumber :: u32 where "MagicNumber \<equiv> 1048577"
abbreviation (input) MAX_CHILDREN :: u32 where "MAX_CHILDREN \<equiv> 255"
abbreviation (input) PAGESIZE :: u32 where "PAGESIZE \<equiv> 4096"
abbreviation (input) KSTACK_MAGIC :: u32 where "KSTACK_MAGIC \<equiv> 0x98765432"

section \<open>Processor state\<close>

record pcpu_t =
  pcpu_inited :: bool
  pcpu_booted :: bool
  pcpu_kstack :: u32
  pcpu_cpu_idx :: u32

text \<open>
  \<open>kstack_cpu_idx\<close> and \<open>kstack_magic\<close> are the fields of the \<open>struct kstack\<close> at the bottom of
  the stack page the processor currently runs on.
\<close>

record machine =
  kstack_cpu_idx :: u32
  kstack_magic :: u32
  pcpu :: "u32 \<Rightarrow> pcpu_t"

definition get_kstack_cpu_idx :: "('z machine_scheme, u32) kop" where
  "get_kstack_cpu_idx = gets kstack_cpu_idx"

definition pcpu_fields_init :: "u32 \<Rightarrow> ('z machine_scheme, unit) kop" where
  "pcpu_fields_init cpu_idx =
     seq (in_bounds (cpu_idx < NUM_CPUS))
       (modify (\<lambda>s. s\<lparr>pcpu := (pcpu s)(cpu_idx :=
          (pcpu s cpu_idx)\<lparr>pcpu_inited := True, pcpu_cpu_idx := cpu_idx\<rparr>)\<rparr>))"

definition get_pcpu_idx :: "('z machine_scheme, u32) kop" where
  "get_pcpu_idx =
     bind get_kstack_cpu_idx (\<lambda>i.
     seq (in_bounds (i < NUM_CPUS)) (gets (\<lambda>s. pcpu_cpu_idx (pcpu s i))))"

definition set_pcpu_idx :: "u32 \<Rightarrow> u32 \<Rightarrow> ('z machine_scheme, unit) kop" where
  "set_pcpu_idx index cpu_idx =
     seq (in_bounds (index < NUM_CPUS))
       (modify (\<lambda>s. s\<lparr>pcpu := (pcpu s)(index := (pcpu s index)\<lparr>pcpu_cpu_idx := cpu_idx\<rparr>)\<rparr>))"

definition get_pcpu_kstack_pointer :: "u32 \<Rightarrow> ('z machine_scheme, u32) kop" where
  "get_pcpu_kstack_pointer cpu_idx =
     seq (in_bounds (cpu_idx < NUM_CPUS)) (gets (\<lambda>s. pcpu_kstack (pcpu s cpu_idx)))"

definition set_pcpu_kstack_pointer :: "u32 \<Rightarrow> u32 \<Rightarrow> ('z machine_scheme, unit) kop" where
  "set_pcpu_kstack_pointer cpu_idx ks =
     seq (in_bounds (cpu_idx < NUM_CPUS))
       (modify (\<lambda>s. s\<lparr>pcpu := (pcpu s)(cpu_idx := (pcpu s cpu_idx)\<lparr>pcpu_kstack := ks\<rparr>)\<rparr>))"

definition get_pcpu_boot_info :: "u32 \<Rightarrow> ('z machine_scheme, bool) kop" where
  "get_pcpu_boot_info cpu_idx =
     seq (in_bounds (cpu_idx < NUM_CPUS)) (gets (\<lambda>s. pcpu_booted (pcpu s cpu_idx)))"

definition set_pcpu_boot_info :: "u32 \<Rightarrow> bool \<Rightarrow> ('z machine_scheme, unit) kop" where
  "set_pcpu_boot_info cpu_idx boot_info =
     seq (in_bounds (cpu_idx < NUM_CPUS))
       (modify (\<lambda>s. s\<lparr>pcpu := (pcpu s)(cpu_idx := (pcpu s cpu_idx)\<lparr>pcpu_booted := boot_info\<rparr>)\<rparr>))"

definition get_pcpu_inited_info :: "u32 \<Rightarrow> ('z machine_scheme, bool) kop" where
  "get_pcpu_inited_info cpu_idx =
     seq (in_bounds (cpu_idx < NUM_CPUS)) (gets (\<lambda>s. pcpu_inited (pcpu s cpu_idx)))"

text \<open>The processor runs on an intact kernel stack whose index names an initialised entry.\<close>

definition cpu_ok :: "'z machine_scheme \<Rightarrow> bool" where
  "cpu_ok s \<longleftrightarrow> kstack_magic s = KSTACK_MAGIC \<and> kstack_cpu_idx s < NUM_CPUS \<and>
     pcpu_cpu_idx (pcpu s (kstack_cpu_idx s)) = kstack_cpu_idx s"

lemma get_pcpu_idx_exec [exec]:
  "cpu_ok s \<Longrightarrow> get_pcpu_idx s = Inr (kstack_cpu_idx s, s)"
  by (simp add: get_pcpu_idx_def get_kstack_cpu_idx_def cpu_ok_def exec)

section \<open>Spinlocks\<close>

record spinlock_t =
  lock_holder :: u32
  lock :: u32

definition lock_init_val :: spinlock_t where
  "lock_init_val = \<lparr>lock_holder = NUM_CPUS + 1, lock = 0\<rparr>"

definition lock_held_val :: "u32 \<Rightarrow> spinlock_t" where
  "lock_held_val cpu = \<lparr>lock_holder = cpu, lock = 1\<rparr>"

type_synonym 's lock_upd = "(spinlock_t \<Rightarrow> spinlock_t) \<Rightarrow> 's \<Rightarrow> 's"

definition spinlock_init :: "'s lock_upd \<Rightarrow> ('s, unit) kop" where
  "spinlock_init upd = modify (upd (\<lambda>lk. lk\<lparr>lock_holder := NUM_CPUS + 1, lock := 0\<rparr>))"

definition spinlock_holding ::
  "('z machine_scheme \<Rightarrow> spinlock_t) \<Rightarrow> ('z machine_scheme, bool) kop" where
  "spinlock_holding get =
     bind (gets get) (\<lambda>lk.
     if lock lk = 0 then ret False
     else bind (gets kstack_magic) (\<lambda>magic.
       if magic \<noteq> KSTACK_MAGIC then panic ''Kernel assertion failed''
       else bind (gets kstack_cpu_idx) (\<lambda>c. ret (lock_holder lk = c))))"

text \<open>
  \<open>xchg\<close> stores 1 and returns the old value; the loop is left only when the old value was 0.
  On a processor whose own thread holds the lock nothing will ever clear it: \<open>Spin\<close>.
\<close>

definition spinlock_acquire ::
  "('z machine_scheme \<Rightarrow> spinlock_t) \<Rightarrow> 'z machine_scheme lock_upd
     \<Rightarrow> ('z machine_scheme, unit) kop" where
  "spinlock_acquire get upd =
     bind (gets get) (\<lambda>lk.
     if lock lk \<noteq> 0 then stop_with Spin
     else seq (modify (upd (\<lambda>lk. lk\<lparr>lock := 1\<rparr>)))
       (bind (gets kstack_magic) (\<lambda>magic.
        if magic \<noteq> KSTACK_MAGIC then panic ''Kernel assertion failed''
        else bind get_kstack_cpu_idx (\<lambda>c. modify (upd (\<lambda>lk. lk\<lparr>lock_holder := c\<rparr>))))))"

definition spinlock_try_acquire ::
  "('z machine_scheme \<Rightarrow> spinlock_t) \<Rightarrow> 'z machine_scheme lock_upd
     \<Rightarrow> ('z machine_scheme, u32) kop" where
  "spinlock_try_acquire get upd =
     bind (gets (\<lambda>s. lock (get s))) (\<lambda>old_val.
     seq (modify (upd (\<lambda>lk. lk\<lparr>lock := 1\<rparr>)))
     (seq (when_true (old_val = 0)
        (bind (gets kstack_magic) (\<lambda>magic.
         if magic \<noteq> KSTACK_MAGIC then panic ''Kernel assertion failed''
         else bind get_kstack_cpu_idx (\<lambda>c. modify (upd (\<lambda>lk. lk\<lparr>lock_holder := c\<rparr>))))))
      (ret old_val)))"

definition spinlock_release :: "'s lock_upd \<Rightarrow> ('s, unit) kop" where
  "spinlock_release upd =
     seq (modify (upd (\<lambda>lk. lk\<lparr>lock_holder := NUM_CPUS + 1\<rparr>)))
       (modify (upd (\<lambda>lk. lk\<lparr>lock := 0\<rparr>)))"

locale lock_field =
  fixes get :: "'z machine_scheme \<Rightarrow> spinlock_t"
    and upd :: "(spinlock_t \<Rightarrow> spinlock_t) \<Rightarrow> 'z machine_scheme \<Rightarrow> 'z machine_scheme"
  assumes get_upd: "get (upd f s) = f (get s)"
    and upd_upd: "upd f (upd g s) = upd (\<lambda>x. f (g x)) s"
    and upd_cong: "f (get s) = g (get s) \<Longrightarrow> upd f s = upd g s"
    and upd_same: "upd (\<lambda>x. x) s = s"
    and upd_machine: "kstack_magic (upd f s) = kstack_magic s"
      "kstack_cpu_idx (upd f s) = kstack_cpu_idx s" "pcpu (upd f s) = pcpu s"
begin

definition set_lock :: "spinlock_t \<Rightarrow> 'z machine_scheme \<Rightarrow> 'z machine_scheme" where
  "set_lock v = upd (\<lambda>_. v)"

lemma get_set_lock: "get (set_lock v s) = v"
  by (simp add: set_lock_def get_upd)

lemma set_lock_set_lock: "set_lock v (set_lock w s) = set_lock v s"
  by (simp add: set_lock_def upd_upd)

lemma set_lock_same: "get s = v \<Longrightarrow> set_lock v s = s"
  using upd_cong [of "\<lambda>_. v" s "\<lambda>x. x"] by (simp add: set_lock_def upd_same)

lemma cpu_ok_set_lock: "cpu_ok (set_lock v s) = cpu_ok s"
  by (simp add: set_lock_def cpu_ok_def upd_machine)

lemma init_exec: "spinlock_init upd s = Inr ((), set_lock lock_init_val s)"
  by (auto simp: spinlock_init_def exec set_lock_def lock_init_val_def intro!: upd_cong)

lemma acquire_exec:
  assumes "cpu_ok s" and "lock (get s) = 0"
  shows "spinlock_acquire get upd s = Inr ((), set_lock (lock_held_val (kstack_cpu_idx s)) s)"
  using assms
  by (auto simp: spinlock_acquire_def get_kstack_cpu_idx_def exec cpu_ok_def upd_machine upd_upd
      set_lock_def lock_held_val_def intro!: upd_cong)

lemma acquire_held: "lock (get s) \<noteq> 0 \<Longrightarrow> spinlock_acquire get upd s = Inl Spin"
  by (simp add: spinlock_acquire_def exec)

lemma release_exec: "spinlock_release upd s = Inr ((), set_lock lock_init_val s)"
  by (auto simp: spinlock_release_def exec upd_upd set_lock_def lock_init_val_def intro!: upd_cong)

text \<open>A second acquire by the holder never succeeds; a release makes the lock free again.\<close>

lemma acquire_acquire:
  "cpu_ok s \<Longrightarrow> seq (spinlock_acquire get upd) (spinlock_acquire get upd) s = Inl Spin"
  by (cases "lock (get s) = 0")
    (simp_all add: exec acquire_exec acquire_held get_set_lock lock_held_val_def)

lemma acquire_release:
  assumes "cpu_ok s" and "get s = lock_init_val"
  shows "seq (spinlock_acquire get upd) (spinlock_release upd) s = Inr ((), s)"
  using assms
  by (simp add: exec acquire_exec release_exec set_lock_set_lock set_lock_same lock_init_val_def)

lemma holding_after_acquire:
  assumes "cpu_ok s" and "lock (get s) = 0"
  shows "bind (spinlock_acquire get upd) (\<lambda>_. spinlock_holding get) s =
    Inr (True, set_lock (lock_held_val (kstack_cpu_idx s)) s)"
  using assms
  by (simp add: exec acquire_exec spinlock_holding_def get_set_lock set_lock_def upd_machine
      get_upd lock_held_val_def cpu_ok_def)

text \<open>
  A critical section: if the body, started with the lock held, returns with the lock field
  unchanged, then acquire, body and release together return the body's result in the body's
  final state with the lock free.
\<close>

lemma critical_section:
  assumes "cpu_ok s" and "get s = lock_init_val"
    and "body (set_lock (lock_held_val (kstack_cpu_idx s)) s) = Inr (a, t)"
  shows "seq (spinlock_acquire get upd) (bind body (\<lambda>r. seq (spinlock_release upd) (ret r))) s =
    Inr (a, set_lock lock_init_val t)"
  using assms by (simp add: exec acquire_exec release_exec lock_init_val_def)

end

section \<open>The machine at boot\<close>

text \<open>
  A concrete state for the examples: the boot processor runs on its own stack and is number 0.
\<close>

definition boot_machine :: machine where
  "boot_machine = \<lparr>kstack_cpu_idx = 0, kstack_magic = KSTACK_MAGIC,
     pcpu = (\<lambda>_. \<lparr>pcpu_inited = True, pcpu_booted = False, pcpu_kstack = 0, pcpu_cpu_idx = 0\<rparr>)\<rparr>"

end
