(* ===== verification/Mem_Map.thy ===== *)
theory Mem_Map
  imports Machine
begin

text \<open>
  The physical memory map the boot loader hands over (\<open>kern/dev/mboot.c\<close>): the BIOS entries
  are copied into a list ordered by start address, overlapping neighbours of the same type are
  merged, and the higher layers read the list by row index.

  Shown here: the list stays ordered, its rows are what the row getters return, and no
  address gains or loses a memory type on the way from the BIOS entries to the list.
\<close>

section \<open>Arithmetic helpers (\<open>kern/lib/types.c\<close>)\<close>

definition max_u32 :: "u32 \<Rightarrow> u32 \<Rightarrow> u32" where
  "max_u32 a b = (if a > b then a else b)"

definition min_u32 :: "u32 \<Rightarrow> u32 \<Rightarrow> u32" where
  "min_u32 a b = (if a < b then a else b)"

definition rounddown :: "u32 \<Rightarrow> u32 \<Rightarrow> u32" where
  "rounddown a n = a - a mod n"

definition roundup :: "u32 \<Rightarrow> u32 \<Rightarrow> u32" where
  "roundup a n = rounddown (a + n - 1) n"

section \<open>State\<close>

record mboot_mmap =
  base_addr_low :: u32
  base_addr_high :: u32
  length_low :: u32
  length_high :: u32
  mm_type :: u32

record pmmap =
  pm_start :: u32
  pm_end :: u32
  pm_type :: u32

abbreviation (input) MEM_RAM :: u32 where "MEM_RAM \<equiv> 1"
abbreviation (input) MEM_RESERVED :: u32 where "MEM_RESERVED \<equiv> 2"
abbreviation (input) MEM_ACPI :: u32 where "MEM_ACPI \<equiv> 3"
abbreviation (input) MEM_NVS :: u32 where "MEM_NVS \<equiv> 4"

text \<open>
  The list fields hold the slots by value, in list order; \<open>pmmap_slots_next_free\<close> counts the
  slots of the static pool of 128 that are in use.
\<close>

record mem_map = machine +
  pmmap_slots_next_free :: u32
  pmmap_list :: "pmmap list"
  pmmap_sublist :: "nat \<Rightarrow> pmmap list"
  max_usable_memory :: u32
  mem_npages :: u32
  pmmap_nentries :: u32

section \<open>Operations\<close>

definition pmmap_alloc_slot :: "('z mem_map_scheme, bool) kop" where
  "pmmap_alloc_slot =
     bind (gets pmmap_slots_next_free) (\<lambda>n.
     if n = 128 then ret False
     else seq (modify (\<lambda>s. s\<lparr>pmmap_slots_next_free := n + 1\<rparr>)) (ret True))"

text \<open>Insertion before the first slot that starts later, after all the others.\<close>

fun slist_insert :: "pmmap \<Rightarrow> pmmap list \<Rightarrow> pmmap list" where
  "slist_insert e [] = [e]"
| "slist_insert e (slot # rest) =
     (if pm_start e < pm_start slot then e # slot # rest else slot # slist_insert e rest)"

definition pmmap_insert :: "u32 \<Rightarrow> u32 \<Rightarrow> u32 \<Rightarrow> ('z mem_map_scheme, unit) kop" where
  "pmmap_insert start end' type =
     bind pmmap_alloc_slot (\<lambda>ok.
     if \<not> ok then panic ''More than 128 E820 entries.''
     else modify (\<lambda>s. s\<lparr>pmmap_list :=
            slist_insert \<lparr>pm_start = start, pm_end = end', pm_type = type\<rparr> (pmmap_list s)\<rparr>))"

text \<open>
  Step 1 of \<open>pmmap_merge\<close>. After a slot has absorbed its successor the loop moves on to the
  slot after that, so a slot absorbs at most one neighbour.
\<close>

fun merge_overlaps :: "pmmap list \<Rightarrow> pmmap list" where
  "merge_overlaps [] = []"
| "merge_overlaps [slot] = [slot]"
| "merge_overlaps (slot # next_slot # rest) =
     (if pm_start slot \<le> pm_start next_slot \<and> pm_end slot \<ge> pm_start next_slot
         \<and> pm_type slot = pm_type next_slot
      then slot\<lparr>pm_end := max_u32 (pm_end slot) (pm_end next_slot)\<rparr> # merge_overlaps rest
      else slot # merge_overlaps (next_slot # rest))"

definition PMMAP_SUBLIST_NR :: "u32 \<Rightarrow> nat option" where
  "PMMAP_SUBLIST_NR type =
     (if type = MEM_RAM then Some 0 else if type = MEM_RESERVED then Some 1
      else if type = MEM_ACPI then Some 2 else if type = MEM_NVS then Some 3 else None)"

text \<open>Step 2: every slot is appended to the list of its type; an unknown type fails the assertion.\<close>

primrec make_sublists :: "pmmap list \<Rightarrow> ('z mem_map_scheme, unit) kop" where
  "make_sublists [] = ret ()"
| "make_sublists (slot # rest) =
     (case PMMAP_SUBLIST_NR (pm_type slot) of
        None \<Rightarrow> panic ''Kernel assertion failed''
      | Some nr \<Rightarrow>
          seq (modify (\<lambda>s. s\<lparr>pmmap_sublist := (pmmap_sublist s)(nr := pmmap_sublist s nr @ [slot])\<rparr>))
            (make_sublists rest))"

definition pmmap_merge :: "('z mem_map_scheme, unit) kop" where
  "pmmap_merge =
     seq (modify (\<lambda>s. s\<lparr>pmmap_list := merge_overlaps (pmmap_list s)\<rparr>))
     (seq (bind (gets pmmap_list) make_sublists)
       (bind (gets (\<lambda>s. pmmap_sublist s 0)) (\<lambda>usable.
        when_true (usable \<noteq> []) (modify (\<lambda>s. s\<lparr>max_usable_memory := pm_end (last usable)\<rparr>)))))"

definition copy_entry :: "mboot_mmap \<Rightarrow> ('z mem_map_scheme, unit) kop" where
  "copy_entry p =
     (if base_addr_high p \<noteq> 0 then ret ()
      else let start = base_addr_low p;
               end' = (if length_high p \<noteq> 0 \<or> length_low p \<ge> 0xffffffff - start then 0xffffffff
                       else start + length_low p)
           in pmmap_insert start end' (mm_type p))"

definition pmmap_init :: "mboot_mmap list \<Rightarrow> ('z mem_map_scheme, unit) kop" where
  "pmmap_init entries = block
     [modify (\<lambda>s. s\<lparr>pmmap_list := [], pmmap_sublist := (\<lambda>nr. if nr < 4 then [] else pmmap_sublist s nr)\<rparr>),
      block (map copy_entry entries),
      pmmap_merge,
      modify (\<lambda>s. s\<lparr>pmmap_nentries := pmmap_nentries s + of_nat (length (pmmap_list s))\<rparr>),
      modify (\<lambda>s. s\<lparr>mem_npages := rounddown (max_usable_memory s) PAGESIZE div PAGESIZE\<rparr>)]"

text \<open>The row getters walk the list counting rows.\<close>

fun slist_row :: "pmmap list \<Rightarrow> u32 \<Rightarrow> u32 \<Rightarrow> (pmmap \<times> u32) option" where
  "slist_row [] i idx = None"
| "slist_row (slot # rest) i idx = (if i = idx then Some (slot, i) else slist_row rest (i + 1) idx)"

definition get_size :: "'z mem_map_scheme \<Rightarrow> u32" where
  "get_size s = pmmap_nentries s"

definition get_mms :: "'z mem_map_scheme \<Rightarrow> u32 \<Rightarrow> u32" where
  "get_mms s idx =
     (case slist_row (pmmap_list s) 0 idx of None \<Rightarrow> 0
      | Some (slot, i) \<Rightarrow> if i = pmmap_nentries s then 0 else pm_start slot)"

definition get_mml :: "'z mem_map_scheme \<Rightarrow> u32 \<Rightarrow> u32" where
  "get_mml s idx =
     (case slist_row (pmmap_list s) 0 idx of None \<Rightarrow> 0
      | Some (slot, i) \<Rightarrow> if i = pmmap_nentries s then 0 else pm_end slot - pm_start slot)"

definition is_usable :: "'z mem_map_scheme \<Rightarrow> u32 \<Rightarrow> u32" where
  "is_usable s idx =
     (case slist_row (pmmap_list s) 0 idx of None \<Rightarrow> 0
      | Some (slot, i) \<Rightarrow> if i = pmmap_nentries s then 0 else if pm_type slot = MEM_RAM then 1 else 0)"

section \<open>Coverage: which addresses have which memory type\<close>

definition covered :: "pmmap list \<Rightarrow> u32 \<Rightarrow> u32 \<Rightarrow> bool" where
  "covered rows type a \<longleftrightarrow> (\<exists>e \<in> set rows. pm_type e = type \<and> pm_start e \<le> a \<and> a < pm_end e)"

definition entry_end :: "mboot_mmap \<Rightarrow> u32" where
  "entry_end p = (if length_high p \<noteq> 0 \<or> length_low p \<ge> 0xffffffff - base_addr_low p then 0xffffffff
                  else base_addr_low p + length_low p)"

definition bios_covered :: "mboot_mmap list \<Rightarrow> u32 \<Rightarrow> u32 \<Rightarrow> bool" where
  "bios_covered entries type a \<longleftrightarrow>
     (\<exists>p \<in> set entries. base_addr_high p = 0 \<and> mm_type p = type \<and> base_addr_low p \<le> a \<and> a < entry_end p)"

lemma set_slist_insert [simp]: "set (slist_insert e l) = insert e (set l)"
  by (induction e l rule: slist_insert.induct) auto

lemma length_slist_insert [simp]: "length (slist_insert e l) = Suc (length l)"
  by (induction e l rule: slist_insert.induct) auto

lemma sorted_slist_insert:
  "sorted (map pm_start l) \<Longrightarrow> sorted (map pm_start (slist_insert e l))"
  by (induction e l rule: slist_insert.induct) (auto simp: less_imp_le)

lemma covered_slist_insert:
  "covered (slist_insert e l) type a \<longleftrightarrow>
     (pm_type e = type \<and> pm_start e \<le> a \<and> a < pm_end e) \<or> covered l type a"
  by (auto simp: covered_def)

lemma covered_Cons:
  "covered (e # l) type a \<longleftrightarrow> (pm_type e = type \<and> pm_start e \<le> a \<and> a < pm_end e) \<or> covered l type a"
  by (auto simp: covered_def)

lemma covered_merge_overlaps: "covered (merge_overlaps l) type a \<longleftrightarrow> covered l type a"
  by (induction l rule: merge_overlaps.induct)
    (auto simp: covered_Cons max_u32_def not_less intro: order.strict_trans2 order_trans)

lemma merge_overlaps_start:
  "e \<in> set (merge_overlaps l) \<Longrightarrow> \<exists>e' \<in> set l. pm_start e' = pm_start e"
  by (induction l rule: merge_overlaps.induct) (auto split: if_splits)

lemma sorted_merge_overlaps:
  "sorted (map pm_start l) \<Longrightarrow> sorted (map pm_start (merge_overlaps l))"
proof (induction l rule: merge_overlaps.induct)
  case (3 slot next_slot rest)
  have "pm_start slot \<le> pm_start e" if "e \<in> set (merge_overlaps m)" "set m \<subseteq> set (next_slot # rest)" for e m
    using merge_overlaps_start [OF that(1)] that(2) "3.prems" by fastforce
  with 3 show ?case by auto
qed simp_all

lemma length_merge_overlaps: "length (merge_overlaps l) \<le> length l"
  by (induction l rule: merge_overlaps.induct) auto

lemma set_types_merge_overlaps: "pm_type ` set (merge_overlaps l) \<subseteq> pm_type ` set l"
  by (induction l rule: merge_overlaps.induct) auto

lemma slist_row_nth:
  assumes "i + of_nat (length l) = (of_nat (unat i + length l) :: u32)" "unat i + length l < 2 ^ 32"
    and "i \<le> idx" "unat idx < unat i + length l"
  shows "slist_row l i idx = Some (l ! (unat idx - unat i), idx)"
  using assms
proof (induction l i idx rule: slist_row.induct)
  case (1 i idx)
  then show ?case by (simp add: word_le_nat_alt)
next
  case (2 slot rest i idx)
  show ?case
  proof (cases "i = idx")
    case False
    with "2.prems" have lt: "i < idx" by simp
    then have u: "unat (i + 1) = Suc (unat i)" by (rule unat_Suc_below)
    with lt "2.prems" have "slist_row rest (i + 1) idx = Some (rest ! (unat idx - unat (i + 1)), idx)"
      by (intro "2.IH" [OF False]) (auto simp: word_le_nat_alt word_less_nat_alt ac_simps)
    with False lt show ?thesis
      by (simp add: u word_less_nat_alt nth_Cons')
  qed simp
qed

text \<open>Rows as the getters see them, when the row count agrees with the list.\<close>

definition rows_ok :: "'z mem_map_scheme \<Rightarrow> bool" where
  "rows_ok s \<longleftrightarrow> length (pmmap_list s) < 2 ^ 32 \<and> pmmap_nentries s = of_nat (length (pmmap_list s))"

lemma unat_get_size: "rows_ok s \<Longrightarrow> unat (get_size s) = length (pmmap_list s)"
  by (simp add: rows_ok_def get_size_def unat_of_nat)

lemma row_lookup:
  assumes "rows_ok s" and "idx < get_size s"
  shows "get_mms s idx = pm_start (pmmap_list s ! unat idx)"
    and "get_mml s idx = pm_end (pmmap_list s ! unat idx) - pm_start (pmmap_list s ! unat idx)"
    and "is_usable s idx = (if pm_type (pmmap_list s ! unat idx) = MEM_RAM then 1 else 0)"
proof -
  from assms have "unat idx < length (pmmap_list s)"
    by (simp add: unat_get_size [symmetric] word_less_nat_alt)
  with assms(1) have "slist_row (pmmap_list s) 0 idx = Some (pmmap_list s ! unat idx, idx)"
    using slist_row_nth [of 0 "pmmap_list s" idx] by (simp add: rows_ok_def)
  moreover from assms(2) have "idx \<noteq> pmmap_nentries s" by (auto simp: get_size_def)
  ultimately show "get_mms s idx = pm_start (pmmap_list s ! unat idx)"
    and "get_mml s idx = pm_end (pmmap_list s ! unat idx) - pm_start (pmmap_list s ! unat idx)"
    and "is_usable s idx = (if pm_type (pmmap_list s ! unat idx) = MEM_RAM then 1 else 0)"
    by (simp_all add: get_mms_def get_mml_def is_usable_def)
qed

section \<open>Building the map\<close>

abbreviation low_entries :: "mboot_mmap list \<Rightarrow> mboot_mmap list" where
  "low_entries \<equiv> filter (\<lambda>p. base_addr_high p = 0)"

definition known_types :: "pmmap list \<Rightarrow> bool" where
  "known_types l \<longleftrightarrow> (\<forall>e \<in> set l. pm_type e \<in> {MEM_RAM, MEM_RESERVED, MEM_ACPI, MEM_NVS})"

lemma copy_entry_low:
  assumes "base_addr_high p = 0" and "pmmap_slots_next_free s \<noteq> 128"
  shows "copy_entry p s = Inr ((), s\<lparr>pmmap_slots_next_free := pmmap_slots_next_free s + 1,
    pmmap_list := slist_insert \<lparr>pm_start = base_addr_low p, pm_end = entry_end p, pm_type = mm_type p\<rparr>
      (pmmap_list s)\<rparr>)"
  using assms
  by (simp add: copy_entry_def entry_end_def pmmap_insert_def pmmap_alloc_slot_def exec Let_def)

lemma copy_entry_high: "base_addr_high p \<noteq> 0 \<Longrightarrow> copy_entry p s = Inr ((), s)"
  by (simp add: copy_entry_def exec)

lemma bios_covered_Cons:
  "bios_covered (p # es) type a \<longleftrightarrow>
     (base_addr_high p = 0 \<and> mm_type p = type \<and> base_addr_low p \<le> a \<and> a < entry_end p)
     \<or> bios_covered es type a"
  by (auto simp: bios_covered_def)

lemma copy_entries:
  assumes "unat (pmmap_slots_next_free s) + length (low_entries es) \<le> 128"
    and "\<forall>p \<in> set (low_entries es). mm_type p \<in> {MEM_RAM, MEM_RESERVED, MEM_ACPI, MEM_NVS}"
    and "sorted (map pm_start (pmmap_list s))" and "known_types (pmmap_list s)"
  shows "\<exists>n l. block (map copy_entry es) s =
      Inr ((), s\<lparr>pmmap_slots_next_free := n, pmmap_list := l\<rparr>) \<and>
    sorted (map pm_start l) \<and> known_types l \<and>
    length l = length (pmmap_list s) + length (low_entries es) \<and>
    (\<forall>type a. covered l type a \<longleftrightarrow> covered (pmmap_list s) type a \<or> bios_covered es type a)"
  using assms
proof (induction es arbitrary: s)
  case Nil
  then show ?case
    by (intro exI [of _ "pmmap_slots_next_free s"] exI [of _ "pmmap_list s"])
      (simp add: exec bios_covered_def)
next
  case (Cons p es)
  show ?case
  proof (cases "base_addr_high p = 0")
    case False
    with Cons.IH [of s] Cons.prems show ?thesis
      by (simp add: exec copy_entry_high bios_covered_Cons)
  next
    case True
    let ?e = "\<lparr>pm_start = base_addr_low p, pm_end = entry_end p, pm_type = mm_type p\<rparr>"
    let ?t = "s\<lparr>pmmap_slots_next_free := pmmap_slots_next_free s + 1,
      pmmap_list := slist_insert ?e (pmmap_list s)\<rparr>"
    from True Cons.prems(1) have free: "unat (pmmap_slots_next_free s) < 128" by simp
    then have ne: "pmmap_slots_next_free s \<noteq> 128" by auto
    from free have "pmmap_slots_next_free s < 128" by (simp add: word_less_nat_alt)
    then have "unat (pmmap_slots_next_free s + 1) = Suc (unat (pmmap_slots_next_free s))"
      by (rule unat_Suc_below)
    with True Cons.prems have "\<exists>n l. block (map copy_entry es) ?t =
        Inr ((), ?t\<lparr>pmmap_slots_next_free := n, pmmap_list := l\<rparr>) \<and>
      sorted (map pm_start l) \<and> known_types l \<and>
      length l = length (pmmap_list ?t) + length (low_entries es) \<and>
      (\<forall>type a. covered l type a \<longleftrightarrow> covered (pmmap_list ?t) type a \<or> bios_covered es type a)"
      by (intro Cons.IH) (auto simp: sorted_slist_insert known_types_def)
    with True ne show ?thesis
      by (auto simp: exec copy_entry_low bios_covered_Cons covered_slist_insert)
  qed
qed

lemma make_sublists_exec:
  "known_types l \<Longrightarrow>
   \<exists>sub. make_sublists l s = Inr ((), s\<lparr>pmmap_sublist := sub\<rparr>)"
proof (induction l arbitrary: s)
  case Nil
  then show ?case by (intro exI [of _ "pmmap_sublist s"]) (simp add: exec)
next
  case (Cons slot l)
  then obtain nr where nr: "PMMAP_SUBLIST_NR (pm_type slot) = Some nr"
    by (auto simp: known_types_def PMMAP_SUBLIST_NR_def)
  from Cons.prems have "known_types l" by (simp add: known_types_def)
  then obtain sub where
    "make_sublists l (s\<lparr>pmmap_sublist := (pmmap_sublist s)(nr := pmmap_sublist s nr @ [slot])\<rparr>)
     = Inr ((), s\<lparr>pmmap_sublist := sub\<rparr>)"
    using Cons.IH [of "s\<lparr>pmmap_sublist := (pmmap_sublist s)(nr := pmmap_sublist s nr @ [slot])\<rparr>"]
    by auto
  with nr show ?case by (auto simp: exec)
qed

text \<open>The whole of \<open>pmmap_init\<close>, as the list it leaves behind.\<close>

lemma pmmap_init_exec:
  assumes "unat (pmmap_slots_next_free s) + length (low_entries es) \<le> 128"
    and "\<forall>p \<in> set (low_entries es). mm_type p \<in> {MEM_RAM, MEM_RESERVED, MEM_ACPI, MEM_NVS}"
    and "pmmap_nentries s = 0"
  shows "\<exists>n l sub m k. pmmap_init es s =
      Inr ((), s\<lparr>pmmap_slots_next_free := n, pmmap_list := l, pmmap_sublist := sub,
        max_usable_memory := m, mem_npages := k, pmmap_nentries := of_nat (length l)\<rparr>) \<and>
    sorted (map pm_start l) \<and> length l \<le> 128 \<and>
    (\<forall>type a. covered l type a \<longleftrightarrow> bios_covered es type a)"
proof -
  let ?s0 = "s\<lparr>pmmap_list := [], pmmap_sublist := (\<lambda>nr. if nr < 4 then [] else pmmap_sublist s nr)\<rparr>"
  obtain n l where cp: "block (map copy_entry es) ?s0 =
      Inr ((), ?s0\<lparr>pmmap_slots_next_free := n, pmmap_list := l\<rparr>)"
    and l: "sorted (map pm_start l)" "known_types l" "length l = length (low_entries es)"
      "\<forall>type a. covered l type a \<longleftrightarrow> bios_covered es type a"
    using copy_entries [of ?s0 es] assms by (auto simp: known_types_def covered_def)
  let ?l = "merge_overlaps l"
  have kt: "known_types ?l"
    using l(2) set_types_merge_overlaps [of l] by (fastforce simp: known_types_def)
  let ?s1 = "?s0\<lparr>pmmap_slots_next_free := n, pmmap_list := ?l\<rparr>"
  obtain sub where sub: "make_sublists ?l ?s1 = Inr ((), ?s1\<lparr>pmmap_sublist := sub\<rparr>)"
    using make_sublists_exec [OF kt] by blast
  let ?m = "if sub 0 = [] then max_usable_memory s else pm_end (last (sub 0))"
  have "length ?l \<le> 128"
    using length_merge_overlaps [of l] l(3) assms(1) by simp
  moreover have "pmmap_init es s =
      Inr ((), s\<lparr>pmmap_slots_next_free := n, pmmap_list := ?l, pmmap_sublist := sub,
        max_usable_memory := ?m, mem_npages := rounddown ?m PAGESIZE div PAGESIZE,
        pmmap_nentries := of_nat (length ?l)\<rparr>)"
    using cp sub assms(3)
    by (cases "sub 0 = []") (simp_all add: pmmap_init_def pmmap_merge_def exec)
  moreover have "sorted (map pm_start ?l)" "\<forall>type a. covered ?l type a \<longleftrightarrow> bios_covered es type a"
    using l by (simp_all add: sorted_merge_overlaps covered_merge_overlaps)
  ultimately show ?thesis by blast
qed

section \<open>Properties\<close>

text \<open>The variables of \<open>mboot.c\<close> as the loader leaves them.\<close>

definition boot_mem_map :: mem_map where
  "boot_mem_map = machine.extend boot_machine (mem_map.fields 0 [] (\<lambda>_. []) 0 0 0)"

lemmas boot_mem_map_defs = boot_mem_map_def boot_machine_def machine.defs mem_map.defs

text \<open>
  C2. The memory map the kernel builds says of every address exactly what the boot loader's
  entries say: \<open>pmmap_init\<close> neither loses nor invents an address of any type, whatever overlaps
  the entries have, and leaves the rows ordered by start address. It needs the entries below
  4 GB to fit the 128 slots and to carry known types; otherwise the code panics.
\<close>

theorem pmmap_init_coverage:
  assumes "unat (pmmap_slots_next_free s) + length (low_entries es) \<le> 128"
    and "\<forall>p \<in> set (low_entries es). mm_type p \<in> {MEM_RAM, MEM_RESERVED, MEM_ACPI, MEM_NVS}"
    and "pmmap_nentries s = 0"
  shows "\<exists>s'. pmmap_init es s = Inr ((), s') \<and> sorted (map pm_start (pmmap_list s')) \<and>
    unat (get_size s') = length (pmmap_list s') \<and>
    (\<forall>type a. covered (pmmap_list s') type a \<longleftrightarrow> bios_covered es type a)"
proof -
  obtain n l sub m k where "pmmap_init es s =
      Inr ((), s\<lparr>pmmap_slots_next_free := n, pmmap_list := l, pmmap_sublist := sub,
        max_usable_memory := m, mem_npages := k, pmmap_nentries := of_nat (length l)\<rparr>)"
    (is "_ = Inr ((), ?t)")
    and "sorted (map pm_start l)" "length l \<le> 128"
      "\<forall>type a. covered l type a \<longleftrightarrow> bios_covered es type a"
    using pmmap_init_exec [OF assms] by blast
  then show ?thesis
    by (intro exI [of _ ?t]) (simp add: get_size_def unat_of_nat)
qed

definition sample_bios :: "mboot_mmap list" where
  "sample_bios =
     [\<lparr>base_addr_low = 0x100000, base_addr_high = 0, length_low = 0x7ff00000, length_high = 0, mm_type = MEM_RAM\<rparr>,
      \<lparr>base_addr_low = 0, base_addr_high = 0, length_low = 0x9fc00, length_high = 0, mm_type = MEM_RAM\<rparr>,
      \<lparr>base_addr_low = 0x9f000, base_addr_high = 0, length_low = 0x61000, length_high = 0, mm_type = MEM_RESERVED\<rparr>,
      \<lparr>base_addr_low = 0, base_addr_high = 1, length_low = 0x1000, length_high = 0, mm_type = MEM_RAM\<rparr>]"

theorem pmmap_init_coverage_witness:
  "\<exists>s'. pmmap_init sample_bios boot_mem_map = Inr ((), s') \<and>
    (\<forall>type a. covered (pmmap_list s') type a \<longleftrightarrow> bios_covered sample_bios type a)"
proof -
  have "unat (pmmap_slots_next_free boot_mem_map) + length (low_entries sample_bios) \<le> 128"
    "\<forall>p \<in> set (low_entries sample_bios). mm_type p \<in> {MEM_RAM, MEM_RESERVED, MEM_ACPI, MEM_NVS}"
    "pmmap_nentries boot_mem_map = 0"
    by (simp_all add: boot_mem_map_defs sample_bios_def)
  from pmmap_init_coverage [OF this] show ?thesis by blast
qed

end
