(* ===== verification/Phys_Mem.thy ===== *)
theory Phys_Mem
  imports Mem_Map
begin

text \<open>
  Physical page management: the allocation table \<open>AT\<close> (\<open>kern/pmm/MATIntro\<close>), its
  initialisation from the memory map (\<open>kern/pmm/MATInit\<close>), and the page allocator
  (\<open>kern/pmm/MATOp\<close>).

  Shown here: initialisation gives every page the permission the memory map calls for;
  \<open>palloc\<close> returns the first free page after the last one it handed out and changes that
  entry only; two calls in a row find a page whenever a free page exists.
\<close>

section \<open>State\<close>

record ATStruct =
  perm :: u32
  allocated :: u32

record mat = mem_map +
  mem_lk :: spinlock_t
  NUM_PAGES :: u32
  AT :: "u32 \<Rightarrow> ATStruct"
  last_palloc_index :: u32

abbreviation (input) AT_SIZE :: u32 where "AT_SIZE \<equiv> 0x100000"

section \<open>MATIntro\<close>

definition mem_spinlock_init :: "('z mat_scheme, unit) kop" where
  "mem_spinlock_init = spinlock_init mem_lk_update"

definition mem_lock :: "('z mat_scheme, unit) kop" where
  "mem_lock = spinlock_acquire mem_lk mem_lk_update"

definition mem_unlock :: "('z mat_scheme, unit) kop" where
  "mem_unlock = spinlock_release mem_lk_update"

definition get_nps :: "('z mat_scheme, u32) kop" where
  "get_nps = gets NUM_PAGES"

definition set_nps :: "u32 \<Rightarrow> ('z mat_scheme, unit) kop" where
  "set_nps nps = modify (\<lambda>s. s\<lparr>NUM_PAGES := nps\<rparr>)"

definition at_is_norm :: "u32 \<Rightarrow> ('z mat_scheme, u32) kop" where
  "at_is_norm page_index =
     seq (in_bounds (page_index < AT_SIZE))
     (bind (gets (\<lambda>s. perm (AT s page_index))) (\<lambda>tperm.
      ret (if tperm = 0 then 0 else if tperm = 1 then 0 else 1)))"

definition at_set_perm :: "u32 \<Rightarrow> u32 \<Rightarrow> ('z mat_scheme, unit) kop" where
  "at_set_perm page_index norm_val =
     seq (in_bounds (page_index < AT_SIZE))
     (seq (modify (\<lambda>s. s\<lparr>AT := (AT s)(page_index := (AT s page_index)\<lparr>perm := norm_val\<rparr>)\<rparr>))
       (modify (\<lambda>s. s\<lparr>AT := (AT s)(page_index := (AT s page_index)\<lparr>allocated := 0\<rparr>)\<rparr>)))"

definition at_is_allocated :: "u32 \<Rightarrow> ('z mat_scheme, u32) kop" where
  "at_is_allocated page_index =
     seq (in_bounds (page_index < AT_SIZE))
     (bind (gets (\<lambda>s. allocated (AT s page_index))) (\<lambda>a. ret (if a = 0 then 0 else 1)))"

definition at_set_allocated :: "u32 \<Rightarrow> u32 \<Rightarrow> ('z mat_scheme, unit) kop" where
  "at_set_allocated page_index a =
     seq (in_bounds (page_index < AT_SIZE))
       (modify (\<lambda>s. s\<lparr>AT := (AT s)(page_index := (AT s page_index)\<lparr>allocated := a\<rparr>)\<rparr>))"

section \<open>MATInit\<close>

abbreviation (input) VM_USERLO :: u32 where "VM_USERLO \<equiv> 0x40000000"
abbreviation (input) VM_USERHI :: u32 where "VM_USERHI \<equiv> 0xF0000000"
abbreviation (input) VM_USERLO_PI :: u32 where "VM_USERLO_PI \<equiv> 0x40000"
abbreviation (input) VM_USERHI_PI :: u32 where "VM_USERHI_PI \<equiv> 0xF0000"

text \<open>First loop of \<open>pmem_init\<close>: one more than the highest page any row ends in.\<close>

function count_pages :: "'z mem_map_scheme \<Rightarrow> u32 \<Rightarrow> u32 \<Rightarrow> u32 \<Rightarrow> u32" where
  "count_pages s nrows i nps =
     (if i < nrows
      then let maxs = (get_mms s i + get_mml s i) div PAGESIZE + 1
           in count_pages s nrows (i + 1) (if maxs > nps then maxs else nps)
      else nps)"
  by pat_completeness auto
termination
  by (relation "measure (\<lambda>(s, nrows, i, nps). unat nrows - unat i)")
    (auto simp: unat_Suc_below word_less_nat_alt)

declare count_pages.simps [simp del]

text \<open>The inner loop of the second part: the rows are searched until one contains page \<open>i\<close>.\<close>

function scan_rows :: "'z mem_map_scheme \<Rightarrow> u32 \<Rightarrow> u32 \<Rightarrow> u32 \<Rightarrow> u32 \<Rightarrow> u32 \<Rightarrow> u32 \<times> u32" where
  "scan_rows s nrows i j flag isnorm =
     (if j < nrows \<and> flag = 0
      then let st = get_mms s j; l = get_mml s j; isnorm' = is_usable s j;
               flag' = (if st \<le> i * PAGESIZE \<and> l + st \<ge> (i + 1) * PAGESIZE then 1 else flag)
           in scan_rows s nrows i (j + 1) flag' isnorm'
      else (flag, isnorm))"
  by pat_completeness auto
termination
  by (relation "measure (\<lambda>(s, nrows, i, j, flag, isnorm). unat nrows - unat j)")
    (auto simp: unat_Suc_below word_less_nat_alt)

declare scan_rows.simps [simp del]

definition init_page :: "u32 \<Rightarrow> u32 \<Rightarrow> ('z mat_scheme, unit) kop" where
  "init_page nrows i =
     (if i < VM_USERLO_PI \<or> i \<ge> VM_USERHI_PI then at_set_perm i 1
      else bind (gets (\<lambda>s. scan_rows s nrows i 0 0 0)) (\<lambda>(flag, isnorm).
        if flag = 1 \<and> isnorm = 1 then at_set_perm i 2 else at_set_perm i 0))"

text \<open>
  Of \<open>devinit\<close> only the memory map is modelled here; the other devices it starts do not touch
  the state of this layer.
\<close>

definition pmem_init :: "mboot_mmap list \<Rightarrow> ('z mat_scheme, unit) kop" where
  "pmem_init mbi =
     seq (pmmap_init mbi)
     (seq mem_spinlock_init
     (bind (gets get_size) (\<lambda>nrows.
      bind (gets (\<lambda>s. count_pages s nrows 0 0)) (\<lambda>nps.
      seq (set_nps nps) (for_loop 0 nps (init_page nrows))))))"

section \<open>MATOp\<close>

text \<open>The search loop of \<open>palloc\<close>; \<open>tnps\<close> doubles as "nothing found".\<close>

function palloc_scan :: "u32 \<Rightarrow> u32 \<Rightarrow> u32 \<Rightarrow> ('z mat_scheme, u32) kop" where
  "palloc_scan tnps palloc_index palloc_free_index =
     (if palloc_index < tnps \<and> palloc_free_index = tnps
      then bind (at_is_norm palloc_index) (\<lambda>palloc_is_norm.
           bind (if palloc_is_norm = 1
                 then bind (at_is_allocated palloc_index) (\<lambda>palloc_cur_at.
                      ret (if palloc_cur_at = 0 then palloc_index else palloc_free_index))
                 else ret palloc_free_index) (\<lambda>free_index.
           palloc_scan tnps (palloc_index + 1) free_index))
      else ret palloc_free_index)"
  by pat_completeness auto
termination
  by (relation "measure (\<lambda>(tnps, i, free). unat tnps - unat i)")
    (auto simp: unat_Suc_below word_less_nat_alt)

declare palloc_scan.simps [simp del]

definition palloc :: "('z mat_scheme, u32) kop" where
  "palloc =
     seq mem_lock
     (bind get_nps (\<lambda>tnps.
      bind (gets last_palloc_index) (\<lambda>last.
      bind (palloc_scan tnps (last + 1) tnps) (\<lambda>found.
      bind (if found = tnps then ret 0
            else seq (at_set_allocated found 1) (ret found)) (\<lambda>palloc_free_index.
      seq (if tnps = 0 then stop_with DivideByZero
           else modify (\<lambda>s. s\<lparr>last_palloc_index := palloc_free_index mod tnps\<rparr>))
      (seq mem_unlock (ret palloc_free_index)))))))"

definition pfree :: "u32 \<Rightarrow> ('z mat_scheme, unit) kop" where
  "pfree pfree_index =
     seq mem_lock (seq (at_set_allocated pfree_index 0) mem_unlock)"

section \<open>The lock of this layer\<close>

interpretation mem: lock_field mem_lk mem_lk_update
proof unfold_locales
  fix f g :: "spinlock_t \<Rightarrow> spinlock_t" and s :: "'z mat_scheme"
  show "f (mem_lk s) = g (mem_lk s) \<Longrightarrow> mem_lk_update f s = mem_lk_update g s"
    by (cases s) simp
qed simp_all

lemma mem_lock_exec [exec]:
  "cpu_ok s \<Longrightarrow> mem_lk s = lock_init_val \<Longrightarrow>
   mem_lock s = Inr ((), s\<lparr>mem_lk := lock_held_val (kstack_cpu_idx s)\<rparr>)"
  using mem.acquire_exec [of s] by (simp add: mem_lock_def mem.set_lock_def lock_init_val_def)

lemma mem_unlock_exec [exec]: "mem_unlock s = Inr ((), s\<lparr>mem_lk := lock_init_val\<rparr>)"
  by (simp add: mem_unlock_def mem.release_exec mem.set_lock_def)

lemma mem_spinlock_init_exec [exec]: "mem_spinlock_init s = Inr ((), s\<lparr>mem_lk := lock_init_val\<rparr>)"
  by (simp add: mem_spinlock_init_def mem.init_exec mem.set_lock_def)

lemma mem_lk_same: "mem_lk s = v \<Longrightarrow> s\<lparr>mem_lk := v\<rparr> = s"
  using mem.set_lock_same [of s v] by (simp add: mem.set_lock_def)

section \<open>Well-formedness\<close>

definition mat_ok :: "'z mat_scheme \<Rightarrow> bool" where
  "mat_ok s \<longleftrightarrow> cpu_ok s \<and> mem_lk s = lock_init_val \<and> 0 < NUM_PAGES s \<and> NUM_PAGES s \<le> AT_SIZE \<and>
     last_palloc_index s \<le> AT_SIZE"

definition norm_page :: "'z mat_scheme \<Rightarrow> u32 \<Rightarrow> bool" where
  "norm_page s p \<longleftrightarrow> p < NUM_PAGES s \<and> perm (AT s p) \<noteq> 0 \<and> perm (AT s p) \<noteq> 1"

definition free_page :: "'z mat_scheme \<Rightarrow> u32 \<Rightarrow> bool" where
  "free_page s p \<longleftrightarrow> norm_page s p \<and> allocated (AT s p) = 0"

lemma at_is_norm_exec [exec]:
  "p < AT_SIZE \<Longrightarrow> at_is_norm p s = Inr (if perm (AT s p) = 0 \<or> perm (AT s p) = 1 then 0 else 1, s)"
  by (simp add: at_is_norm_def exec)

lemma at_is_allocated_exec [exec]:
  "p < AT_SIZE \<Longrightarrow> at_is_allocated p s = Inr (if allocated (AT s p) = 0 then 0 else 1, s)"
  by (simp add: at_is_allocated_def exec)

lemma at_set_allocated_exec [exec]:
  "p < AT_SIZE \<Longrightarrow> at_set_allocated p a s =
     Inr ((), s\<lparr>AT := (AT s)(p := (AT s p)\<lparr>allocated := a\<rparr>)\<rparr>)"
  by (simp add: at_set_allocated_def exec)

lemma at_set_perm_exec [exec]:
  "p < AT_SIZE \<Longrightarrow> at_set_perm p v s = Inr ((), s\<lparr>AT := (AT s)(p := \<lparr>perm = v, allocated = 0\<rparr>)\<rparr>)"
  by (cases "AT s p") (simp add: at_set_perm_def exec)

section \<open>The allocator against a reference definition\<close>

text \<open>The pages from \<open>lo\<close> up to, but not including, \<open>hi\<close>, in order.\<close>

definition pages :: "u32 \<Rightarrow> u32 \<Rightarrow> u32 list" where
  "pages lo hi = map of_nat [unat lo..<unat hi]"

lemma pages_empty: "\<not> lo < hi \<Longrightarrow> pages lo hi = []"
  by (simp add: pages_def word_less_nat_alt)

lemma pages_Cons:
  assumes "lo < hi"
  shows "pages lo hi = lo # pages (lo + 1) hi"
proof -
  from assms have "unat lo < unat hi" by (simp add: word_less_nat_alt)
  then show ?thesis by (simp add: pages_def upt_conv_Cons unat_Suc_below [OF assms])
qed

lemma pages_snoc:
  assumes "lo \<le> k" "k < n"
  shows "pages lo (k + 1) = pages lo k @ [k]"
  using assms unat_Suc_below [OF assms(2)] by (simp add: pages_def word_le_nat_alt upt_Suc_append)

lemma set_pages: "set (pages lo hi) = {p. lo \<le> p \<and> p < hi}"
proof (intro set_eqI iffI)
  fix p assume "p \<in> set (pages lo hi)"
  then obtain n where n: "p = of_nat n" "unat lo \<le> n" "n < unat hi"
    by (auto simp: pages_def)
  then have "n < 2 ^ 32" using unsigned_less [of hi, where ?'a = nat] by simp
  with n have "unat p = n" by (simp add: unat_of_nat)
  with n show "p \<in> {p. lo \<le> p \<and> p < hi}" by (simp add: word_le_nat_alt word_less_nat_alt)
next
  fix p assume "p \<in> {p. lo \<le> p \<and> p < hi}"
  then have "unat p \<in> {unat lo..<unat hi}" by (simp add: word_le_nat_alt word_less_nat_alt)
  then have "(of_nat (unat p) :: u32) \<in> of_nat ` {unat lo..<unat hi}" by (rule imageI)
  then show "p \<in> set (pages lo hi)" by (simp add: pages_def)
qed

lemma unat_pages_nth:
  assumes "k < length (pages lo hi)"
  shows "unat (pages lo hi ! k) = unat lo + k"
proof -
  from assms have "unat lo + k < 2 ^ 32"
    using unsigned_less [of hi, where ?'a = nat] by (simp add: pages_def)
  with assms show ?thesis
    by (simp add: pages_def unat_of_nat del: of_nat_add)
qed

lemma pages_nth_mono:
  "i \<le> j \<Longrightarrow> j < length (pages lo hi) \<Longrightarrow> pages lo hi ! i \<le> pages lo hi ! j"
  by (simp add: word_le_nat_alt unat_pages_nth)

text \<open>The first free page after the one handed out last.\<close>

definition next_free :: "'z mat_scheme \<Rightarrow> u32 option" where
  "next_free s = List.find (free_page s) (pages (last_palloc_index s + 1) (NUM_PAGES s))"

lemma next_free_Some:
  assumes "next_free s = Some p"
  shows "free_page s p" and "last_palloc_index s + 1 \<le> p"
    and "\<And>q. last_palloc_index s + 1 \<le> q \<Longrightarrow> free_page s q \<Longrightarrow> p \<le> q"
proof -
  let ?l = "pages (last_palloc_index s + 1) (NUM_PAGES s)"
  from assms obtain i where i: "i < length ?l" "free_page s (?l ! i)" "p = ?l ! i"
      "\<forall>j < i. \<not> free_page s (?l ! j)"
    by (auto simp: next_free_def find_Some_iff)
  then show "free_page s p" by simp
  from i have "p \<in> set ?l" by simp
  then show "last_palloc_index s + 1 \<le> p" by (simp add: set_pages)
  fix q assume q: "last_palloc_index s + 1 \<le> q" "free_page s q"
  then have "q \<in> set ?l" by (simp add: set_pages free_page_def norm_page_def)
  then obtain j where j: "j < length ?l" "q = ?l ! j" by (auto simp: in_set_conv_nth)
  with q i have "i \<le> j" by (metis not_le)
  with i j show "p \<le> q" by (simp add: pages_nth_mono)
qed

lemma next_free_None:
  "next_free s = None \<longleftrightarrow> (\<forall>p. last_palloc_index s + 1 \<le> p \<longrightarrow> \<not> free_page s p)"
  by (auto simp: next_free_def find_None_iff set_pages free_page_def norm_page_def)

lemma palloc_scan_found: "free \<noteq> tnps \<Longrightarrow> palloc_scan tnps i free s = Inr (free, s)"
  by (subst palloc_scan.simps) (simp add: exec)

lemma palloc_scan_exec:
  assumes "tnps \<le> AT_SIZE" and "tnps = NUM_PAGES s"
  shows "palloc_scan tnps i tnps s =
    Inr (case List.find (free_page s) (pages i tnps) of None \<Rightarrow> tnps | Some p \<Rightarrow> p, s)"
  using assms
proof (induction "unat tnps - unat i" arbitrary: i rule: less_induct)
  case less
  show ?case
  proof (cases "i < tnps")
    case False
    then show ?thesis by (subst palloc_scan.simps) (simp add: exec pages_empty)
  next
    case True
    with less.prems have lt: "i < AT_SIZE" by simp
    have "unat tnps - unat (i + 1) < unat tnps - unat i"
      using True by (simp add: unat_Suc_below word_less_nat_alt)
    then have "palloc_scan tnps (i + 1) tnps s =
        Inr (case List.find (free_page s) (pages (i + 1) tnps) of None \<Rightarrow> tnps | Some p \<Rightarrow> p, s)"
      using less by blast
    with True lt less.prems show ?thesis
      by (subst palloc_scan.simps)
        (auto simp: exec pages_Cons free_page_def norm_page_def palloc_scan_found)
  qed
qed

lemma palloc_exec:
  assumes "mat_ok s"
  shows "palloc s = (case next_free s of
      None \<Rightarrow> Inr (0, s\<lparr>last_palloc_index := 0\<rparr>)
    | Some p \<Rightarrow> Inr (p, s\<lparr>AT := (AT s)(p := (AT s p)\<lparr>allocated := 1\<rparr>), last_palloc_index := p\<rparr>))"
proof -
  let ?h = "s\<lparr>mem_lk := lock_held_val (kstack_cpu_idx s)\<rparr>"
  from assms have ok: "cpu_ok s" "mem_lk s = lock_init_val" "NUM_PAGES s \<noteq> 0" "NUM_PAGES s \<le> AT_SIZE"
    by (auto simp: mat_ok_def)
  have nf: "List.find (free_page ?h) (pages (last_palloc_index s + 1) (NUM_PAGES s)) = next_free s"
    by (simp add: next_free_def free_page_def [abs_def] norm_page_def [abs_def])
  have scan: "palloc_scan (NUM_PAGES s) (last_palloc_index s + 1) (NUM_PAGES s) ?h =
      Inr (case next_free s of None \<Rightarrow> NUM_PAGES s | Some p \<Rightarrow> p, ?h)"
    by (simp add: palloc_scan_exec ok(4) nf)
  show ?thesis
  proof (cases "next_free s")
    case None
    with ok scan show ?thesis
      by (simp add: palloc_def get_nps_def exec mem_lk_same)
  next
    case (Some p)
    then have p: "p < NUM_PAGES s" "p \<noteq> NUM_PAGES s"
      by (auto dest: next_free_Some(1) simp: free_page_def norm_page_def)
    with ok have "p < AT_SIZE" by simp
    moreover from p have "p mod NUM_PAGES s = p"
      by (simp add: word_arith_nat_mod word_less_nat_alt)
    ultimately show ?thesis using Some ok scan p(2)
      by (simp add: palloc_def get_nps_def exec mem_lk_same)
  qed
qed

text \<open>After a call the next one starts at the page just handed out, or at page 1.\<close>

lemma mat_ok_palloc:
  assumes "mat_ok s" and "palloc s = Inr (p, s')"
  shows "mat_ok s'"
proof (cases "next_free s")
  case None
  with assms show ?thesis by (auto simp: palloc_exec mat_ok_def cpu_ok_def)
next
  case (Some q)
  then have "q \<le> AT_SIZE"
    using assms(1) next_free_Some(1) [OF Some]
    by (auto simp: free_page_def norm_page_def mat_ok_def intro: order.trans less_imp_le)
  with Some assms show ?thesis by (auto simp: palloc_exec mat_ok_def cpu_ok_def)
qed

lemma pfree_exec:
  assumes "cpu_ok s" and "mem_lk s = lock_init_val" and "p < AT_SIZE"
  shows "pfree p s = Inr ((), s\<lparr>AT := (AT s)(p := (AT s p)\<lparr>allocated := 0\<rparr>)\<rparr>)"
  using assms by (simp add: pfree_def exec mem_lk_same)

lemma last_index_Suc: "mat_ok s \<Longrightarrow> 1 \<le> last_palloc_index s + 1"
proof -
  assume "mat_ok s"
  then have "last_palloc_index s < AT_SIZE + 1"
    by (simp add: mat_ok_def word_le_nat_alt word_less_nat_alt)
  from unat_Suc_below [OF this] show ?thesis by (simp add: word_le_nat_alt)
qed

section \<open>Initialisation\<close>

text \<open>Row \<open>j\<close> of the memory map contains the whole of page \<open>i\<close>.\<close>

definition row_has_page :: "'z mem_map_scheme \<Rightarrow> u32 \<Rightarrow> u32 \<Rightarrow> bool" where
  "row_has_page s i j \<longleftrightarrow>
     get_mms s j \<le> i * PAGESIZE \<and> get_mml s j + get_mms s j \<ge> (i + 1) * PAGESIZE"

definition page_perm :: "'z mem_map_scheme \<Rightarrow> u32 \<Rightarrow> u32" where
  "page_perm s i =
     (if i < VM_USERLO_PI \<or> i \<ge> VM_USERHI_PI then 1
      else case List.find (row_has_page s i) (pages 0 (get_size s)) of
             None \<Rightarrow> 0
           | Some j \<Rightarrow> if is_usable s j = 1 then 2 else 0)"

lemma scan_rows_flag: "scan_rows s nrows i j 1 isnorm = (1, isnorm)"
  by (subst scan_rows.simps) simp

lemma scan_rows_find:
  "\<exists>n. scan_rows s nrows i j 0 isnorm =
     (case List.find (row_has_page s i) (pages j nrows) of
        None \<Rightarrow> (0, n) | Some k \<Rightarrow> (1, is_usable s k))"
proof (induction "unat nrows - unat j" arbitrary: j isnorm rule: less_induct)
  case less
  show ?case
  proof (cases "j < nrows")
    case False
    then show ?thesis by (subst scan_rows.simps) (simp add: pages_empty)
  next
    case True
    then have lt: "unat nrows - unat (j + 1) < unat nrows - unat j"
      by (simp add: unat_Suc_below word_less_nat_alt)
    show ?thesis
    proof (cases "row_has_page s i j")
      case True
      with \<open>j < nrows\<close> show ?thesis
        by (subst scan_rows.simps) (simp add: Let_def pages_Cons scan_rows_flag, simp add: row_has_page_def)
    next
      case False
      then have "\<not> (get_mms s j \<le> i * PAGESIZE \<and> get_mml s j + get_mms s j \<ge> (i + 1) * PAGESIZE)"
        by (simp add: row_has_page_def)
      with False \<open>j < nrows\<close> less [OF lt, of "is_usable s j"] show ?thesis
        by (subst scan_rows.simps) (simp only: Let_def pages_Cons find.simps if_True if_False simp_thms)
    qed
  qed
qed

lemma init_page_exec:
  assumes "i < AT_SIZE"
  shows "init_page (get_size s) i s =
    Inr ((), s\<lparr>AT := (AT s)(i := \<lparr>perm = page_perm s i, allocated = 0\<rparr>)\<rparr>)"
proof -
  obtain n where sc: "scan_rows s (get_size s) i 0 0 0 =
     (case List.find (row_has_page s i) (pages 0 (get_size s)) of
        None \<Rightarrow> (0, n) | Some k \<Rightarrow> (1, is_usable s k))"
    using scan_rows_find by blast
  show ?thesis
    by (cases "List.find (row_has_page s i) (pages 0 (get_size s))")
      (simp_all add: init_page_def page_perm_def exec sc assms)
qed

lemma rows_AT [simp]:
  "get_size (s\<lparr>AT := a\<rparr>) = get_size s" "get_mms (s\<lparr>AT := a\<rparr>) = get_mms s"
  "get_mml (s\<lparr>AT := a\<rparr>) = get_mml s" "is_usable (s\<lparr>AT := a\<rparr>) = is_usable s"
  by (simp_all add: get_size_def get_mms_def get_mml_def is_usable_def fun_eq_iff
      split: option.splits)

lemma page_perm_AT: "page_perm (s\<lparr>AT := a\<rparr>) i = page_perm s i"
  by (simp add: page_perm_def row_has_page_def [abs_def] split: option.split)

lemma init_pages_exec:
  assumes "nps \<le> AT_SIZE"
  shows "for_loop 0 nps (init_page (get_size s)) s =
    Inr ((), s\<lparr>AT := (\<lambda>i. if i < nps then \<lparr>perm = page_perm s i, allocated = 0\<rparr> else AT s i)\<rparr>)"
proof -
  define T where "T k = s\<lparr>AT := (\<lambda>i. if i < k then \<lparr>perm = page_perm s i, allocated = 0\<rparr> else AT s i)\<rparr>" for k
  have "\<exists>t. for_loop 0 nps (init_page (get_size s)) s = Inr ((), t) \<and> t = T nps"
  proof (rule for_loop_returns_exec [where I = "\<lambda>k t. t = T k"])
    show "s = T 0" by (simp add: T_def)
    fix k t assume k: "k < nps" and t: "t = T k"
    with assms have "k < AT_SIZE" by simp
    have "(i < k + 1) = (i < k \<or> i = k)" for i
      using k by (rule below_Suc)
    then have "(AT (T k))(k := \<lparr>perm = page_perm s k, allocated = 0\<rparr>) = AT (T (k + 1))"
      by (auto simp: T_def fun_eq_iff)
    then have "t\<lparr>AT := (AT t)(k := \<lparr>perm = page_perm s k, allocated = 0\<rparr>)\<rparr> = T (k + 1)"
      using t by (simp add: T_def)
    moreover have "page_perm t k = page_perm s k" "get_size s = get_size t"
      using t by (simp_all add: T_def page_perm_AT)
    ultimately show "\<exists>t'. init_page (get_size s) k t = Inr ((), t') \<and> t' = T (k + 1)"
      using init_page_exec [OF \<open>k < AT_SIZE\<close>, of t] by simp
  qed simp
  then show ?thesis by (simp add: T_def)
qed

text \<open>No row reaches beyond the end of the 32-bit address space, so the table is large enough.\<close>

lemma count_pages_bounds: "nps \<le> AT_SIZE \<Longrightarrow> count_pages s nrows i nps \<le> AT_SIZE"
  and count_pages_mono: "nps \<le> count_pages s nrows i nps"
proof (induction s nrows i nps rule: count_pages.induct)
  case (1 s nrows i nps)
  let ?maxs = "(get_mms s i + get_mml s i) div PAGESIZE + 1"
  have "unat ((get_mms s i + get_mml s i) div PAGESIZE) < 2 ^ 20"
    using unsigned_less [of "get_mms s i + get_mml s i", where ?'a = nat]
    by (simp add: unat_div less_mult_imp_div_less)
  then have "?maxs \<le> AT_SIZE"
    by (simp add: word_le_nat_alt unat_word_ariths)
  with 1 show "nps \<le> AT_SIZE \<Longrightarrow> count_pages s nrows i nps \<le> AT_SIZE"
    by (subst count_pages.simps) (simp add: Let_def)
  show "nps \<le> count_pages s nrows i nps"
    using "1.IH"(2) by (subst count_pages.simps) (force simp: Let_def)
qed

text \<open>A page is given to processes only if it is inside a RAM row and the user's address range.\<close>

lemma page_perm_2:
  assumes "rows_ok s" and "page_perm s i = 2"
  shows "VM_USERLO_PI \<le> i \<and> i < VM_USERHI_PI \<and>
    (\<exists>e \<in> set (pmmap_list s). pm_type e = MEM_RAM \<and> pm_start e \<le> i * PAGESIZE \<and> (i + 1) * PAGESIZE \<le> pm_end e)"
proof -
  from assms(2) obtain j where j: "List.find (row_has_page s i) (pages 0 (get_size s)) = Some j"
    and u: "is_usable s j = 1" and r: "VM_USERLO_PI \<le> i" "i < VM_USERHI_PI"
    by (auto simp: page_perm_def split: if_splits option.splits)
  from j have "row_has_page s i j" and jlt: "j < get_size s"
    by (auto simp: find_Some_iff set_pages dest: nth_mem)
  with u assms(1) have "pm_type (pmmap_list s ! unat j) = MEM_RAM \<and> pm_start (pmmap_list s ! unat j) \<le> i * PAGESIZE
      \<and> (i + 1) * PAGESIZE \<le> pm_end (pmmap_list s ! unat j)"
    by (simp add: row_has_page_def row_lookup split: if_splits)
  moreover have "pmmap_list s ! unat j \<in> set (pmmap_list s)"
    using jlt assms(1) by (simp add: unat_get_size [symmetric] word_less_nat_alt)
  ultimately show ?thesis using r by blast
qed

lemma norm_page_perm:
  assumes "norm_page s i" and "i < NUM_PAGES s \<Longrightarrow> AT s i = \<lparr>perm = page_perm s i, allocated = 0\<rparr>"
  shows "page_perm s i = 2"
proof -
  have "page_perm s i \<in> {0, 1, 2}" by (auto simp: page_perm_def split: option.split)
  with assms show ?thesis by (auto simp: norm_page_def)
qed

text \<open>Every address of a page between a row's ends belongs to the row.\<close>

lemma page_addresses:
  assumes "start \<le> i * PAGESIZE" and "(i + 1) * PAGESIZE \<le> finish" and "i < VM_USERHI_PI"
    and "a div PAGESIZE = i"
  shows "start \<le> a \<and> a < finish"
proof -
  have i: "unat i < 0xF0000" using assms(3) by (simp add: word_less_nat_alt)
  have d: "unat a div 4096 = unat i" using assms(4) by (simp flip: assms(4) add: unat_div)
  moreover have "unat (i * PAGESIZE) = unat i * 4096" "unat ((i + 1) * PAGESIZE) = (unat i + 1) * 4096"
    using i by (simp_all add: unat_word_ariths)
  moreover have "unat i * 4096 \<le> unat a" "unat a < (unat i + 1) * 4096"
    using d by auto
  ultimately show ?thesis using assms(1,2) by (auto simp: word_le_nat_alt word_less_nat_alt)
qed

text \<open>What \<open>pmem_init\<close> does once the memory map is built.\<close>

definition init_table :: "'z mat_scheme \<Rightarrow> 'z mat_scheme" where
  "init_table s = (let nps = count_pages s (get_size s) 0 0 in
     s\<lparr>NUM_PAGES := nps,
       AT := (\<lambda>i. if i < nps then \<lparr>perm = page_perm s i, allocated = 0\<rparr> else AT s i)\<rparr>)"

lemma rows_NUM_PAGES [simp]:
  "get_size (s\<lparr>NUM_PAGES := a\<rparr>) = get_size s" "get_mms (s\<lparr>NUM_PAGES := a\<rparr>) = get_mms s"
  "get_mml (s\<lparr>NUM_PAGES := a\<rparr>) = get_mml s" "is_usable (s\<lparr>NUM_PAGES := a\<rparr>) = is_usable s"
  by (simp_all add: get_size_def get_mms_def get_mml_def is_usable_def fun_eq_iff
      split: option.splits)

lemma page_perm_NUM_PAGES: "page_perm (s\<lparr>NUM_PAGES := a\<rparr>) i = page_perm s i"
  by (simp add: page_perm_def row_has_page_def [abs_def] split: option.split)

lemma pmem_init_table:
  assumes "pmmap_init es s = Inr ((), t)"
  shows "pmem_init es s = Inr ((), init_table (t\<lparr>mem_lk := lock_init_val\<rparr>))"
proof -
  define u where "u = t\<lparr>mem_lk := lock_init_val\<rparr>"
  define nps where "nps = count_pages u (get_size u) 0 0"
  have "nps \<le> AT_SIZE" unfolding nps_def by (rule count_pages_bounds) simp
  from init_pages_exec [OF this, of "u\<lparr>NUM_PAGES := nps\<rparr>"]
  have "for_loop 0 nps (init_page (get_size u)) (u\<lparr>NUM_PAGES := nps\<rparr>) = Inr ((), init_table u)"
    by (simp add: init_table_def page_perm_NUM_PAGES Let_def nps_def [symmetric] cong: if_cong)
  then show ?thesis
    by (simp add: pmem_init_def exec assms u_def [symmetric] nps_def [symmetric] set_nps_def)
qed

lemma init_table_facts:
  "NUM_PAGES (init_table s) \<le> AT_SIZE"
  "pmmap_list (init_table s) = pmmap_list s" "pmmap_nentries (init_table s) = pmmap_nentries s"
  "mem_lk (init_table s) = mem_lk s" "last_palloc_index (init_table s) = last_palloc_index s"
  "kstack_cpu_idx (init_table s) = kstack_cpu_idx s" "kstack_magic (init_table s) = kstack_magic s"
  "i < NUM_PAGES (init_table s) \<Longrightarrow> AT (init_table s) i = \<lparr>perm = page_perm s i, allocated = 0\<rparr>"
  by (simp_all add: init_table_def Let_def count_pages_bounds)

lemma page_perm_init_table: "page_perm (init_table s) i = page_perm s i"
  by (simp add: init_table_def Let_def page_perm_AT page_perm_NUM_PAGES)

lemma count_pages_pos:
  assumes "0 < nrows"
  shows "0 < count_pages s nrows 0 0"
proof -
  let ?m = "(get_mms s 0 + get_mml s 0) div PAGESIZE"
  have "unat ?m < 2 ^ 20"
    using unsigned_less [of "get_mms s 0 + get_mml s 0", where ?'a = nat]
    by (simp add: unat_div less_mult_imp_div_less)
  then have pos: "0 < ?m + 1" by (simp add: word_less_nat_alt unat_word_ariths)
  have "?m + 1 \<le> count_pages s nrows 1 (?m + 1)" by (rule count_pages_mono)
  with pos assms show ?thesis
    by (subst count_pages.simps) (simp add: Let_def)
qed

text \<open>Everything \<open>pmem_init\<close> changes, and what it leaves there.\<close>

lemma pmem_init_exec:
  assumes "unat (pmmap_slots_next_free s) + length (low_entries es) \<le> 128"
    and "\<forall>p \<in> set (low_entries es). mm_type p \<in> {MEM_RAM, MEM_RESERVED, MEM_ACPI, MEM_NVS}"
    and "pmmap_nentries s = 0"
  obtains n l sub m k np at s' where
    "s' = s\<lparr>pmmap_slots_next_free := n, pmmap_list := l, pmmap_sublist := sub, max_usable_memory := m,
       mem_npages := k, pmmap_nentries := of_nat (length l), mem_lk := lock_init_val, NUM_PAGES := np, AT := at\<rparr>"
    "pmem_init es s = Inr ((), s')" "rows_ok s'" "np \<le> AT_SIZE" "l \<noteq> [] \<Longrightarrow> 0 < np"
    "\<And>type a. covered l type a \<longleftrightarrow> bios_covered es type a"
    "\<And>i. i < np \<Longrightarrow> at i = \<lparr>perm = page_perm s' i, allocated = 0\<rparr>"
proof -
  obtain n l sub m k where l: "pmmap_init es s =
      Inr ((), s\<lparr>pmmap_slots_next_free := n, pmmap_list := l, pmmap_sublist := sub,
        max_usable_memory := m, mem_npages := k, pmmap_nentries := of_nat (length l)\<rparr>)" (is "_ = Inr ((), ?t)")
    "length l \<le> 128" "\<And>type a. covered l type a \<longleftrightarrow> bios_covered es type a"
    using pmmap_init_exec [OF assms] by blast
  define u where "u = ?t\<lparr>mem_lk := lock_init_val\<rparr>"
  define s' where "s' = init_table u"
  have rows: "rows_ok u" "rows_ok s'"
    using l(2) by (simp_all add: rows_ok_def s'_def init_table_facts) (simp_all add: u_def)
  show thesis
  proof (rule that [where s' = s' and n = n and l = l and sub = sub and m = m and k = k
        and np = "NUM_PAGES s'" and at = "AT s'"])
    show "s' = s\<lparr>pmmap_slots_next_free := n, pmmap_list := l, pmmap_sublist := sub, max_usable_memory := m,
       mem_npages := k, pmmap_nentries := of_nat (length l), mem_lk := lock_init_val, NUM_PAGES := NUM_PAGES s', AT := AT s'\<rparr>"
      by (simp add: s'_def init_table_def Let_def) (simp add: u_def)
    show "pmem_init es s = Inr ((), s')"
      unfolding s'_def u_def by (rule pmem_init_table [OF l(1)])
    show "0 < NUM_PAGES s'" if "l \<noteq> []"
    proof -
      have "0 < get_size u"
        using that unat_get_size [OF rows(1)] by (simp add: word_less_nat_alt u_def)
      then show ?thesis by (simp add: s'_def init_table_def Let_def count_pages_pos)
    qed
    show "AT s' i = \<lparr>perm = page_perm s' i, allocated = 0\<rparr>" if "i < NUM_PAGES s'" for i
      using that by (simp add: s'_def init_table_facts page_perm_init_table)
  qed (use rows l(3) in \<open>simp_all add: s'_def init_table_facts\<close>)
qed

section \<open>Properties\<close>

definition boot_mat :: mat where
  "boot_mat = mem_map.extend boot_mem_map (mat.fields lock_init_val 0 (\<lambda>_. \<lparr>perm = 0, allocated = 0\<rparr>) 262144)"

lemmas boot_mat_defs = boot_mat_def mat.defs boot_mem_map_defs lock_init_val_def

text \<open>
  C1. After \<open>pmem_init\<close> the page table of the kernel is safe to allocate from: no page is
  marked allocated, the table has room for every page, the pages outside the range of user
  addresses belong to the kernel, and a page that may be handed out lies in the user range and
  consists of addresses that the boot loader reported as RAM, every one of them.
\<close>

theorem pmem_init_permissions:
  assumes "unat (pmmap_slots_next_free s) + length (low_entries es) \<le> 128"
    and "\<forall>p \<in> set (low_entries es). mm_type p \<in> {MEM_RAM, MEM_RESERVED, MEM_ACPI, MEM_NVS}"
    and "pmmap_nentries s = 0"
  shows "\<exists>s'. pmem_init es s = Inr ((), s') \<and> NUM_PAGES s' \<le> AT_SIZE \<and>
    (\<forall>i < NUM_PAGES s'. allocated (AT s' i) = 0) \<and>
    (\<forall>i < NUM_PAGES s'. i < VM_USERLO_PI \<or> VM_USERHI_PI \<le> i \<longrightarrow> perm (AT s' i) = 1) \<and>
    (\<forall>i. norm_page s' i \<longrightarrow> VM_USERLO_PI \<le> i \<and> i < VM_USERHI_PI \<and>
      (\<forall>a. a div PAGESIZE = i \<longrightarrow> bios_covered es MEM_RAM a))"
proof -
  obtain s' where s': "pmem_init es s = Inr ((), s')" "rows_ok s'" "NUM_PAGES s' \<le> AT_SIZE"
    "\<forall>type a. covered (pmmap_list s') type a \<longleftrightarrow> bios_covered es type a"
    "\<forall>i < NUM_PAGES s'. AT s' i = \<lparr>perm = page_perm s' i, allocated = 0\<rparr>"
    by (rule pmem_init_exec [OF assms]) simp
  have "VM_USERLO_PI \<le> i \<and> i < VM_USERHI_PI \<and> (\<forall>a. a div PAGESIZE = i \<longrightarrow> bios_covered es MEM_RAM a)"
    if "norm_page s' i" for i
  proof -
    have "page_perm s' i = 2" using that s'(5) by (intro norm_page_perm) auto
    from page_perm_2 [OF s'(2) this] obtain e where e: "VM_USERLO_PI \<le> i" "i < VM_USERHI_PI"
      "e \<in> set (pmmap_list s')" "pm_type e = MEM_RAM" "pm_start e \<le> i * PAGESIZE" "(i + 1) * PAGESIZE \<le> pm_end e"
      by blast
    with page_addresses [OF e(5,6,2)] have "covered (pmmap_list s') MEM_RAM a" if "a div PAGESIZE = i" for a
      using that by (auto simp: covered_def)
    with e s'(4) show ?thesis by blast
  qed
  moreover have "perm (AT s' i) = 1" if "i < NUM_PAGES s'" "i < VM_USERLO_PI \<or> VM_USERHI_PI \<le> i" for i
    using that s'(5) by (simp add: page_perm_def)
  ultimately show ?thesis using s' by (intro exI [of _ s']) auto
qed

theorem pmem_init_permissions_witness:
  "\<exists>s'. pmem_init sample_bios boot_mat = Inr ((), s') \<and> NUM_PAGES s' \<le> AT_SIZE \<and>
    (\<forall>i. norm_page s' i \<longrightarrow> (\<forall>a. a div PAGESIZE = i \<longrightarrow> bios_covered sample_bios MEM_RAM a))"
proof -
  have "unat (pmmap_slots_next_free boot_mat) + length (low_entries sample_bios) \<le> 128"
    "\<forall>p \<in> set (low_entries sample_bios). mm_type p \<in> {MEM_RAM, MEM_RESERVED, MEM_ACPI, MEM_NVS}"
    "pmmap_nentries boot_mat = 0"
    by (simp_all add: boot_mat_defs sample_bios_def)
  from pmem_init_permissions [OF this] show ?thesis by blast
qed

text \<open>
  C3. \<open>palloc\<close> always returns, with the lock free again. A page it hands out was free, is the
  first free one after the page handed out before, and is marked allocated without touching
  any other page; it answers 0 only when no page after the previous one is free.
\<close>

theorem palloc_correct:
  assumes "mat_ok s"
  shows "\<exists>p s'. palloc s = Inr (p, s') \<and> mat_ok s' \<and>
    (if p = 0 then AT s' = AT s \<and> last_palloc_index s' = 0 \<and> (\<forall>q. last_palloc_index s + 1 \<le> q \<longrightarrow> \<not> free_page s q)
     else free_page s p \<and> AT s' = (AT s)(p := (AT s p)\<lparr>allocated := 1\<rparr>) \<and> last_palloc_index s' = p \<and>
       (\<forall>q. last_palloc_index s + 1 \<le> q \<and> free_page s q \<longrightarrow> p \<le> q))"
proof (cases "next_free s")
  case None
  with assms have "palloc s = Inr (0, s\<lparr>last_palloc_index := 0\<rparr>)" by (simp add: palloc_exec)
  with mat_ok_palloc [OF assms this] None show ?thesis by (simp add: next_free_None)
next
  case (Some p)
  with assms have p: "palloc s =
      Inr (p, s\<lparr>AT := (AT s)(p := (AT s p)\<lparr>allocated := 1\<rparr>), last_palloc_index := p\<rparr>)"
    by (simp add: palloc_exec)
  have "1 \<le> p" using last_index_Suc [OF assms] next_free_Some(2) [OF Some] by (rule order.trans)
  then have "p \<noteq> 0" by auto
  with p mat_ok_palloc [OF assms p] next_free_Some [OF Some] show ?thesis by auto
qed

definition sample_mat :: mat where
  "sample_mat = boot_mat\<lparr>NUM_PAGES := 262148, last_palloc_index := 262146,
     AT := (\<lambda>i. \<lparr>perm = if i < 262144 then 1 else 2, allocated = if i = 262145 then 0 else 1\<rparr>)\<rparr>"

lemma sample_mat_ok: "mat_ok sample_mat"
  by (simp add: mat_ok_def cpu_ok_def sample_mat_def boot_mat_defs)

theorem palloc_correct_witness:
  "mat_ok sample_mat \<and> (\<exists>p s'. palloc sample_mat = Inr (p, s') \<and> mat_ok s')"
  using palloc_correct [OF sample_mat_ok] sample_mat_ok by blast

text \<open>
  C4. A free page is never lost: when \<open>palloc\<close> answers 0 although some page is free, the next
  call finds one.
\<close>

theorem palloc_retry_succeeds:
  assumes "mat_ok s" and "palloc s = Inr (0, s')" and "free_page s q" and "q \<noteq> 0"
  shows "\<exists>p s''. palloc s' = Inr (p, s'') \<and> p \<noteq> 0 \<and> free_page s p \<and> allocated (AT s'' p) = 1"
proof -
  have ok: "mat_ok s'" using mat_ok_palloc [OF assms(1,2)] .
  have "next_free s = None"
  proof (cases "next_free s")
    case (Some p)
    then have "p = 0" using assms(1,2) by (simp add: palloc_exec)
    with next_free_Some(2) [OF Some] last_index_Suc [OF assms(1)] show ?thesis by simp
  qed
  with assms(1,2) have s': "s' = s\<lparr>last_palloc_index := 0\<rparr>" by (simp add: palloc_exec)
  moreover have "1 \<le> q" using assms(4) by (simp add: word_le_nat_alt unat_gt_0 Suc_le_eq)
  ultimately have "\<not> (\<forall>p. last_palloc_index s' + 1 \<le> p \<longrightarrow> \<not> free_page s' p)"
    using assms(3) by (auto simp: free_page_def norm_page_def intro!: exI [of _ q])
  then obtain p where p: "next_free s' = Some p" using next_free_None by fastforce
  moreover have "free_page s p" using next_free_Some(1) [OF p] by (simp add: s' free_page_def norm_page_def)
  moreover have "p \<noteq> 0" using next_free_Some(2) [OF p] by (auto simp: s')
  ultimately show ?thesis using ok by (simp add: palloc_exec)
qed

text \<open>Two states of the table in which the scan starts above the only free page.\<close>

lemma sample_mat_free: "free_page sample_mat q \<longleftrightarrow> q = 262145"
  by (auto simp: free_page_def norm_page_def sample_mat_def split: if_splits)

lemma sample_mat_palloc: "palloc sample_mat = Inr (0, sample_mat\<lparr>last_palloc_index := 0\<rparr>)"
proof -
  have "next_free sample_mat = None"
    by (auto simp: next_free_None sample_mat_free) (simp add: sample_mat_def)
  then show ?thesis by (simp add: palloc_exec sample_mat_ok)
qed

theorem palloc_retry_succeeds_witness:
  "palloc sample_mat = Inr (0, sample_mat\<lparr>last_palloc_index := 0\<rparr>) \<and>
   (\<exists>p s''. palloc (sample_mat\<lparr>last_palloc_index := 0\<rparr>) = Inr (p, s'') \<and> p \<noteq> 0)"
  using palloc_retry_succeeds [OF sample_mat_ok sample_mat_palloc, of 262145]
  by (auto simp: sample_mat_palloc sample_mat_free)

text \<open>
  C5. Freeing a page makes it allocatable again: after \<open>pfree\<close> of a page that \<open>palloc\<close> had handed
  out, the table is as before the allocation.
\<close>

theorem pfree_palloc:
  assumes "mat_ok s" and "palloc s = Inr (p, s')" and "p \<noteq> 0"
  shows "\<exists>s''. pfree p s' = Inr ((), s'') \<and> AT s'' = AT s \<and> free_page s'' p \<and> mat_ok s''"
proof -
  from assms obtain q where q: "next_free s = Some q" "q = p"
    by (cases "next_free s") (auto simp: palloc_exec)
  then have s': "s' = s\<lparr>AT := (AT s)(p := (AT s p)\<lparr>allocated := 1\<rparr>), last_palloc_index := p\<rparr>"
    using assms(1,2) by (simp add: palloc_exec)
  have fr: "free_page s p" using next_free_Some(1) [OF q(1)] q(2) by simp
  then have "p < AT_SIZE" using assms(1) by (auto simp: free_page_def norm_page_def mat_ok_def)
  moreover have "cpu_ok s'" "mem_lk s' = lock_init_val"
    using mat_ok_palloc [OF assms(1,2)] by (simp_all add: mat_ok_def)
  moreover have same: "(AT s p)\<lparr>allocated := 0\<rparr> = AT s p"
    using fr by (cases "AT s p") (simp add: free_page_def)
  ultimately have "pfree p s' = Inr ((), s\<lparr>last_palloc_index := p\<rparr>)"
    by (simp add: pfree_exec) (simp add: s')
  moreover have "mat_ok (s\<lparr>last_palloc_index := p\<rparr>)"
    using mat_ok_palloc [OF assms(1,2)] by (simp add: mat_ok_def s' cpu_ok_def)
  ultimately show ?thesis using fr by (simp add: free_page_def norm_page_def)
qed

lemma sample_mat_retry: "\<exists>s'. palloc (sample_mat\<lparr>last_palloc_index := 0\<rparr>) = Inr (262145, s')"
proof -
  let ?s = "sample_mat\<lparr>last_palloc_index := 0\<rparr>"
  have ok: "mat_ok ?s" using sample_mat_ok by (simp add: mat_ok_def cpu_ok_def)
  have fr: "free_page ?s q \<longleftrightarrow> q = 262145" for q
    using sample_mat_free [of q] by (simp add: free_page_def norm_page_def)
  then have "next_free ?s \<noteq> None" by (simp add: next_free_None)
  then obtain q where q: "next_free ?s = Some q" by blast
  with next_free_Some(1) [OF q] show ?thesis by (simp add: palloc_exec ok fr)
qed

theorem pfree_palloc_witness:
  "\<exists>s' s''. palloc (sample_mat\<lparr>last_palloc_index := 0\<rparr>) = Inr (262145, s') \<and>
    pfree 262145 s' = Inr ((), s'') \<and> AT s'' = AT sample_mat"
proof -
  obtain s' where s': "palloc (sample_mat\<lparr>last_palloc_index := 0\<rparr>) = Inr (262145, s')"
    using sample_mat_retry by blast
  have "mat_ok (sample_mat\<lparr>last_palloc_index := 0\<rparr>)"
    using sample_mat_ok by (simp add: mat_ok_def cpu_ok_def)
  from pfree_palloc [OF this s'] s' show ?thesis by auto
qed

end
