(* ===== verification/Container.thy ===== *)
theory Container
  imports Phys_Mem
begin

text \<open>
  Resource containers (\<open>kern/pmm/MContainer/MContainer.c\<close>): every process has a quota of pages
  and a count of the pages it uses, and a process that creates a child hands part of its quota
  to it. Container \<open>cid\<close> has its children at \<open>cid * MAX_CHILDREN + 1\<close> and the following indices.
\<close>

section \<open>State\<close>

abbreviation (input) MAX_CHILDREN :: u32 where "MAX_CHILDREN \<equiv> 255"

record SContainer =
  c_quota :: u32
  c_usage :: u32
  c_parent :: u32
  c_nchildren :: u32
  c_used :: u32

record container = mat +
  CONTAINER :: "u32 \<Rightarrow> SContainer"

definition set_container :: "u32 \<Rightarrow> (SContainer \<Rightarrow> SContainer) \<Rightarrow> ('z container_scheme, unit) kop" where
  "set_container cid f =
     seq (in_bounds (cid < NUM_IDS)) (modify (\<lambda>s. s\<lparr>CONTAINER := (CONTAINER s)(cid := f (CONTAINER s cid))\<rparr>))"

definition get_container :: "u32 \<Rightarrow> (SContainer \<Rightarrow> 'a) \<Rightarrow> ('z container_scheme, 'a) kop" where
  "get_container cid f = seq (in_bounds (cid < NUM_IDS)) (gets (\<lambda>s. f (CONTAINER s cid)))"

section \<open>Operations\<close>

text \<open>The loop of \<open>container_init\<close> that counts the pages the root process may use.\<close>

function count_quota :: "u32 \<Rightarrow> u32 \<Rightarrow> u32 \<Rightarrow> ('z mat_scheme, u32) kop" where
  "count_quota nps i real_quota =
     (if i < nps
      then bind (at_is_norm i) (\<lambda>norm.
           bind (at_is_allocated i) (\<lambda>used.
           count_quota nps (i + 1) (if norm = 1 \<and> used = 0 then real_quota + 1 else real_quota)))
      else ret real_quota)"
  by pat_completeness auto
termination
  by (relation "measure (\<lambda>(nps, i, q). unat nps - unat i)")
    (auto simp: unat_Suc_below word_less_nat_alt)

declare count_quota.simps [simp del]

definition container_init :: "mboot_mmap list \<Rightarrow> ('z container_scheme, unit) kop" where
  "container_init mbi =
     seq (pmem_init mbi)
     (bind get_nps (\<lambda>nps.
      bind (count_quota nps 1 0) (\<lambda>real_quota.
      set_container 0 (\<lambda>c. \<lparr>c_quota = real_quota, c_usage = 0, c_parent = 0, c_nchildren = 0, c_used = 1\<rparr>))))"

definition container_get_parent :: "u32 \<Rightarrow> ('z container_scheme, u32) kop" where
  "container_get_parent cid = get_container cid c_parent"

definition container_get_nchildren :: "u32 \<Rightarrow> ('z container_scheme, u32) kop" where
  "container_get_nchildren cid = get_container cid c_nchildren"

definition container_get_quota :: "u32 \<Rightarrow> ('z container_scheme, u32) kop" where
  "container_get_quota cid = get_container cid c_quota"

definition container_get_usage :: "u32 \<Rightarrow> ('z container_scheme, u32) kop" where
  "container_get_usage cid = get_container cid c_usage"

text \<open>The sum is taken at 32 bits, as in the C expression.\<close>

definition container_can_consume :: "u32 \<Rightarrow> u32 \<Rightarrow> ('z container_scheme, u32) kop" where
  "container_can_consume cid n = get_container cid (\<lambda>c. if c_usage c + n > c_quota c then 0 else 1)"

definition container_split :: "u32 \<Rightarrow> u32 \<Rightarrow> ('z container_scheme, u32) kop" where
  "container_split cid quota =
     bind (get_container cid c_nchildren) (\<lambda>nc.
     let child = cid * MAX_CHILDREN + 1 + nc in
     seq (set_container child (\<lambda>c. \<lparr>c_quota = quota, c_usage = 0, c_parent = cid, c_nchildren = 0, c_used = 1\<rparr>))
     (seq (set_container cid (\<lambda>c. c\<lparr>c_usage := c_usage c + quota\<rparr>))
     (seq (set_container cid (\<lambda>c. c\<lparr>c_nchildren := nc + 1\<rparr>))
     (ret child))))"

definition container_alloc :: "u32 \<Rightarrow> ('z container_scheme, u32) kop" where
  "container_alloc cid =
     bind (get_container cid c_usage) (\<lambda>u.
     bind (get_container cid c_quota) (\<lambda>q.
     if u = q then ret 0
     else seq (set_container cid (\<lambda>c. c\<lparr>c_usage := u + 1\<rparr>)) palloc))"

text \<open>\<open>usage\<close> is a signed \<open>int\<close>, so the test against 0 is a signed one.\<close>

definition container_free :: "u32 \<Rightarrow> u32 \<Rightarrow> ('z container_scheme, unit) kop" where
  "container_free cid page_index =
     bind (at_is_allocated page_index) (\<lambda>a.
     when_true (a \<noteq> 0)
       (seq (pfree page_index)
       (bind (get_container cid c_usage) (\<lambda>u.
        when_true (0 <s u) (set_container cid (\<lambda>c. c\<lparr>c_usage := c_usage c - 1\<rparr>))))))"

definition container_refund_usage :: "u32 \<Rightarrow> u32 \<Rightarrow> ('z container_scheme, unit) kop" where
  "container_refund_usage cid quota =
     bind (get_container cid c_usage) (\<lambda>u.
     if u \<ge> quota then set_container cid (\<lambda>c. c\<lparr>c_usage := c_usage c - quota\<rparr>)
     else set_container cid (\<lambda>c. c\<lparr>c_usage := 0\<rparr>))"

lemma get_container_exec [exec]:
  "cid < NUM_IDS \<Longrightarrow> get_container cid f s = Inr (f (CONTAINER s cid), s)"
  by (simp add: get_container_def exec)

lemma set_container_exec [exec]:
  "cid < NUM_IDS \<Longrightarrow> set_container cid f s = Inr ((), s\<lparr>CONTAINER := (CONTAINER s)(cid := f (CONTAINER s cid))\<rparr>)"
  by (simp add: set_container_def exec)

section \<open>The root quota\<close>

lemma count_quota_exec:
  assumes "nps \<le> AT_SIZE" and "nps = NUM_PAGES s"
  shows "count_quota nps i q s = Inr (q + of_nat (length (filter (free_page s) (pages i nps))), s)"
  using assms
proof (induction "unat nps - unat i" arbitrary: i q rule: less_induct)
  case less
  show ?case
  proof (cases "i < nps")
    case False
    then show ?thesis by (subst count_quota.simps) (simp add: exec pages_empty)
  next
    case True
    with less.prems have lt: "i < AT_SIZE" by simp
    have "unat nps - unat (i + 1) < unat nps - unat i"
      using True by (simp add: unat_Suc_below word_less_nat_alt)
    then have "count_quota nps (i + 1) q' s =
        Inr (q' + of_nat (length (filter (free_page s) (pages (i + 1) nps))), s)" for q'
      using less by blast
    with True lt less.prems show ?thesis
      by (subst count_quota.simps) (auto simp: exec pages_Cons free_page_def norm_page_def)
  qed
qed

lemma distinct_pages: "distinct (pages lo hi)"
  by (auto simp: distinct_conv_nth word_unat_eq_iff unat_pages_nth)

lemma length_filter_pages: "length (filter P (pages lo hi)) = card {p. lo \<le> p \<and> p < hi \<and> P p}"
proof -
  have "length (filter P (pages lo hi)) = card (set (filter P (pages lo hi)))"
    by (intro distinct_card [symmetric] distinct_filter distinct_pages)
  also have "set (filter P (pages lo hi)) = {p. lo \<le> p \<and> p < hi \<and> P p}"
    by (auto simp: set_pages)
  finally show ?thesis .
qed

text \<open>What \<open>container_init\<close> leaves behind, for the layers above.\<close>

definition root_container :: "u32 \<Rightarrow> SContainer" where
  "root_container q = \<lparr>c_quota = q, c_usage = 0, c_parent = 0, c_nchildren = 0, c_used = 1\<rparr>"

lemma container_init_exec:
  assumes "unat (pmmap_slots_next_free s) + length (low_entries es) \<le> 128"
    and "\<forall>p \<in> set (low_entries es). mm_type p \<in> {MEM_RAM, MEM_RESERVED, MEM_ACPI, MEM_NVS}"
    and "pmmap_nentries s = 0"
  obtains n l sub m k np at q s' where
    "s' = s\<lparr>pmmap_slots_next_free := n, pmmap_list := l, pmmap_sublist := sub, max_usable_memory := m,
       mem_npages := k, pmmap_nentries := of_nat (length l), mem_lk := lock_init_val, NUM_PAGES := np, AT := at,
       CONTAINER := (CONTAINER s)(0 := root_container q)\<rparr>"
    "container_init es s = Inr ((), s')" "np \<le> AT_SIZE" "(\<exists>type a. bios_covered es type a) \<Longrightarrow> 0 < np"
    "q = of_nat (card {p. 1 \<le> p \<and> free_page s' p})" "CONTAINER s' 0 = root_container q"
    "\<And>p. norm_page s' p \<Longrightarrow> VM_USERLO_PI \<le> p \<and> p < VM_USERHI_PI"
proof (rule pmem_init_exec [OF assms])
  fix n l sub m k np at t
  assume t: "t = s\<lparr>pmmap_slots_next_free := n, pmmap_list := l, pmmap_sublist := sub, max_usable_memory := m,
       mem_npages := k, pmmap_nentries := of_nat (length l), mem_lk := lock_init_val, NUM_PAGES := np, AT := at\<rparr>"
    and init: "pmem_init es s = Inr ((), t)" and rows: "rows_ok t" and np: "np \<le> AT_SIZE" "l \<noteq> [] \<Longrightarrow> 0 < np"
    and cov: "\<And>type a. covered l type a \<longleftrightarrow> bios_covered es type a"
    and at: "\<And>i. i < np \<Longrightarrow> at i = \<lparr>perm = page_perm t i, allocated = 0\<rparr>"
  let ?q = "of_nat (card {p. 1 \<le> p \<and> free_page t p})"
  define s' where "s' = t\<lparr>CONTAINER := (CONTAINER t)(0 := root_container ?q)\<rparr>"
  have fp: "free_page s' p = free_page t p" "norm_page s' p = norm_page t p" for p
    by (simp_all add: s'_def norm_page_def free_page_def)
  have np_t: "np = NUM_PAGES t" by (simp add: t)
  have set_eq: "{p. 1 \<le> p \<and> p < np \<and> free_page t p} = {p. 1 \<le> p \<and> free_page t p}"
    by (auto simp: free_page_def norm_page_def t)
  have cq: "count_quota np 1 0 t = Inr (?q, t)"
    using count_quota_exec [OF np(1) np_t, of 1 0] by (simp add: length_filter_pages set_eq)
  show thesis
  proof (rule that [where s' = s' and n = n and l = l and sub = sub and m = m and k = k
        and np = np and at = at and q = ?q])
    show "s' = s\<lparr>pmmap_slots_next_free := n, pmmap_list := l, pmmap_sublist := sub, max_usable_memory := m,
       mem_npages := k, pmmap_nentries := of_nat (length l), mem_lk := lock_init_val, NUM_PAGES := np, AT := at,
       CONTAINER := (CONTAINER s)(0 := root_container ?q)\<rparr>"
      by (simp add: s'_def) (simp add: t)
    show "container_init es s = Inr ((), s')"
      using init cq by (simp add: container_init_def exec get_nps_def np_t [symmetric] s'_def root_container_def)
    show "0 < np" if "\<exists>type a. bios_covered es type a"
    proof -
      from that obtain type a where "covered l type a" using cov by blast
      then show ?thesis by (intro np(2)) (auto simp: covered_def)
    qed
    show "VM_USERLO_PI \<le> p \<and> p < VM_USERHI_PI" if "norm_page s' p" for p
    proof -
      have "norm_page t p" using that fp by simp
      moreover have "p < NUM_PAGES t \<Longrightarrow> AT t p = \<lparr>perm = page_perm t p, allocated = 0\<rparr>"
        using at [of p] by (simp add: np_t [symmetric]) (simp add: t)
      ultimately have "page_perm t p = 2" by (rule norm_page_perm)
      from page_perm_2 [OF rows this] show ?thesis by blast
    qed
  qed (use np fp in \<open>simp_all add: s'_def\<close>)
qed

section \<open>Usage within quota\<close>

definition quota_ok :: "'z container_scheme \<Rightarrow> bool" where
  "quota_ok s \<longleftrightarrow> (\<forall>cid < NUM_IDS. c_usage (CONTAINER s cid) \<le> c_quota (CONTAINER s cid))"

lemma quota_ok_upd:
  "quota_ok s \<Longrightarrow> c_usage c \<le> c_quota c \<Longrightarrow> quota_ok (s\<lparr>CONTAINER := (CONTAINER s)(cid := c)\<rparr>)"
  by (simp add: quota_ok_def)

lemma quota_ok_cong: "CONTAINER s' = CONTAINER s \<Longrightarrow> quota_ok s' = quota_ok s"
  by (simp add: quota_ok_def)

lemma palloc_CONTAINER:
  assumes "mat_ok s" and "palloc s = Inr (p, s')"
  shows "CONTAINER s' = CONTAINER s"
  using assms by (auto simp: palloc_exec split: option.splits)

lemma inc_usage: "u \<le> q \<Longrightarrow> u \<noteq> q \<Longrightarrow> u + 1 \<le> (q :: u32)"
  using unat_Suc_below [of u q] by (simp add: word_le_nat_alt word_less_nat_alt word_unat_eq_iff)

text \<open>\<open>container_alloc\<close> as a function of the allocator's result.\<close>

lemma container_alloc_exec:
  assumes "cid < NUM_IDS"
  shows "container_alloc cid s =
    (if c_usage (CONTAINER s cid) = c_quota (CONTAINER s cid) then Inr (0, s)
     else palloc (s\<lparr>CONTAINER := (CONTAINER s)(cid := (CONTAINER s cid)
       \<lparr>c_usage := c_usage (CONTAINER s cid) + 1\<rparr>)\<rparr>))"
  using assms by (simp add: container_alloc_def exec)

lemma mat_ok_CONTAINER [simp]: "mat_ok (s\<lparr>CONTAINER := c\<rparr>) = mat_ok s"
  by (simp add: mat_ok_def cpu_ok_def)

lemma free_page_CONTAINER [simp]: "free_page (s\<lparr>CONTAINER := c\<rparr>) = free_page s"
  by (simp add: free_page_def norm_page_def fun_eq_iff)

text \<open>The two outcomes of \<open>container_alloc\<close>, with everything they change.\<close>

lemma container_alloc_cases:
  assumes "mat_ok s" and "quota_ok s" and "cid < NUM_IDS"
  obtains (full) "c_usage (CONTAINER s cid) = c_quota (CONTAINER s cid)" "container_alloc cid s = Inr (0, s)"
  | (none) t where "c_usage (CONTAINER s cid) \<noteq> c_quota (CONTAINER s cid)"
      "t = s\<lparr>CONTAINER := (CONTAINER s)(cid := (CONTAINER s cid)\<lparr>c_usage := c_usage (CONTAINER s cid) + 1\<rparr>),
        last_palloc_index := 0\<rparr>"
      "container_alloc cid s = Inr (0, t)" "mat_ok t" "quota_ok t"
  | (page) p t where "c_usage (CONTAINER s cid) \<noteq> c_quota (CONTAINER s cid)" "p \<noteq> 0" "free_page s p"
      "t = s\<lparr>CONTAINER := (CONTAINER s)(cid := (CONTAINER s cid)\<lparr>c_usage := c_usage (CONTAINER s cid) + 1\<rparr>),
        AT := (AT s)(p := (AT s p)\<lparr>allocated := 1\<rparr>), last_palloc_index := p\<rparr>"
      "container_alloc cid s = Inr (p, t)" "mat_ok t" "quota_ok t"
proof (cases "c_usage (CONTAINER s cid) = c_quota (CONTAINER s cid)")
  case True
  with assms full show thesis by (simp add: container_alloc_exec)
next
  case False
  define t where "t = s\<lparr>CONTAINER := (CONTAINER s)(cid := (CONTAINER s cid)
       \<lparr>c_usage := c_usage (CONTAINER s cid) + 1\<rparr>)\<rparr>"
  have t: "mat_ok t" "free_page t = free_page s" using assms(1) by (simp_all add: t_def)
  have "c_usage (CONTAINER s cid) + 1 \<le> c_quota (CONTAINER s cid)"
    using False assms(2,3) by (simp add: quota_ok_def inc_usage)
  then have q: "quota_ok t" using assms(2) by (simp add: t_def quota_ok_upd)
  have r: "container_alloc cid s = palloc t" using False assms(3) by (simp add: container_alloc_exec t_def)
  show thesis
  proof (cases "next_free t")
    case None
    then have p: "palloc t = Inr (0, t\<lparr>last_palloc_index := 0\<rparr>)" using t(1) by (simp add: palloc_exec)
    show thesis
      by (rule none [OF False _ _ mat_ok_palloc [OF t(1) p]])
        (use p r q in \<open>simp_all add: t_def quota_ok_def\<close>)
  next
    case (Some p)
    then have p: "palloc t = Inr (p, t\<lparr>AT := (AT t)(p := (AT t p)\<lparr>allocated := 1\<rparr>), last_palloc_index := p\<rparr>)"
      using t(1) by (simp add: palloc_exec)
    have "1 \<le> p" using last_index_Suc [OF t(1)] next_free_Some(2) [OF Some] by (rule order.trans)
    then have "p \<noteq> 0" by auto
    moreover have "free_page s p" using next_free_Some(1) [OF Some] t(2) by simp
    ultimately show thesis
      by (rule page [OF False _ _ _ _ mat_ok_palloc [OF t(1) p]])
        (use p r q in \<open>simp_all add: t_def quota_ok_def\<close>)
  qed
qed

lemma container_free_exec:
  assumes "cpu_ok s" "mem_lk s = lock_init_val" and "cid < NUM_IDS" and "p < AT_SIZE"
  shows "container_free cid p s =
    (if allocated (AT s p) = 0 then Inr ((), s)
     else let t = s\<lparr>AT := (AT s)(p := (AT s p)\<lparr>allocated := 0\<rparr>)\<rparr> in
       Inr ((), if 0 <s c_usage (CONTAINER s cid)
         then t\<lparr>CONTAINER := (CONTAINER s)(cid := (CONTAINER s cid)\<lparr>c_usage := c_usage (CONTAINER s cid) - 1\<rparr>)\<rparr>
         else t))"
  using assms by (simp add: container_free_def exec pfree_exec Let_def)

lemma dec_usage: "0 <s u \<Longrightarrow> u \<le> q \<Longrightarrow> u - 1 \<le> (q :: u32)"
proof -
  assume "0 <s u" "u \<le> q"
  then have "u \<noteq> 0" by auto
  then have "unat (u - 1) = unat u - 1" by (simp add: unat_minus_one)
  with \<open>u \<le> q\<close> show ?thesis by (simp add: word_le_nat_alt)
qed

lemma quota_ok_container_free:
  assumes "quota_ok s" "cpu_ok s" "mem_lk s = lock_init_val" "cid < NUM_IDS" "p < AT_SIZE"
    and "container_free cid p s = Inr ((), s')"
  shows "quota_ok s'"
proof -
  have le: "c_usage (CONTAINER s cid) \<le> c_quota (CONTAINER s cid)"
    using assms(1,4) by (simp add: quota_ok_def)
  have t: "quota_ok (s\<lparr>AT := a\<rparr>)" for a using assms(1) by (simp add: quota_ok_def)
  show ?thesis
    using assms(6) quota_ok_upd [OF t, of _ _ cid] le assms(1) t
    by (auto simp: container_free_exec assms(2-5) Let_def dec_usage split: if_splits)
qed

lemma quota_ok_refund:
  assumes "quota_ok s" "cid < NUM_IDS" "container_refund_usage cid q s = Inr ((), s')"
  shows "quota_ok s'"
proof -
  have le: "c_usage (CONTAINER s cid) \<le> c_quota (CONTAINER s cid)"
    using assms(1,2) by (simp add: quota_ok_def)
  have "q \<le> u \<Longrightarrow> u \<le> m \<Longrightarrow> u - q \<le> m" for u m :: u32
    by (simp add: word_le_nat_alt unat_sub)
  with le show ?thesis
    using assms by (auto simp: container_refund_usage_def exec intro!: quota_ok_upd split: if_splits)
qed

section \<open>The tree of containers\<close>

text \<open>
  Every used container but the root is one of the children its parent has counted, at the
  index the code computes for it, and the parent's children all have room before the next
  container's children begin.
\<close>

definition child_index :: "u32 \<Rightarrow> u32 \<Rightarrow> u32" where
  "child_index cid nc = cid * MAX_CHILDREN + 1 + nc"

definition tree_ok :: "'z container_scheme \<Rightarrow> bool" where
  "tree_ok s \<longleftrightarrow>
     (\<forall>c < NUM_IDS. c_nchildren (CONTAINER s c) \<le> MAX_CHILDREN) \<and>
     (\<forall>c < NUM_IDS. c_used (CONTAINER s c) \<noteq> 0 \<and> c \<noteq> 0 \<longrightarrow>
        c_parent (CONTAINER s c) < NUM_IDS \<and> c_used (CONTAINER s (c_parent (CONTAINER s c))) \<noteq> 0 \<and>
        (\<exists>k. k < c_nchildren (CONTAINER s (c_parent (CONTAINER s c))) \<and>
          c = child_index (c_parent (CONTAINER s c)) k))"

lemma unat_child_index:
  assumes "cid < NUM_IDS" and "k < MAX_CHILDREN"
  shows "unat (child_index cid k) = unat cid * 255 + 1 + unat k"
proof -
  have "unat cid < 8192" "unat k < 255" using assms by (simp_all add: word_less_nat_alt)
  then show ?thesis by (simp add: child_index_def unat_word_ariths)
qed

lemma child_index_inj:
  assumes "cid < NUM_IDS" "k < MAX_CHILDREN" "cid' < NUM_IDS" "k' < MAX_CHILDREN"
    and "child_index cid k = child_index cid' k'"
  shows "cid = cid' \<and> k = k'"
proof -
  have b: "unat k < 255" "unat k' < 255" using assms by (simp_all add: word_less_nat_alt)
  have eq: "unat cid * 255 + unat k = unat cid' * 255 + unat k'"
    using unat_child_index [OF assms(1,2)] unat_child_index [OF assms(3,4)] assms(5) by simp
  have "unat cid = (unat cid * 255 + unat k) div 255" "unat k = (unat cid * 255 + unat k) mod 255"
    "unat cid' = (unat cid' * 255 + unat k') div 255" "unat k' = (unat cid' * 255 + unat k') mod 255"
    using b by simp_all
  with eq have "unat cid = unat cid'" "unat k = unat k'" by metis+
  then show ?thesis by (simp add: word_unat_eq_iff)
qed

lemma container_split_exec:
  assumes "cid < NUM_IDS" and "child = child_index cid (c_nchildren (CONTAINER s cid))"
    and "child < NUM_IDS" and "child \<noteq> cid"
  shows "container_split cid quota s = Inr (child, s\<lparr>CONTAINER := (CONTAINER s)
    (child := \<lparr>c_quota = quota, c_usage = 0, c_parent = cid, c_nchildren = 0, c_used = 1\<rparr>,
     cid := (CONTAINER s cid)\<lparr>c_usage := c_usage (CONTAINER s cid) + quota,
       c_nchildren := c_nchildren (CONTAINER s cid) + 1\<rparr>)\<rparr>)"
proof -
  have "cid * MAX_CHILDREN + 1 + c_nchildren (CONTAINER s cid) = child"
    using assms(2) by (simp add: child_index_def)
  then show ?thesis
    using assms(1,3,4) by (simp add: container_split_def exec fun_upd_twist fun_upd_def [symmetric])
qed

text \<open>A child's index lies above its parent's, and under the guard of \<open>sys_spawn\<close> in the table.\<close>

lemma child_index_bounds:
  assumes "cid < NUM_IDS" and "nc < MAX_CHILDREN"
    and "\<not> NUM_IDS < cid * MAX_CHILDREN + 1 + MAX_CHILDREN"
  shows "child_index cid nc < NUM_IDS" and "cid < child_index cid nc"
proof -
  have c: "unat cid < 8192" "unat nc < 255" using assms by (simp_all add: word_less_nat_alt)
  then have "unat (cid * MAX_CHILDREN + 1 + MAX_CHILDREN) = unat cid * 255 + 256"
    by (simp add: unat_word_ariths)
  with assms(3) have "unat cid * 255 + 256 \<le> 8192" by (simp add: word_less_nat_alt)
  with c show "child_index cid nc < NUM_IDS" "cid < child_index cid nc"
    using unat_child_index [OF assms(1,2)] by (simp_all add: word_less_nat_alt)
qed

lemma tree_ok_fresh:
  assumes "tree_ok s" and "cid < NUM_IDS" and "c_nchildren (CONTAINER s cid) < MAX_CHILDREN"
    and "child = child_index cid (c_nchildren (CONTAINER s cid))" and "child < NUM_IDS" and "cid < child"
  shows "c_used (CONTAINER s child) = 0"
proof (rule ccontr)
  assume "c_used (CONTAINER s child) \<noteq> 0"
  moreover have "child \<noteq> 0" using assms(6) by auto
  ultimately obtain p k where p: "p < NUM_IDS" "k < c_nchildren (CONTAINER s p)" "child = child_index p k"
    using assms(1,5) unfolding tree_ok_def by blast
  moreover have "k < MAX_CHILDREN"
    using p(1,2) assms(1) unfolding tree_ok_def by (meson order.strict_trans2)
  ultimately have "p = cid \<and> k = c_nchildren (CONTAINER s cid)"
    using child_index_inj [OF assms(2,3), of p k] assms(4) by auto
  with p(2) show False by simp
qed

lemma tree_ok_split:
  assumes "tree_ok s" and "cid < NUM_IDS" and "c_used (CONTAINER s cid) \<noteq> 0"
    and nc: "c_nchildren (CONTAINER s cid) < MAX_CHILDREN"
    and child: "child = child_index cid (c_nchildren (CONTAINER s cid))" "child < NUM_IDS" "cid < child"
    and fresh: "c_used (CONTAINER s child) = 0"
    and s': "CONTAINER s' = (CONTAINER s)
    (child := \<lparr>c_quota = quota, c_usage = 0, c_parent = cid, c_nchildren = 0, c_used = 1\<rparr>,
     cid := (CONTAINER s cid)\<lparr>c_usage := u, c_nchildren := c_nchildren (CONTAINER s cid) + 1\<rparr>)"
  shows "tree_ok s'"
proof -
  let ?n = "c_nchildren (CONTAINER s cid)"
  have n1: "?n < ?n + 1" "?n + 1 \<le> MAX_CHILDREN"
    using unat_Suc_below [OF nc] nc by (simp_all add: word_less_nat_alt word_le_nat_alt)
  have par: "c_parent (CONTAINER s c) \<noteq> child" if "c < NUM_IDS" "c_used (CONTAINER s c) \<noteq> 0" "c \<noteq> 0" for c
    using that assms(1) fresh unfolding tree_ok_def by metis
  show ?thesis
    unfolding tree_ok_def
  proof (intro conjI allI impI; (elim conjE)?)
    fix c assume "c < NUM_IDS"
    then show "c_nchildren (CONTAINER s' c) \<le> MAX_CHILDREN"
      using assms(1) n1(2) by (simp add: s' tree_ok_def)
  next
    fix c assume c: "c < NUM_IDS" "c_used (CONTAINER s' c) \<noteq> 0" "c \<noteq> 0"
    show "c_parent (CONTAINER s' c) < NUM_IDS"
      using c assms(1,2) by (auto simp: s' tree_ok_def split: if_splits)
    show "c_used (CONTAINER s' (c_parent (CONTAINER s' c))) \<noteq> 0"
      using c assms(1,2,3) child(3) par by (auto simp: s' tree_ok_def split: if_splits)
    show "\<exists>k. k < c_nchildren (CONTAINER s' (c_parent (CONTAINER s' c))) \<and> c = child_index (c_parent (CONTAINER s' c)) k"
    proof (cases "c = child")
      case True
      with child n1 show ?thesis by (intro exI [of _ ?n]) (auto simp: s')
    next
      case False
      with c have u: "c_used (CONTAINER s c) \<noteq> 0" "c_parent (CONTAINER s' c) = c_parent (CONTAINER s c)"
        by (auto simp: s' split: if_splits)
      with c assms(1) obtain k where "k < c_nchildren (CONTAINER s (c_parent (CONTAINER s c)))"
        "c = child_index (c_parent (CONTAINER s c)) k" unfolding tree_ok_def by blast
      with u par [OF c(1) u(1) c(3)] n1(1) show ?thesis
        by (intro exI [of _ k]) (auto simp: s')
    qed
  qed
qed

section \<open>Properties\<close>

definition sample_container :: container where
  "sample_container = mat.extend sample_mat (container.fields (\<lambda>cid.
     if cid = 0 then \<lparr>c_quota = 100, c_usage = 10, c_parent = 0, c_nchildren = 1, c_used = 1\<rparr>
     else if cid = 1 then \<lparr>c_quota = 10, c_usage = 3, c_parent = 0, c_nchildren = 0, c_used = 1\<rparr>
     else \<lparr>c_quota = 0, c_usage = 0, c_parent = 0, c_nchildren = 0, c_used = 0\<rparr>))"

lemma sample_container_fields [simp]:
  "CONTAINER sample_container 0 = \<lparr>c_quota = 100, c_usage = 10, c_parent = 0, c_nchildren = 1, c_used = 1\<rparr>"
  "CONTAINER sample_container 1 = \<lparr>c_quota = 10, c_usage = 3, c_parent = 0, c_nchildren = 0, c_used = 1\<rparr>"
  "cid \<noteq> 0 \<Longrightarrow> cid \<noteq> 1 \<Longrightarrow> CONTAINER sample_container cid =
     \<lparr>c_quota = 0, c_usage = 0, c_parent = 0, c_nchildren = 0, c_used = 0\<rparr>"
  by (simp_all add: sample_container_def mat.defs container.defs)

lemma sample_container_ok: "mat_ok sample_container" "quota_ok sample_container" "tree_ok sample_container"
proof -
  show "mat_ok sample_container"
    by (simp add: mat_ok_def cpu_ok_def sample_container_def container.defs sample_mat_def boot_mat_defs)
  have "c_usage (CONTAINER sample_container cid) \<le> c_quota (CONTAINER sample_container cid)" for cid
    by (cases "cid = 0"; cases "cid = 1"; simp)
  then show "quota_ok sample_container" by (simp add: quota_ok_def)
  have nc: "c_nchildren (CONTAINER sample_container cid) \<le> MAX_CHILDREN" for cid
    by (cases "cid = 0"; cases "cid = 1"; simp)
  have "c = 1" if "c_used (CONTAINER sample_container c) \<noteq> 0" "c \<noteq> 0" for c
    using that by (cases "c = 1") simp_all
  moreover have "\<exists>k. k < c_nchildren (CONTAINER sample_container 0) \<and> 1 = child_index 0 k"
    by (intro exI [of _ 0]) (simp add: child_index_def)
  ultimately have "c_parent (CONTAINER sample_container c) < NUM_IDS \<and>
      c_used (CONTAINER sample_container (c_parent (CONTAINER sample_container c))) \<noteq> 0 \<and>
      (\<exists>k. k < c_nchildren (CONTAINER sample_container (c_parent (CONTAINER sample_container c))) \<and>
        c = child_index (c_parent (CONTAINER sample_container c)) k)"
    if "c_used (CONTAINER sample_container c) \<noteq> 0" "c \<noteq> 0" for c
    using that by (cases "c = 1") simp_all
  with nc show "tree_ok sample_container" unfolding tree_ok_def by blast
qed

text \<open>
  C10. The root container's quota is exactly the number of pages that can be allocated after
  boot: those that are usable and free, page 0 excluded.
\<close>

theorem container_init_quota:
  assumes "unat (pmmap_slots_next_free s) + length (low_entries es) \<le> 128"
    and "\<forall>p \<in> set (low_entries es). mm_type p \<in> {MEM_RAM, MEM_RESERVED, MEM_ACPI, MEM_NVS}"
    and "pmmap_nentries s = 0"
  shows "\<exists>s'. container_init es s = Inr ((), s') \<and>
    c_quota (CONTAINER s' 0) = of_nat (card {p. 1 \<le> p \<and> free_page s' p}) \<and>
    c_usage (CONTAINER s' 0) = 0 \<and> c_used (CONTAINER s' 0) = 1"
proof (rule container_init_exec [OF assms])
  fix s' q assume "container_init es s = Inr ((), s')" "CONTAINER s' 0 = root_container q"
    "q = of_nat (card {p. 1 \<le> p \<and> free_page s' p})"
  then show ?thesis by (simp add: root_container_def)
qed

theorem container_init_quota_witness:
  "\<exists>s'. container_init sample_bios sample_container = Inr ((), s') \<and>
    c_quota (CONTAINER s' 0) = of_nat (card {p. 1 \<le> p \<and> free_page s' p})"
proof -
  have "unat (pmmap_slots_next_free sample_container) + length (low_entries sample_bios) \<le> 128"
    "\<forall>p \<in> set (low_entries sample_bios). mm_type p \<in> {MEM_RAM, MEM_RESERVED, MEM_ACPI, MEM_NVS}"
    "pmmap_nentries sample_container = 0"
    by (simp_all add: sample_container_def container.defs sample_mat_def boot_mat_defs sample_bios_def)
  from container_init_quota [OF this] show ?thesis by blast
qed



text \<open>
  C12. Creating a child never takes over a container that is in use: under the checks that
  \<open>sys_spawn\<close> makes, \<open>container_split\<close> returns an unused index above the parent's, records the
  parent, and keeps the tree of containers well formed, so that every child's index belongs
  to one parent only.
\<close>

theorem container_split_fresh:
  assumes "tree_ok s" and "cid < NUM_IDS" and "c_used (CONTAINER s cid) \<noteq> 0"
    and "\<not> NUM_IDS < cid * MAX_CHILDREN + 1 + MAX_CHILDREN"
    and "c_nchildren (CONTAINER s cid) \<noteq> MAX_CHILDREN"
  shows "\<exists>child s'. container_split cid quota s = Inr (child, s') \<and> tree_ok s' \<and>
    cid < child \<and> child < NUM_IDS \<and> c_used (CONTAINER s child) = 0 \<and>
    CONTAINER s' child = \<lparr>c_quota = quota, c_usage = 0, c_parent = cid, c_nchildren = 0, c_used = 1\<rparr> \<and>
    (\<forall>c. c \<noteq> cid \<and> c \<noteq> child \<longrightarrow> CONTAINER s' c = CONTAINER s c)"
proof -
  define child where "child = child_index cid (c_nchildren (CONTAINER s cid))"
  have nc: "c_nchildren (CONTAINER s cid) < MAX_CHILDREN"
    using assms(1,2,5) by (simp add: tree_ok_def order.not_eq_order_implies_strict)
  note b = child_index_bounds [OF assms(2) nc assms(4), folded child_def]
  have fresh: "c_used (CONTAINER s child) = 0"
    using tree_ok_fresh [OF assms(1,2) nc child_def b] .
  define s' where "s' = s\<lparr>CONTAINER := (CONTAINER s)
    (child := \<lparr>c_quota = quota, c_usage = 0, c_parent = cid, c_nchildren = 0, c_used = 1\<rparr>,
     cid := (CONTAINER s cid)\<lparr>c_usage := c_usage (CONTAINER s cid) + quota,
       c_nchildren := c_nchildren (CONTAINER s cid) + 1\<rparr>)\<rparr>"
  have "container_split cid quota s = Inr (child, s')"
    unfolding s'_def using b by (intro container_split_exec [OF assms(2) child_def b(1)]) simp
  moreover have "tree_ok s'"
    by (rule tree_ok_split [OF assms(1-3) nc child_def b fresh]) (simp add: s'_def)
  ultimately show ?thesis
    using b fresh by (intro exI [of _ child] exI [of _ s']) (auto simp: s'_def)
qed

theorem container_split_fresh_witness:
  "\<exists>child s'. container_split 0 20 sample_container = Inr (child, s') \<and> tree_ok s' \<and>
    0 < child \<and> c_used (CONTAINER sample_container child) = 0"
  using container_split_fresh [OF sample_container_ok(3), of 0 20] by auto



end
