(* ===== verification/Bytes.thy ===== *)
theory Bytes
  imports Kernel_Prelude
begin

text \<open>
  Byte-addressed memory and the little-endian 32-bit accesses the kernel makes to page-table
  entries through pointers.
\<close>

unbundle bit_operations_syntax

type_synonym bytes = "u32 \<Rightarrow> u8"

definition load_word :: "bytes \<Rightarrow> u32 \<Rightarrow> u32" where
  "load_word m a =
     ucast (m a) OR push_bit 8 (ucast (m (a + 1))) OR
     push_bit 16 (ucast (m (a + 2))) OR push_bit 24 (ucast (m (a + 3)))"

definition store_word :: "bytes \<Rightarrow> u32 \<Rightarrow> u32 \<Rightarrow> bytes" where
  "store_word m a w =
     m(a := ucast w, a + 1 := ucast (drop_bit 8 w),
       a + 2 := ucast (drop_bit 16 w), a + 3 := ucast (drop_bit 24 w))"

lemma bytes_of_word:
  "ucast (ucast w :: u8) OR push_bit 8 (ucast (ucast (drop_bit 8 w) :: u8)) OR
   push_bit 16 (ucast (ucast (drop_bit 16 w) :: u8)) OR push_bit 24 (ucast (ucast (drop_bit 24 w) :: u8))
   = (w :: u32)" (is "?l = w")
proof (rule bit_word_eqI)
  fix n assume n: "n < LENGTH(32)"
  then consider "n < 8" | "8 \<le> n" "n < 16" | "16 \<le> n" "n < 24" | "24 \<le> n" "n < 32" by force
  then show "bit ?l n = bit w n"
    by cases (auto simp: bit_simps n)
qed

lemma load_store_same [simp]: "load_word (store_word m a w) a = w"
  by (simp add: load_word_def store_word_def bytes_of_word add_eq_0_iff)

definition aligned :: "u32 \<Rightarrow> bool" where
  "aligned a \<longleftrightarrow> unat a mod 4 = 0"

lemma unat_aligned:
  assumes "aligned a" and "k < 4"
  shows "unat (a + of_nat k) = unat a + k"
proof -
  have "unat a < 4294967296" using unsigned_less [of a, where ?'a = nat] by simp
  moreover obtain q where q: "unat a = 4 * q" using assms(1) by (auto simp: aligned_def)
  ultimately have "unat a + 4 \<le> 4294967296" by simp
  with assms(2) show ?thesis by (simp add: unat_word_ariths unat_of_nat)
qed

lemma aligned_bytes_distinct:
  assumes "aligned a" "aligned b" "a \<noteq> b" "j < 4" "k < 4"
  shows "a + of_nat j \<noteq> b + of_nat k"
proof
  assume "a + of_nat j = b + of_nat k"
  then have e: "unat a + j = unat b + k" using assms by (metis unat_aligned)
  with assms(1,2,4,5) have "j = k" unfolding aligned_def by presburger
  with e assms(3) show False by (simp add: word_unat_eq_iff)
qed

lemma load_store_other [simp]:
  assumes "aligned a" "aligned b" "a \<noteq> b"
  shows "load_word (store_word m a w) b = load_word m b"
proof -
  note d = aligned_bytes_distinct [OF assms]
  have "b \<noteq> a" "b \<noteq> a + 1" "b \<noteq> a + 2" "b \<noteq> a + 3" "b + 1 \<noteq> a" "b + 1 \<noteq> a + 1" "b + 1 \<noteq> a + 2" "b + 1 \<noteq> a + 3"
    "b + 2 \<noteq> a" "b + 2 \<noteq> a + 1" "b + 2 \<noteq> a + 2" "b + 2 \<noteq> a + 3" "b + 3 \<noteq> a" "b + 3 \<noteq> a + 1" "b + 3 \<noteq> a + 2" "b + 3 \<noteq> a + 3"
    using d [of 0 0] d [of 1 0] d [of 2 0] d [of 3 0] d [of 0 1] d [of 1 1] d [of 2 1] d [of 3 1]
      d [of 0 2] d [of 1 2] d [of 2 2] d [of 3 2] d [of 0 3] d [of 1 3] d [of 2 3] d [of 3 3]
    by auto
  then show ?thesis by (simp only: load_word_def store_word_def fun_upd_apply if_False)
qed

lemma load_word_cong:
  assumes "\<And>k. k < 4 \<Longrightarrow> m' (a + of_nat k) = m (a + of_nat k)"
  shows "load_word m' a = load_word m a"
  using assms [of 0] assms [of 1] assms [of 2] assms [of 3] by (simp add: load_word_def)

lemma store_word_other_byte:
  assumes "aligned a" and "\<And>k. k < 4 \<Longrightarrow> b \<noteq> a + of_nat k"
  shows "store_word m a w b = m b"
  using assms(2) [of 0] assms(2) [of 1] assms(2) [of 2] assms(2) [of 3] by (simp add: store_word_def)

section \<open>Pages\<close>

lemma and_page_mask: "x AND 0xfffff000 = push_bit 12 (drop_bit 12 (x :: u32))"
proof -
  have "(0xfffff000 :: u32) = NOT (mask 12)" by (simp add: mask_eq_exp_minus_1)
  then show ?thesis by (simp add: bit_eq_iff bit_simps) (auto simp: bit_simps)
qed

lemma unat_and_page_mask: "unat (x AND 0xfffff000 :: u32) = unat x div 4096 * 4096"
proof -
  have "unat x div 4096 * 4096 < 2 ^ 32"
    using unsigned_less [of x, where ?'a = nat] by (simp add: less_mult_imp_div_less)
  then show ?thesis
    by (simp add: and_page_mask push_bit_eq_mult drop_bit_eq_div unat_word_ariths unat_div)
qed

lemma and_mask_div: "x AND 0xfffff000 = x div 4096 * (4096 :: u32)"
proof -
  have "unat x div 4096 * 4096 < 2 ^ 32"
    using unsigned_less [of x, where ?'a = nat] by (simp add: less_mult_imp_div_less)
  then show ?thesis
    by (simp add: word_unat_eq_iff unat_and_page_mask unat_word_ariths unat_div)
qed

lemma page_of_entry:
  assumes "p < (0x100000 :: u32)" and "f < (4096 :: u32)"
  shows "(p * 4096 + f) div 4096 = p"
proof -
  have b: "unat p < 2 ^ 20" "unat f < 4096" using assms by (simp_all add: word_less_nat_alt)
  then have "unat (p * 4096 + f) = unat p * 4096 + unat f" by (simp add: unat_word_ariths)
  with b show ?thesis by (simp add: word_unat_eq_iff unat_div)
qed

lemma page_number_less: "(x :: u32) div 4096 < 0x100000"
  using unsigned_less [of x, where ?'a = nat]
  by (simp add: word_less_nat_alt unat_div less_mult_imp_div_less)

text \<open>An entry made of a page number and flag bits gives the page's address under the mask.\<close>

lemma entry_base:
  assumes "p < (0x100000 :: u32)" and "f < (4096 :: u32)"
  shows "(p * 4096 + f) AND 0xfffff000 = p * 4096"
proof -
  have b: "unat p < 2 ^ 20" "unat f < 4096" using assms by (simp_all add: word_less_nat_alt)
  then have "unat (p * 4096 + f) = unat p * 4096 + unat f" "unat (p * 4096) = unat p * 4096"
    by (simp_all add: unat_word_ariths)
  with b show ?thesis by (simp add: word_unat_eq_iff unat_and_page_mask)
qed

lemma unat_page_addr:
  assumes "p < (0x100000 :: u32)" and "k < (1024 :: u32)"
  shows "unat (p * 4096 + k * 4) = unat p * 4096 + unat k * 4"
proof -
  have "unat p < 2 ^ 20" "unat k < 1024" using assms by (simp_all add: word_less_nat_alt)
  then show ?thesis by (simp add: unat_word_ariths)
qed

lemma aligned_page_addr:
  "p < (0x100000 :: u32) \<Longrightarrow> k < (1024 :: u32) \<Longrightarrow> aligned (p * 4096 + k * 4)"
  by (simp add: aligned_def unat_page_addr mod_add_eq [symmetric] mod_mult_right_eq [symmetric])

lemma page_addr_inj:
  assumes "p < (0x100000 :: u32)" "k < (1024 :: u32)" "p' < 0x100000" "k' < 1024"
  shows "p * 4096 + k * 4 = p' * 4096 + k' * 4 \<longleftrightarrow> p = p' \<and> k = k'"
proof
  assume "p * 4096 + k * 4 = p' * 4096 + k' * 4"
  then have e: "unat p * 4096 + unat k * 4 = unat p' * 4096 + unat k' * 4"
    using unat_page_addr assms by metis
  have "unat k < 1024" "unat k' < 1024" using assms by (simp_all add: word_less_nat_alt)
  then have "unat p = (unat p * 4096 + unat k * 4) div 4096" "unat p' = (unat p' * 4096 + unat k' * 4) div 4096"
    by simp_all
  with e have "unat p = unat p'" by metis
  with e have "unat p = unat p'" "unat k = unat k'" by simp_all
  then show "p = p' \<and> k = k'" by (simp add: word_unat_eq_iff)
qed simp

end
