(* ===== verification/Paging.thy ===== *)
theory Paging
  imports Container Bytes
begin

text \<open>
  Virtual memory (\<open>kern/vmm\<close>): the page directories of all processes, the page tables, and the
  operations that map and unmap pages. Page directories are a static array; a page table is a
  page of physical memory that is read and written through pointers, so the model keeps
  physical memory as bytes. \<open>IDPTbl\<close> is the address the linker gives to the identity tables.
\<close>

section \<open>State\<close>

abbreviation (input) PTE_P :: u32 where "PTE_P \<equiv> 1"
abbreviation (input) PTE_W :: u32 where "PTE_W \<equiv> 2"
abbreviation (input) PTE_U :: u32 where "PTE_U \<equiv> 4"
abbreviation (input) PTE_G :: u32 where "PTE_G \<equiv> 0x100"
abbreviation (input) PT_PERM_UP :: u32 where "PT_PERM_UP \<equiv> 0"
abbreviation (input) PT_PERM_PTU :: u32 where "PT_PERM_PTU \<equiv> 7"
abbreviation (input) MagicNumber :: u32 where "MagicNumber \<equiv> 1048577"

record paging = container +
  pt_lk :: spinlock_t
  mem8 :: bytes
  IDPTbl :: u32
  PDirPool :: "u32 \<Rightarrow> u32 \<Rightarrow> u32"
  CR3 :: u32
  paging_on :: bool

section \<open>MPTIntro\<close>

definition pt_spinlock_init :: "('z paging_scheme, unit) kop" where
  "pt_spinlock_init = spinlock_init pt_lk_update"

definition pt_spinlock_acquire :: "('z paging_scheme, unit) kop" where
  "pt_spinlock_acquire = spinlock_acquire pt_lk pt_lk_update"

definition pt_spinlock_release :: "('z paging_scheme, unit) kop" where
  "pt_spinlock_release = spinlock_release pt_lk_update"

text \<open>\<open>CR3\<close> records whose page directory the processor uses.\<close>

definition set_pdir_base :: "u32 \<Rightarrow> ('z paging_scheme, unit) kop" where
  "set_pdir_base index = seq (in_bounds (index < NUM_IDS)) (modify (\<lambda>s. s\<lparr>CR3 := index\<rparr>))"

definition pdir_bounds :: "u32 \<Rightarrow> u32 \<Rightarrow> ('z paging_scheme, unit) kop" where
  "pdir_bounds proc_index pde_index = in_bounds (proc_index < NUM_IDS \<and> pde_index < 1024)"

definition get_pdir_entry :: "u32 \<Rightarrow> u32 \<Rightarrow> ('z paging_scheme, u32) kop" where
  "get_pdir_entry proc_index pde_index =
     seq (pdir_bounds proc_index pde_index) (gets (\<lambda>s. PDirPool s proc_index pde_index))"

definition write_pdir :: "u32 \<Rightarrow> u32 \<Rightarrow> ('z paging_scheme \<Rightarrow> u32) \<Rightarrow> ('z paging_scheme, unit) kop" where
  "write_pdir proc_index pde_index v =
     seq (pdir_bounds proc_index pde_index)
       (modify (\<lambda>s. s\<lparr>PDirPool := (PDirPool s)(proc_index := (PDirPool s proc_index)(pde_index := v s))\<rparr>))"

definition set_pdir_entry :: "u32 \<Rightarrow> u32 \<Rightarrow> u32 \<Rightarrow> ('z paging_scheme, unit) kop" where
  "set_pdir_entry proc_index pde_index page_index =
     write_pdir proc_index pde_index (\<lambda>s. page_index * PAGESIZE + PT_PERM_PTU)"

definition set_pdir_entry_identity :: "u32 \<Rightarrow> u32 \<Rightarrow> ('z paging_scheme, unit) kop" where
  "set_pdir_entry_identity proc_index pde_index =
     write_pdir proc_index pde_index (\<lambda>s. (IDPTbl s + pde_index * PAGESIZE) + PT_PERM_PTU)"

definition rmv_pdir_entry :: "u32 \<Rightarrow> u32 \<Rightarrow> ('z paging_scheme, unit) kop" where
  "rmv_pdir_entry proc_index pde_index = write_pdir proc_index pde_index (\<lambda>s. PT_PERM_UP)"

definition get_ptbl_entry :: "u32 \<Rightarrow> u32 \<Rightarrow> u32 \<Rightarrow> ('z paging_scheme, u32) kop" where
  "get_ptbl_entry proc_index pde_index pte_index =
     bind (get_pdir_entry proc_index pde_index) (\<lambda>pde.
     let addr = (pde AND 0xfffff000) + pte_index * 4 in gets (\<lambda>s. load_word (mem8 s) addr))"

definition set_ptbl_entry :: "u32 \<Rightarrow> u32 \<Rightarrow> u32 \<Rightarrow> u32 \<Rightarrow> u32 \<Rightarrow> ('z paging_scheme, unit) kop" where
  "set_ptbl_entry proc_index pde_index pte_index page_index prm =
     bind (get_pdir_entry proc_index pde_index) (\<lambda>pde.
     let addr = (pde AND 0xfffff000) + pte_index * 4 in
     modify (\<lambda>s. s\<lparr>mem8 := store_word (mem8 s) addr (page_index * PAGESIZE + prm)\<rparr>))"

definition set_ptbl_entry_identity :: "u32 \<Rightarrow> u32 \<Rightarrow> u32 \<Rightarrow> ('z paging_scheme, unit) kop" where
  "set_ptbl_entry_identity pde_index pte_index prm =
     seq (in_bounds (pde_index < 1024 \<and> pte_index < 1024))
       (modify (\<lambda>s. s\<lparr>mem8 := store_word (mem8 s) (IDPTbl s + (pde_index * 1024 + pte_index) * 4)
          ((pde_index * 1024 + pte_index) * PAGESIZE + prm)\<rparr>))"

definition rmv_ptbl_entry :: "u32 \<Rightarrow> u32 \<Rightarrow> u32 \<Rightarrow> ('z paging_scheme, unit) kop" where
  "rmv_ptbl_entry proc_index pde_index pte_index =
     bind (get_pdir_entry proc_index pde_index) (\<lambda>pde.
     let addr = (pde AND 0xfffff000) + pte_index * 4 in
     modify (\<lambda>s. s\<lparr>mem8 := store_word (mem8 s) addr 0\<rparr>))"

section \<open>MPTOp\<close>

definition get_ptbl_entry_by_va :: "u32 \<Rightarrow> u32 \<Rightarrow> ('z paging_scheme, u32) kop" where
  "get_ptbl_entry_by_va proc_index vaddr =
     (let pde_index = vaddr div (4096 * 1024) in
      bind (get_pdir_entry proc_index pde_index) (\<lambda>pde.
      if pde = 0 then ret 0
      else get_ptbl_entry proc_index pde_index ((vaddr div 4096) mod 1024)))"

definition get_pdir_entry_by_va :: "u32 \<Rightarrow> u32 \<Rightarrow> ('z paging_scheme, u32) kop" where
  "get_pdir_entry_by_va proc_index vaddr = get_pdir_entry proc_index (vaddr div (4096 * 1024))"

definition rmv_ptbl_entry_by_va :: "u32 \<Rightarrow> u32 \<Rightarrow> ('z paging_scheme, unit) kop" where
  "rmv_ptbl_entry_by_va proc_index vaddr =
     rmv_ptbl_entry proc_index (vaddr div (4096 * 1024)) ((vaddr div 4096) mod 1024)"

definition rmv_pdir_entry_by_va :: "u32 \<Rightarrow> u32 \<Rightarrow> ('z paging_scheme, unit) kop" where
  "rmv_pdir_entry_by_va proc_index vaddr = rmv_pdir_entry proc_index (vaddr div (4096 * 1024))"

definition set_ptbl_entry_by_va :: "u32 \<Rightarrow> u32 \<Rightarrow> u32 \<Rightarrow> u32 \<Rightarrow> ('z paging_scheme, unit) kop" where
  "set_ptbl_entry_by_va proc_index vaddr page_index prm =
     set_ptbl_entry proc_index (vaddr div (4096 * 1024)) ((vaddr div 4096) mod 1024) page_index prm"

definition set_pdir_entry_by_va :: "u32 \<Rightarrow> u32 \<Rightarrow> u32 \<Rightarrow> ('z paging_scheme, unit) kop" where
  "set_pdir_entry_by_va proc_index vaddr page_index =
     set_pdir_entry proc_index (vaddr div (4096 * 1024)) page_index"

definition idptbl_init :: "mboot_mmap list \<Rightarrow> ('z paging_scheme, unit) kop" where
  "idptbl_init mbi =
     seq (container_init mbi)
     (for_loop 0 1024 (\<lambda>i.
        let prm = (if i < 256 \<or> i \<ge> 960 then PTE_P OR PTE_W OR PTE_G else PTE_P OR PTE_W) in
        for_loop 0 1024 (\<lambda>j. set_ptbl_entry_identity i j prm)))"

section \<open>MPTComm\<close>

definition pdir_init :: "mboot_mmap list \<Rightarrow> ('z paging_scheme, unit) kop" where
  "pdir_init mbi =
     seq (idptbl_init mbi)
     (for_loop 0 NUM_IDS (\<lambda>i. for_loop 0 1024 (\<lambda>j.
        if j < 256 \<or> j \<ge> 960 then set_pdir_entry_identity i j else rmv_pdir_entry i j)))"

definition alloc_ptbl :: "u32 \<Rightarrow> u32 \<Rightarrow> ('z paging_scheme, u32) kop" where
  "alloc_ptbl proc_index vadr =
     bind (container_alloc proc_index) (\<lambda>pi.
     seq (when_true (pi \<noteq> 0)
       (seq (set_pdir_entry_by_va proc_index vadr pi)
       (let pde_index = vadr div (4096 * 1024) in
        for_loop 0 1024 (rmv_ptbl_entry proc_index pde_index))))
     (ret pi))"

definition free_ptbl :: "u32 \<Rightarrow> u32 \<Rightarrow> ('z paging_scheme, unit) kop" where
  "free_ptbl proc_index vadr =
     bind (get_pdir_entry_by_va proc_index vadr) (\<lambda>pde.
     seq (rmv_pdir_entry_by_va proc_index vadr)
     (container_free proc_index (pde div PAGESIZE)))"

section \<open>MPTKern\<close>

definition pdir_init_kern :: "mboot_mmap list \<Rightarrow> ('z paging_scheme, unit) kop" where
  "pdir_init_kern mbi =
     seq (pdir_init mbi) (for_loop 256 960 (set_pdir_entry_identity 0))"

definition map_page :: "u32 \<Rightarrow> u32 \<Rightarrow> u32 \<Rightarrow> u32 \<Rightarrow> ('z paging_scheme, u32) kop" where
  "map_page proc_index vadr page_index prm =
     bind (get_pdir_entry_by_va proc_index vadr) (\<lambda>pdir_entry.
     bind (if pdir_entry \<noteq> 0 then ret 0
           else bind (alloc_ptbl proc_index vadr) (\<lambda>r. ret (if r = 0 then MagicNumber else r))) (\<lambda>result.
     seq (when_true (result \<noteq> MagicNumber) (set_ptbl_entry_by_va proc_index vadr page_index prm))
     (ret result)))"

definition unmap_page :: "u32 \<Rightarrow> u32 \<Rightarrow> ('z paging_scheme, u32) kop" where
  "unmap_page proc_index vadr =
     bind (get_ptbl_entry_by_va proc_index vadr) (\<lambda>ptbl_entry.
     seq (when_true (ptbl_entry \<noteq> 0) (rmv_ptbl_entry_by_va proc_index vadr))
     (ret ptbl_entry))"

section \<open>MPTInit and MPTNew\<close>

definition enable_paging :: "('z paging_scheme, unit) kop" where
  "enable_paging = modify (\<lambda>s. s\<lparr>paging_on := True\<rparr>)"

definition paging_init :: "mboot_mmap list \<Rightarrow> ('z paging_scheme, unit) kop" where
  "paging_init mbi =
     block [pt_spinlock_init, pdir_init_kern mbi, pt_spinlock_acquire, set_pdir_base 0, enable_paging,
       pt_spinlock_release]"

definition alloc_page :: "u32 \<Rightarrow> u32 \<Rightarrow> u32 \<Rightarrow> ('z paging_scheme, u32) kop" where
  "alloc_page proc_index vaddr prm =
     seq pt_spinlock_acquire
     (bind (container_alloc proc_index) (\<lambda>pi.
      bind (if pi = 0 then ret MagicNumber else map_page proc_index vaddr pi prm) (\<lambda>result.
      seq pt_spinlock_release (ret result))))"

definition alloc_mem_quota :: "u32 \<Rightarrow> u32 \<Rightarrow> ('z paging_scheme, u32) kop" where
  "alloc_mem_quota cid quota = container_split cid quota"

section \<open>The lock of this layer\<close>

interpretation pt: lock_field pt_lk pt_lk_update
proof unfold_locales
  fix f g :: "spinlock_t \<Rightarrow> spinlock_t" and s :: "'z paging_scheme"
  show "f (pt_lk s) = g (pt_lk s) \<Longrightarrow> pt_lk_update f s = pt_lk_update g s"
    by (cases s) simp
qed simp_all

lemma pt_lock_exec [exec]:
  "cpu_ok s \<Longrightarrow> pt_lk s = lock_init_val \<Longrightarrow>
   pt_spinlock_acquire s = Inr ((), s\<lparr>pt_lk := lock_held_val (kstack_cpu_idx s)\<rparr>)"
  using pt.acquire_exec [of s] by (simp add: pt_spinlock_acquire_def pt.set_lock_def lock_init_val_def)

lemma pt_unlock_exec [exec]: "pt_spinlock_release s = Inr ((), s\<lparr>pt_lk := lock_init_val\<rparr>)"
  by (simp add: pt_spinlock_release_def pt.release_exec pt.set_lock_def)

lemma pt_init_exec [exec]: "pt_spinlock_init s = Inr ((), s\<lparr>pt_lk := lock_init_val\<rparr>)"
  by (simp add: pt_spinlock_init_def pt.init_exec pt.set_lock_def)

lemma pt_lk_same: "pt_lk s = v \<Longrightarrow> s\<lparr>pt_lk := v\<rparr> = s"
  using pt.set_lock_same [of s v] by (simp add: pt.set_lock_def)

section \<open>Page tables as functions\<close>

definition tbl :: "'z paging_scheme \<Rightarrow> u32 \<Rightarrow> u32 \<Rightarrow> u32" where
  "tbl s proc i = PDirPool s proc i div 4096"

definition pte :: "'z paging_scheme \<Rightarrow> u32 \<Rightarrow> u32 \<Rightarrow> u32 \<Rightarrow> u32" where
  "pte s proc i j = load_word (mem8 s) (tbl s proc i * 4096 + j * 4)"

definition lookup :: "'z paging_scheme \<Rightarrow> u32 \<Rightarrow> u32 \<Rightarrow> u32" where
  "lookup s proc va =
     (if PDirPool s proc (va div 4194304) = 0 then 0
      else pte s proc (va div 4194304) (va div 4096 mod 1024))"

lemma tbl_less [simp]: "tbl s proc i < 0x100000"
  by (simp add: tbl_def page_number_less)

lemma va_bounds [simp]:
  "(va :: u32) div 4194304 < 1024" "(va :: u32) div 4096 mod 1024 < 1024"
  using unsigned_less [of va, where ?'a = nat]
  by (simp_all add: word_less_nat_alt unat_div unat_mod less_mult_imp_div_less)

text \<open>The two indices of an address are the parts of its page number.\<close>

lemma dir_index: "(va :: u32) div 4194304 = va div 4096 div 1024"
  by (simp add: word_unat_eq_iff unat_div div_mult2_eq [symmetric])

lemma va_indices:
  "va' div 4194304 = va div 4194304 \<and> va' div 4096 mod 1024 = va div 4096 mod 1024
     \<longleftrightarrow> va' div 4096 = (va div 4096 :: u32)"
proof -
  have "x = y" if "x div 1024 = y div 1024" "x mod 1024 = y mod 1024" for x y :: u32
    using that div_mult_mod_eq by metis
  then show ?thesis unfolding dir_index by metis
qed

lemma lookup_same_page: "va' div 4096 = va div 4096 \<Longrightarrow> lookup s proc va' = lookup s proc va"
  using va_indices [of va' va] by (simp add: lookup_def)

lemma get_pdir_entry_exec [exec]:
  "proc < NUM_IDS \<Longrightarrow> i < 1024 \<Longrightarrow> get_pdir_entry proc i s = Inr (PDirPool s proc i, s)"
  by (simp add: get_pdir_entry_def pdir_bounds_def exec)

lemma write_pdir_exec [exec]:
  "proc < NUM_IDS \<Longrightarrow> i < 1024 \<Longrightarrow> write_pdir proc i v s =
     Inr ((), s\<lparr>PDirPool := (PDirPool s)(proc := (PDirPool s proc)(i := v s))\<rparr>)"
  by (simp add: write_pdir_def pdir_bounds_def exec)

lemma get_ptbl_entry_exec [exec]:
  "proc < NUM_IDS \<Longrightarrow> i < 1024 \<Longrightarrow> get_ptbl_entry proc i j s = Inr (pte s proc i j, s)"
  by (simp add: get_ptbl_entry_def exec Let_def pte_def tbl_def and_mask_div)

lemma set_ptbl_entry_exec [exec]:
  "proc < NUM_IDS \<Longrightarrow> i < 1024 \<Longrightarrow> set_ptbl_entry proc i j p f s =
     Inr ((), s\<lparr>mem8 := store_word (mem8 s) (tbl s proc i * 4096 + j * 4) (p * 4096 + f)\<rparr>)"
  by (simp add: set_ptbl_entry_def exec Let_def tbl_def and_mask_div)

lemma rmv_ptbl_entry_exec [exec]:
  "proc < NUM_IDS \<Longrightarrow> i < 1024 \<Longrightarrow> rmv_ptbl_entry proc i j s =
     Inr ((), s\<lparr>mem8 := store_word (mem8 s) (tbl s proc i * 4096 + j * 4) 0\<rparr>)"
  by (simp add: rmv_ptbl_entry_def exec Let_def tbl_def and_mask_div)

lemma get_ptbl_entry_by_va_exec [exec]:
  "proc < NUM_IDS \<Longrightarrow> get_ptbl_entry_by_va proc va s = Inr (lookup s proc va, s)"
  by (simp add: get_ptbl_entry_by_va_def lookup_def exec Let_def)

section \<open>The invariant\<close>

text \<open>
  A user slot is a place that holds a physical page: a page directory entry of the user range
  (its page table) or an entry of such a page table (a page of user memory).
\<close>

definition user_slot :: "u32 \<Rightarrow> u32 \<Rightarrow> bool" where
  "user_slot proc i \<longleftrightarrow> 0 < proc \<and> proc < NUM_IDS \<and> 256 \<le> i \<and> i < 960"

datatype slot = Tbl u32 u32 | Frm u32 u32 u32

fun slot_page :: "'z paging_scheme \<Rightarrow> slot \<Rightarrow> u32 option" where
  "slot_page s (Tbl proc i) =
     (if user_slot proc i \<and> PDirPool s proc i \<noteq> 0 then Some (tbl s proc i) else None)"
| "slot_page s (Frm proc i j) =
     (if user_slot proc i \<and> PDirPool s proc i \<noteq> 0 \<and> j < 1024 \<and> pte s proc i j \<noteq> 0
      then Some (pte s proc i j div 4096) else None)"

text \<open>
  The pages in use are allocated pages of user memory, and no page is used twice: no two
  processes share a page, and no page table is visible as user memory.
\<close>

definition slots_ok :: "'z paging_scheme \<Rightarrow> bool" where
  "slots_ok s \<longleftrightarrow>
     (\<forall>x p. slot_page s x = Some p \<longrightarrow> norm_page s p \<and> allocated (AT s p) \<noteq> 0) \<and>
     (\<forall>x y p. slot_page s x = Some p \<longrightarrow> slot_page s y = Some p \<longrightarrow> x = y)"

definition kern_ok :: "'z paging_scheme \<Rightarrow> bool" where
  "kern_ok s \<longleftrightarrow>
     (\<exists>b. IDPTbl s = b * 4096 \<and> b \<le> 0x3FC00) \<and>
     (\<forall>proc i. proc < NUM_IDS \<and> i < 1024 \<and> \<not> user_slot proc i \<longrightarrow>
        PDirPool s proc i = IDPTbl s + i * 4096 + 7)"

definition vm_ok :: "'z paging_scheme \<Rightarrow> bool" where
  "vm_ok s \<longleftrightarrow> mat_ok s \<and> quota_ok s \<and>
     (\<forall>p. norm_page s p \<longrightarrow> VM_USERLO_PI \<le> p \<and> p < VM_USERHI_PI) \<and> kern_ok s \<and> slots_ok s"

definition paging_ok :: "'z paging_scheme \<Rightarrow> bool" where
  "paging_ok s \<longleftrightarrow> vm_ok s \<and> pt_lk s = lock_init_val"

lemma user_slot_bounds: "user_slot proc i \<Longrightarrow> proc < NUM_IDS" "user_slot proc i \<Longrightarrow> i < 1024"
  by (auto simp: user_slot_def intro: order.strict_trans)

lemma user_tbl:
  assumes "vm_ok s" "user_slot proc i" "PDirPool s proc i \<noteq> 0"
  shows "VM_USERLO_PI \<le> tbl s proc i"
proof -
  have "slot_page s (Tbl proc i) = Some (tbl s proc i)" using assms by simp
  then have "norm_page s (tbl s proc i)" using assms(1) unfolding vm_ok_def slots_ok_def by blast
  then show ?thesis using assms(1) by (simp add: vm_ok_def)
qed

lemma kern_tbl:
  assumes "vm_ok s" "proc < NUM_IDS" "i < 1024" "\<not> user_slot proc i"
  shows "tbl s proc i < VM_USERLO_PI"
proof -
  from assms obtain b where b: "b \<le> 0x3FC00" and e: "PDirPool s proc i = b * 4096 + i * 4096 + 7"
    by (auto simp: vm_ok_def kern_ok_def)
  have n: "unat b \<le> 0x3FC00" "unat i < 1024"
    using b assms(3) by (simp_all add: word_le_nat_alt word_less_nat_alt)
  then have u: "unat (b + i) = unat b + unat i" by (simp add: unat_word_ariths)
  then have "b + i < 0x100000" "b + i < 0x40000" using n by (simp_all add: word_less_nat_alt)
  moreover have "PDirPool s proc i = (b + i) * 4096 + 7" by (simp add: e algebra_simps)
  ultimately show ?thesis unfolding tbl_def using page_of_entry [of "b + i" 7] by (simp only:) simp
qed

lemma tbl_distinct:
  assumes "vm_ok s" "user_slot proc i" "PDirPool s proc i \<noteq> 0"
    and "proc' < NUM_IDS" "i' < 1024" "PDirPool s proc' i' \<noteq> 0" "tbl s proc' i' = tbl s proc i"
  shows "proc' = proc \<and> i' = i"
proof (cases "user_slot proc' i'")
  case True
  then have "slot_page s (Tbl proc' i') = Some (tbl s proc i)" "slot_page s (Tbl proc i) = Some (tbl s proc i)"
    using assms by simp_all
  then have "Tbl proc' i' = Tbl proc i" using assms(1) unfolding vm_ok_def slots_ok_def by blast
  then show ?thesis by simp
next
  case False
  from kern_tbl [OF assms(1,4,5) False] user_tbl [OF assms(1-3)] assms(7) show ?thesis by simp
qed

text \<open>Writing one entry of a user page table changes that entry and no other.\<close>

abbreviation write_pte :: "'z paging_scheme \<Rightarrow> u32 \<Rightarrow> u32 \<Rightarrow> u32 \<Rightarrow> u32 \<Rightarrow> 'z paging_scheme" where
  "write_pte s proc i j v \<equiv> s\<lparr>mem8 := store_word (mem8 s) (tbl s proc i * 4096 + j * 4) v\<rparr>"

lemma pte_write:
  assumes "vm_ok s" "user_slot proc i" "PDirPool s proc i \<noteq> 0" "j < 1024"
    and "proc' < NUM_IDS" "i' < 1024" "j' < 1024" "PDirPool s proc' i' \<noteq> 0"
  shows "pte (write_pte s proc i j v) proc' i' j' =
    (if proc' = proc \<and> i' = i \<and> j' = j then v else pte s proc' i' j')"
proof (cases "tbl s proc' i' = tbl s proc i \<and> j' = j")
  case True
  with tbl_distinct [OF assms(1-3,5,6,8)] show ?thesis by (simp add: pte_def tbl_def)
next
  case False
  then have "tbl s proc i * 4096 + j * 4 \<noteq> tbl s proc' i' * 4096 + j' * 4"
    using page_addr_inj [OF tbl_less assms(4) tbl_less assms(7), of s proc i s proc' i'] by auto
  then have "load_word (store_word (mem8 s) (tbl s proc i * 4096 + j * 4) v) (tbl s proc' i' * 4096 + j' * 4)
      = load_word (mem8 s) (tbl s proc' i' * 4096 + j' * 4)"
    by (intro load_store_other aligned_page_addr tbl_less assms(4,7))
  with False show ?thesis by (auto simp: pte_def tbl_def)
qed

lemma lookup_write:
  assumes "vm_ok s" "user_slot proc (va div 4194304)" "PDirPool s proc (va div 4194304) \<noteq> 0" "proc' < NUM_IDS"
  shows "lookup (write_pte s proc (va div 4194304) (va div 4096 mod 1024) v) proc' va' =
    (if proc' = proc \<and> va' div 4096 = va div 4096 then v else lookup s proc' va')"
  using pte_write [OF assms(1-3) va_bounds(2) [of va] assms(4) va_bounds(1) [of va'] va_bounds(2) [of va']]
    assms(3) va_indices [of va' va]
  by (auto simp: lookup_def)

lemma slot_page_write:
  assumes "vm_ok s" "user_slot proc i" "PDirPool s proc i \<noteq> 0" "j < 1024"
  shows "slot_page (write_pte s proc i j v) x =
    (if x = Frm proc i j then if v = 0 then None else Some (v div 4096) else slot_page s x)"
proof (cases x)
  case (Tbl proc' i')
  then show ?thesis by (simp add: tbl_def)
next
  case (Frm proc' i' j')
  show ?thesis
  proof (cases "user_slot proc' i' \<and> PDirPool s proc' i' \<noteq> 0 \<and> j' < 1024")
    case True
    then have "pte (write_pte s proc i j v) proc' i' j' =
        (if proc' = proc \<and> i' = i \<and> j' = j then v else pte s proc' i' j')"
      by (intro pte_write [OF assms]) (auto intro: user_slot_bounds)
    with True Frm show ?thesis by (cases "x = Frm proc i j") auto
  next
    case False
    with Frm assms show ?thesis by auto
  qed
qed

lemma slots_ok_upd:
  assumes "slots_ok s" and "\<And>y. slot_page s' y = (if y = x then r else slot_page s y)"
    and "\<And>p. r = Some p \<Longrightarrow> norm_page s p \<and> allocated (AT s p) \<noteq> 0 \<and> (\<forall>y. y \<noteq> x \<longrightarrow> slot_page s y \<noteq> Some p)"
    and "NUM_PAGES s' = NUM_PAGES s" "AT s' = AT s"
  shows "slots_ok s'"
  using assms unfolding slots_ok_def norm_page_def by (auto split: if_splits)

lemma vm_ok_write:
  assumes "vm_ok s" "user_slot proc i" "PDirPool s proc i \<noteq> 0" "j < 1024"
    and "v \<noteq> 0 \<Longrightarrow> norm_page s (v div 4096) \<and> allocated (AT s (v div 4096)) \<noteq> 0 \<and> (\<forall>x. slot_page s x \<noteq> Some (v div 4096))"
  shows "vm_ok (write_pte s proc i j v)"
proof -
  have "slots_ok (write_pte s proc i j v)"
    by (rule slots_ok_upd [OF _ slot_page_write [OF assms(1-4)]])
      (use assms in \<open>auto simp: vm_ok_def split: if_splits\<close>)
  with assms(1) show ?thesis
    by (simp add: vm_ok_def mat_ok_def cpu_ok_def quota_ok_def norm_page_def kern_ok_def)
qed

text \<open>A free page is in no slot; handing one out keeps everything that is in use.\<close>

lemma free_not_used: "vm_ok s \<Longrightarrow> free_page s p \<Longrightarrow> slot_page s x \<noteq> Some p"
  by (auto simp: vm_ok_def slots_ok_def free_page_def)

lemma slot_page_cong:
  "PDirPool s' = PDirPool s \<Longrightarrow> mem8 s' = mem8 s \<Longrightarrow> slot_page s' x = slot_page s x"
  by (cases x) (simp_all add: tbl_def pte_def)

lemma vm_ok_alloc:
  assumes "vm_ok s" "mat_ok t" "quota_ok t" "PDirPool t = PDirPool s" "mem8 t = mem8 s" "IDPTbl t = IDPTbl s"
    and "NUM_PAGES t = NUM_PAGES s" "\<And>p. perm (AT t p) = perm (AT s p)"
    and "\<And>p. allocated (AT s p) \<noteq> 0 \<Longrightarrow> allocated (AT t p) \<noteq> 0"
  shows "vm_ok t"
proof -
  have "slot_page t x = slot_page s x" for x by (rule slot_page_cong [OF assms(4,5)])
  moreover have "norm_page t p = norm_page s p" for p using assms(7,8) by (simp add: norm_page_def)
  ultimately show ?thesis
    using assms by (simp add: vm_ok_def slots_ok_def kern_ok_def)
qed

text \<open>The outcomes of \<open>container_alloc\<close> in a state of this layer.\<close>

lemma vm_alloc_cases:
  assumes "vm_ok s" and "proc < NUM_IDS"
  obtains (none) t where "container_alloc proc s = Inr (0, t)" "vm_ok t"
      "PDirPool t = PDirPool s" "mem8 t = mem8 s" "pt_lk t = pt_lk s" "kstack_cpu_idx t = kstack_cpu_idx s"
      "NUM_PAGES t = NUM_PAGES s" "AT t = AT s"
  | (page) p t where "container_alloc proc s = Inr (p, t)" "vm_ok t" "p \<noteq> 0" "free_page s p"
      "PDirPool t = PDirPool s" "mem8 t = mem8 s" "pt_lk t = pt_lk s" "kstack_cpu_idx t = kstack_cpu_idx s"
      "NUM_PAGES t = NUM_PAGES s" "AT t = (AT s)(p := (AT s p)\<lparr>allocated := 1\<rparr>)"
proof -
  have ok: "mat_ok s" "quota_ok s" using assms(1) by (simp_all add: vm_ok_def)
  show thesis
  proof (rule container_alloc_cases [OF ok assms(2)])
    assume "container_alloc proc s = Inr (0, s)"
    then show thesis by (rule none) (use assms(1) in simp_all)
  next
    fix t assume t: "t = s\<lparr>CONTAINER := (CONTAINER s)(proc := (CONTAINER s proc)\<lparr>c_usage := c_usage (CONTAINER s proc) + 1\<rparr>),
        last_palloc_index := 0\<rparr>" and r: "container_alloc proc s = Inr (0, t)" "mat_ok t" "quota_ok t"
    have "vm_ok t" by (rule vm_ok_alloc [OF assms(1) r(2,3)]) (simp_all add: t)
    with r(1) show thesis by (rule none) (simp_all add: t)
  next
    fix p t assume t: "t = s\<lparr>CONTAINER := (CONTAINER s)(proc := (CONTAINER s proc)\<lparr>c_usage := c_usage (CONTAINER s proc) + 1\<rparr>),
        AT := (AT s)(p := (AT s p)\<lparr>allocated := 1\<rparr>), last_palloc_index := p\<rparr>"
      and r: "container_alloc proc s = Inr (p, t)" "mat_ok t" "quota_ok t" "p \<noteq> 0" "free_page s p"
    have "vm_ok t" by (rule vm_ok_alloc [OF assms(1) r(2,3)]) (simp_all add: t)
    with r(1) show thesis by (rule page) (use r(4,5) in \<open>simp_all add: t\<close>)
  qed
qed

section \<open>New page tables\<close>

text \<open>The loop of \<open>alloc_ptbl\<close> clears the new page and touches no other page.\<close>

lemma clear_table:
  assumes "proc < NUM_IDS" "i < 1024"
  shows "\<exists>m. for_loop 0 1024 (rmv_ptbl_entry proc i) s = Inr ((), s\<lparr>mem8 := m\<rparr>) \<and>
    (\<forall>j < 1024. load_word m (tbl s proc i * 4096 + j * 4) = 0) \<and>
    (\<forall>p < 0x100000. \<forall>j < 1024. p \<noteq> tbl s proc i \<longrightarrow>
       load_word m (p * 4096 + j * 4) = load_word (mem8 s) (p * 4096 + j * 4))"
proof -
  define I where "I k t \<longleftrightarrow> (\<exists>m. t = s\<lparr>mem8 := m\<rparr> \<and>
    (\<forall>j < 1024. j < k \<longrightarrow> load_word m (tbl s proc i * 4096 + j * 4) = 0) \<and>
    (\<forall>p < 0x100000. \<forall>j < 1024. p \<noteq> tbl s proc i \<longrightarrow>
       load_word m (p * 4096 + j * 4) = load_word (mem8 s) (p * 4096 + j * 4)))" for k t
  have "\<exists>t. for_loop 0 1024 (rmv_ptbl_entry proc i) s = Inr ((), t) \<and> I 1024 t"
  proof (rule for_loop_returns_exec)
    show "I 0 s" unfolding I_def by (intro exI [of _ "mem8 s"]) simp
    fix k t assume k: "k < 1024" and "I k t"
    then obtain m where t: "t = s\<lparr>mem8 := m\<rparr>"
      and m: "\<And>j. j < 1024 \<Longrightarrow> j < k \<Longrightarrow> load_word m (tbl s proc i * 4096 + j * 4) = 0"
        "\<And>p j. p < 0x100000 \<Longrightarrow> j < 1024 \<Longrightarrow> p \<noteq> tbl s proc i \<Longrightarrow>
           load_word m (p * 4096 + j * 4) = load_word (mem8 s) (p * 4096 + j * 4)"
      unfolding I_def by blast
    let ?a = "tbl s proc i * 4096 + k * 4"
    have other: "load_word (store_word m ?a 0) (p * 4096 + j * 4) = load_word m (p * 4096 + j * 4)"
      if "p < 0x100000" "j < 1024" "p \<noteq> tbl s proc i \<or> j \<noteq> k" for p j
      by (rule load_store_other)
        (use that k page_addr_inj [OF tbl_less k that(1,2), of s proc i] in \<open>auto intro: aligned_page_addr\<close>)
    have lt: "j < k \<or> j = k" if "j < k + 1" for j
      using that below_Suc [OF k] by blast
    have "I (k + 1) (s\<lparr>mem8 := store_word m ?a 0\<rparr>)"
      unfolding I_def
    proof (intro exI [of _ "store_word m ?a 0"] conjI allI impI refl)
      show "load_word (store_word m ?a 0) (tbl s proc i * 4096 + j * 4) = 0" if "j < 1024" "j < k + 1" for j
        using lt [OF that(2)] that(1) other [OF tbl_less that(1), of s proc i] m(1) [OF that(1)] by auto
      show "load_word (store_word m ?a 0) (p * 4096 + j * 4) = load_word (mem8 s) (p * 4096 + j * 4)"
        if "p < 0x100000" "j < 1024" "p \<noteq> tbl s proc i" for p j
        using other [OF that(1,2)] m(2) [OF that] that(3) by simp
    qed
    moreover have "rmv_ptbl_entry proc i k t = Inr ((), s\<lparr>mem8 := store_word m ?a 0\<rparr>)"
      using assms by (simp add: rmv_ptbl_entry_exec t tbl_def)
    ultimately show "\<exists>s'. rmv_ptbl_entry proc i k t = Inr ((), s') \<and> I (k + 1) s'" by blast
  qed simp
  then show ?thesis unfolding I_def by blast
qed

lemma alloc_ptbl_none:
  "container_alloc proc s = Inr (0, t) \<Longrightarrow> alloc_ptbl proc va s = Inr (0, t)"
  by (simp add: alloc_ptbl_def exec)

text \<open>State \<open>u\<close> is \<open>t\<close> with page \<open>p\<close> as a new, empty page table of \<open>proc\<close> at directory entry \<open>i\<close>.\<close>

definition new_table :: "'z paging_scheme \<Rightarrow> u32 \<Rightarrow> u32 \<Rightarrow> u32 \<Rightarrow> 'z paging_scheme \<Rightarrow> bool" where
  "new_table t proc i p u \<longleftrightarrow>
     user_slot proc i \<and> PDirPool t proc i = 0 \<and> norm_page t p \<and> allocated (AT t p) \<noteq> 0 \<and>
     (\<forall>x. slot_page t x \<noteq> Some p) \<and>
     (\<exists>m. u = t\<lparr>PDirPool := (PDirPool t)(proc := (PDirPool t proc)(i := p * 4096 + 7)), mem8 := m\<rparr> \<and>
       (\<forall>j < 1024. load_word m (p * 4096 + j * 4) = 0) \<and>
       (\<forall>q < 0x100000. \<forall>j < 1024. q \<noteq> p \<longrightarrow>
          load_word m (q * 4096 + j * 4) = load_word (mem8 t) (q * 4096 + j * 4)))"

lemma norm_page_entry:
  assumes "vm_ok t" "norm_page t p" "f < 4096"
  shows "(p * 4096 + f) div 4096 = p" "p * 4096 + f \<noteq> 0"
proof -
  have "VM_USERLO_PI \<le> p" "p < VM_USERHI_PI" using assms by (simp_all add: vm_ok_def)
  then have "p < 0x100000" "p \<noteq> 0" by (auto intro: order.strict_trans)
  with page_of_entry [OF this(1) assms(3)] show "(p * 4096 + f) div 4096 = p" "p * 4096 + f \<noteq> 0" by auto
qed

lemma unused_tbl_distinct:
  assumes "vm_ok t" "norm_page t p" "\<And>x. slot_page t x \<noteq> Some p"
    and "proc < NUM_IDS" "i < 1024" "PDirPool t proc i \<noteq> 0"
  shows "tbl t proc i \<noteq> p"
proof (cases "user_slot proc i")
  case True
  with assms(3) [of "Tbl proc i"] assms(6) show ?thesis by auto
next
  case False
  with kern_tbl [OF assms(1,4,5)] assms(1,2) show ?thesis by (auto simp: vm_ok_def)
qed

lemma new_table_pdir:
  "new_table t proc i p u \<Longrightarrow>
   PDirPool u proc' i' = (if proc' = proc \<and> i' = i then p * 4096 + 7 else PDirPool t proc' i')"
  by (auto simp: new_table_def)

lemma new_table_pte:
  assumes "vm_ok t" and new: "new_table t proc i p u"
    and "proc' < NUM_IDS" "i' < 1024" "PDirPool u proc' i' \<noteq> 0" "j < 1024"
  shows "pte u proc' i' j = (if proc' = proc \<and> i' = i then 0 else pte t proc' i' j)"
proof (cases "proc' = proc \<and> i' = i")
  case True
  have "(p * 4096 + 7) div 4096 = p" using new by (intro norm_page_entry [OF assms(1)]) (auto simp: new_table_def)
  with True new assms(6) show ?thesis by (auto simp: new_table_def pte_def tbl_def)
next
  case False
  with new_table_pdir [OF new] have same: "PDirPool u proc' i' = PDirPool t proc' i'" by auto
  moreover have "tbl t proc' i' \<noteq> p"
    using new assms same by (intro unused_tbl_distinct [OF assms(1)]) (auto simp: new_table_def)
  moreover have "load_word (mem8 u) (q * 4096 + j * 4) = load_word (mem8 t) (q * 4096 + j * 4)"
    if "q < 0x100000" "q \<noteq> p" for q
    using new assms(6) that by (auto simp: new_table_def)
  ultimately show ?thesis using False tbl_less [of t proc' i'] by (auto simp: pte_def tbl_def)
qed

lemma new_table_slots:
  assumes "vm_ok t" and new: "new_table t proc i p u"
  shows "slot_page u x = (if x = Tbl proc i then Some p else slot_page t x)"
proof -
  have us: "user_slot proc i" "PDirPool t proc i = 0" and e: "(p * 4096 + 7) div 4096 = p" "p * 4096 + 7 \<noteq> 0"
    using new norm_page_entry [OF assms(1), of p 7] by (auto simp: new_table_def)
  show ?thesis
  proof (cases x)
    case (Tbl proc' i')
    with us e new_table_pdir [OF new, of proc' i'] show ?thesis by (auto simp: tbl_def)
  next
    case (Frm proc' i' j)
    with us e new_table_pdir [OF new, of proc' i'] new_table_pte [OF assms, of proc' i' j] show ?thesis
      by (cases "proc' = proc \<and> i' = i"; cases "PDirPool t proc' i' = 0") (auto simp: user_slot_bounds)
  qed
qed

lemma new_table_lookup:
  assumes "vm_ok t" and new: "new_table t proc i p u" and "proc' < NUM_IDS"
  shows "lookup u proc' va = lookup t proc' va"
proof -
  have "p * 4096 + 7 \<noteq> 0" "PDirPool t proc i = 0"
    using new norm_page_entry(2) [OF assms(1), of p 7] by (auto simp: new_table_def)
  then show ?thesis
    using new_table_pte [OF assms(1,2,3) va_bounds(1) _ va_bounds(2), of va va]
      new_table_pdir [OF new, of proc' "va div 4194304"]
    by (auto simp: lookup_def)
qed

lemma vm_ok_new_table:
  assumes "vm_ok t" and new: "new_table t proc i p u"
  shows "vm_ok u"
proof -
  have "slots_ok u"
    by (rule slots_ok_upd [OF _ new_table_slots [OF assms]])
      (use assms in \<open>auto simp: vm_ok_def new_table_def\<close>)
  moreover have "kern_ok u"
    using assms unfolding vm_ok_def kern_ok_def new_table_def by auto
  ultimately show ?thesis
    using assms by (auto simp: vm_ok_def new_table_def mat_ok_def cpu_ok_def quota_ok_def norm_page_def)
qed

lemma alloc_ptbl_page:
  assumes "container_alloc proc s = Inr (p, t)" "vm_ok t" "p \<noteq> 0" "norm_page t p" "allocated (AT t p) \<noteq> 0"
    and "user_slot proc (va div 4194304)" "PDirPool t proc (va div 4194304) = 0"
    and "\<And>x. slot_page t x \<noteq> Some p"
  shows "\<exists>u. alloc_ptbl proc va s = Inr (p, u) \<and> new_table t proc (va div 4194304) p u"
proof -
  let ?i = "va div 4194304"
  let ?v = "t\<lparr>PDirPool := (PDirPool t)(proc := (PDirPool t proc)(?i := p * 4096 + 7))\<rparr>"
  have us: "proc < NUM_IDS" "?i < 1024" using assms(6) by (simp_all add: user_slot_bounds)
  have tv: "tbl ?v proc ?i = p" using norm_page_entry [OF assms(2,4), of 7] by (simp add: tbl_def)
  obtain m where m: "for_loop 0 1024 (rmv_ptbl_entry proc ?i) ?v = Inr ((), ?v\<lparr>mem8 := m\<rparr>)"
    "\<And>j. j < 1024 \<Longrightarrow> load_word m (p * 4096 + j * 4) = 0"
    "\<And>q j. q < 0x100000 \<Longrightarrow> j < 1024 \<Longrightarrow> q \<noteq> p \<Longrightarrow>
       load_word m (q * 4096 + j * 4) = load_word (mem8 t) (q * 4096 + j * 4)"
    using clear_table [OF us, of ?v] unfolding tv by auto
  have "alloc_ptbl proc va s = Inr (p, ?v\<lparr>mem8 := m\<rparr>)"
    using assms(1,3) us m(1)
    by (simp add: alloc_ptbl_def exec set_pdir_entry_by_va_def set_pdir_entry_def Let_def)
  moreover have "new_table t proc ?i p (?v\<lparr>mem8 := m\<rparr>)"
    unfolding new_table_def using assms m(2,3) by blast
  ultimately show ?thesis by blast
qed

section \<open>Mapping a page\<close>

text \<open>State \<open>s'\<close> has \<open>va\<close> of \<open>proc\<close> mapped to \<open>v\<close>, and every other address as \<open>s\<close>.\<close>

definition mapped :: "'z paging_scheme \<Rightarrow> u32 \<Rightarrow> u32 \<Rightarrow> u32 \<Rightarrow> 'z paging_scheme \<Rightarrow> bool" where
  "mapped s proc va v s' \<longleftrightarrow> (\<forall>proc' < NUM_IDS. \<forall>va'. lookup s' proc' va' =
     (if proc' = proc \<and> va' div 4096 = va div 4096 then v else lookup s proc' va'))"

definition same_map :: "'z paging_scheme \<Rightarrow> 'z paging_scheme \<Rightarrow> bool" where
  "same_map s s' \<longleftrightarrow> (\<forall>proc < NUM_IDS. \<forall>va. lookup s' proc va = lookup s proc va)"

text \<open>Page \<open>p\<close> is allocated and ready to be put in a slot.\<close>

definition spare :: "'z paging_scheme \<Rightarrow> u32 \<Rightarrow> bool" where
  "spare s p \<longleftrightarrow> norm_page s p \<and> allocated (AT s p) \<noteq> 0 \<and> (\<forall>x. slot_page s x \<noteq> Some p)"

definition frame :: "'z paging_scheme \<Rightarrow> 'z paging_scheme \<Rightarrow> bool" where
  "frame s s' \<longleftrightarrow> pt_lk s' = pt_lk s \<and> kstack_cpu_idx s' = kstack_cpu_idx s"

lemma same_map_cong: "PDirPool t = PDirPool s \<Longrightarrow> mem8 t = mem8 s \<Longrightarrow> same_map s t"
  by (simp add: same_map_def lookup_def pte_def tbl_def)

lemma mapped_trans: "same_map s t \<Longrightarrow> mapped t proc va v u \<Longrightarrow> mapped s proc va v u"
  by (simp add: mapped_def same_map_def)

lemma map_write:
  assumes "vm_ok t" "PDirPool t proc (va div 4194304) \<noteq> 0" "spare t pi" "user_slot proc (va div 4194304)" "prm < 4096"
  defines "u \<equiv> write_pte t proc (va div 4194304) (va div 4096 mod 1024) (pi * 4096 + prm)"
  shows "vm_ok u" "mapped t proc va (pi * 4096 + prm) u" "frame t u"
proof -
  have "(pi * 4096 + prm) div 4096 = pi"
    using assms(3) by (intro norm_page_entry(1) [OF assms(1) _ assms(5)]) (simp add: spare_def)
  then show "vm_ok u"
    unfolding u_def using assms(3) by (intro vm_ok_write assms(1,2,4)) (auto simp: spare_def)
  show "mapped t proc va (pi * 4096 + prm) u"
    unfolding mapped_def u_def by (intro allI impI lookup_write assms(1,2,4))
  show "frame t u" by (simp add: frame_def u_def)
qed

text \<open>The case that a page table is missing and a page for it is found.\<close>

lemma map_page_new:
  assumes s: "vm_ok s" "user_slot proc (va div 4194304)" "spare s pi" "prm < 4096" "PDirPool s proc (va div 4194304) = 0"
    and r: "container_alloc proc s = Inr (p, t)" "p \<noteq> 0" "free_page s p"
    and t: "vm_ok t" "PDirPool t = PDirPool s" "mem8 t = mem8 s" "frame s t"
      "NUM_PAGES t = NUM_PAGES s" "AT t = (AT s)(p := (AT s p)\<lparr>allocated := 1\<rparr>)"
  shows "\<exists>s'. map_page proc va pi prm s = Inr (p, s') \<and> p \<noteq> MagicNumber \<and> vm_ok s' \<and> frame s s' \<and>
    mapped s proc va (pi * 4096 + prm) s'"
proof -
  have slots_t: "slot_page t x = slot_page s x" for x by (rule slot_page_cong [OF t(2,3)])
  have p: "norm_page t p" "allocated (AT t p) \<noteq> 0" "p \<noteq> pi"
    using r(3) t(5,6) s(3) by (auto simp: norm_page_def free_page_def spare_def)
  obtain u where u: "alloc_ptbl proc va s = Inr (p, u)" and new: "new_table t proc (va div 4194304) p u"
    using alloc_ptbl_page [OF r(1) t(1) r(2) p(1,2) s(2)] s(5) t(2) slots_t free_not_used [OF s(1) r(3)] by auto
  have u_ok: "vm_ok u" using vm_ok_new_table [OF t(1) new] .
  have nz: "PDirPool u proc (va div 4194304) \<noteq> 0"
    using new_table_pdir [OF new, of proc "va div 4194304"] norm_page_entry(2) [OF t(1) p(1), of 7] by simp
  have "NUM_PAGES u = NUM_PAGES t" "AT u = AT t" "frame t u"
    using new by (auto simp: new_table_def frame_def)
  then have sp: "spare u pi" and fr: "frame s u"
    using s(3) p(3) t(4,5,6) slots_t new_table_slots [OF t(1) new]
    by (auto simp: norm_page_def spare_def frame_def)
  have "same_map s u"
    using new_table_lookup [OF t(1) new] t(2,3) by (simp add: same_map_def lookup_def pte_def tbl_def)
  moreover have "p \<noteq> MagicNumber" using r(3) t(1) p(1) by (auto simp: vm_ok_def)
  ultimately show ?thesis
    using map_write [OF u_ok nz sp s(2,4)] u r(2) s(2,5) fr
    by (auto simp: map_page_def get_pdir_entry_by_va_def set_ptbl_entry_by_va_def exec frame_def
        user_slot_bounds intro: mapped_trans)
qed

text \<open>
  The outcome of \<open>map_page\<close> on a user address: the page is mapped and nothing else changes, or
  there was no page for a new page table and nothing is mapped.
\<close>

lemma map_page_exec:
  assumes "vm_ok s" "user_slot proc (va div 4194304)" "spare s pi" "prm < 4096"
  shows "\<exists>r s'. map_page proc va pi prm s = Inr (r, s') \<and> vm_ok s' \<and> frame s s' \<and>
    (if r = MagicNumber then same_map s s' else mapped s proc va (pi * 4096 + prm) s')"
proof (cases "PDirPool s proc (va div 4194304) = 0")
  case False
  then have "map_page proc va pi prm s =
      Inr (0, write_pte s proc (va div 4194304) (va div 4096 mod 1024) (pi * 4096 + prm))"
    using assms(2) by (simp add: map_page_def get_pdir_entry_by_va_def set_ptbl_entry_by_va_def exec user_slot_bounds)
  with map_write [OF assms(1) False assms(3,2,4)] show ?thesis by simp
next
  case True
  show ?thesis
  proof (rule vm_alloc_cases [OF assms(1) user_slot_bounds(1) [OF assms(2)]])
    fix t assume "container_alloc proc s = Inr (0, t)" and t: "vm_ok t" "PDirPool t = PDirPool s" "mem8 t = mem8 s"
      "pt_lk t = pt_lk s" "kstack_cpu_idx t = kstack_cpu_idx s"
    then have "map_page proc va pi prm s = Inr (MagicNumber, t)"
      using assms(2) True by (simp add: map_page_def get_pdir_entry_by_va_def exec alloc_ptbl_none user_slot_bounds)
    with t show ?thesis by (simp add: same_map_cong frame_def)
  next
    fix p t assume r: "container_alloc proc s = Inr (p, t)" "p \<noteq> 0" "free_page s p"
      and t: "vm_ok t" "PDirPool t = PDirPool s" "mem8 t = mem8 s" "pt_lk t = pt_lk s"
        "kstack_cpu_idx t = kstack_cpu_idx s" "NUM_PAGES t = NUM_PAGES s"
        "AT t = (AT s)(p := (AT s p)\<lparr>allocated := 1\<rparr>)"
    have "frame s t" using t(4,5) by (simp add: frame_def)
    from map_page_new [OF assms True r t(1-3) this t(6,7)] show ?thesis by auto
  qed
qed

lemma slot_page_pt_lk [simp]: "slot_page (s\<lparr>pt_lk := l\<rparr>) x = slot_page s x"
  by (rule slot_page_cong) simp_all

lemma vm_ok_pt_lk [simp]: "vm_ok (s\<lparr>pt_lk := l\<rparr>) = vm_ok s"
  by (simp add: vm_ok_def mat_ok_def cpu_ok_def quota_ok_def norm_page_def kern_ok_def slots_ok_def)

lemma lookup_pt_lk [simp]: "lookup (s\<lparr>pt_lk := l\<rparr>) proc va = lookup s proc va"
  by (simp add: lookup_def pte_def tbl_def)

lemma free_page_pt_lk [simp]: "free_page (s\<lparr>pt_lk := l\<rparr>) p = free_page s p"
  by (simp add: free_page_def norm_page_def)

lemma alloc_page_exec:
  assumes "paging_ok s" "user_slot proc (va div 4194304)" "prm < 4096"
  shows "\<exists>r s'. alloc_page proc va prm s = Inr (r, s') \<and> paging_ok s' \<and>
    (if r = MagicNumber then same_map s s' else \<exists>p. free_page s p \<and> mapped s proc va (p * 4096 + prm) s')"
proof -
  define h where "h = s\<lparr>pt_lk := lock_held_val (kstack_cpu_idx s)\<rparr>"
  have h: "vm_ok h" "same_map s h" "\<And>p. free_page h p = free_page s p"
    using assms(1) by (simp_all add: h_def paging_ok_def same_map_def)
  have acq: "pt_spinlock_acquire s = Inr ((), h)"
    using assms(1) by (simp add: pt_lock_exec h_def paging_ok_def vm_ok_def mat_ok_def)
  have rel: "same_map h u \<Longrightarrow> same_map s (u\<lparr>pt_lk := l\<rparr>)" "mapped h proc va v u \<Longrightarrow> mapped s proc va v (u\<lparr>pt_lk := l\<rparr>)"
    for u l v using h(2) by (simp_all add: same_map_def mapped_def)
  show ?thesis
  proof (rule vm_alloc_cases [OF h(1) user_slot_bounds(1) [OF assms(2)]])
    fix t assume t: "container_alloc proc h = Inr (0, t)" "vm_ok t" "PDirPool t = PDirPool h" "mem8 t = mem8 h"
    then have "alloc_page proc va prm s = Inr (MagicNumber, t\<lparr>pt_lk := lock_init_val\<rparr>)"
      by (simp add: alloc_page_def exec acq)
    with t show ?thesis by (simp add: paging_ok_def rel(1) same_map_cong)
  next
    fix p t assume r: "container_alloc proc h = Inr (p, t)" "p \<noteq> 0" "free_page h p"
      and t: "vm_ok t" "PDirPool t = PDirPool h" "mem8 t = mem8 h" "NUM_PAGES t = NUM_PAGES h"
        "AT t = (AT h)(p := (AT h p)\<lparr>allocated := 1\<rparr>)"
    have "spare t p"
      using r(3) t(4,5) free_not_used [OF h(1) r(3)] slot_page_cong [OF t(2,3)]
      by (auto simp: spare_def norm_page_def free_page_def)
    from map_page_exec [OF t(1) assms(2) this assms(3)] obtain v s' where
      m: "map_page proc va p prm t = Inr (v, s')" "vm_ok s'"
        "if v = MagicNumber then same_map t s' else mapped t proc va (p * 4096 + prm) s'" by blast
    have "same_map h t" by (rule same_map_cong [OF t(2,3)])
    with m(3) have "if v = MagicNumber then same_map h s' else mapped h proc va (p * 4096 + prm) s'"
      by (auto simp: same_map_def mapped_def)
    moreover have "alloc_page proc va prm s = Inr (v, s'\<lparr>pt_lk := lock_init_val\<rparr>)"
      using r m(1) by (simp add: alloc_page_def exec acq)
    ultimately show ?thesis using m(2) r(3) h(3) rel by (auto simp: paging_ok_def split: if_splits)
  qed
qed

section \<open>Unmapping a page\<close>

lemma unmap_page_exec:
  assumes "vm_ok s" "user_slot proc (va div 4194304)"
  shows "\<exists>s'. unmap_page proc va s = Inr (lookup s proc va, s') \<and> vm_ok s' \<and> mapped s proc va 0 s' \<and> frame s s'"
proof (cases "lookup s proc va = 0")
  case True
  have "lookup s proc va' = 0" if "va' div 4096 = va div 4096" for va'
    using lookup_same_page [OF that, of s proc] True by simp
  with True assms show ?thesis
    by (simp add: unmap_page_def exec user_slot_bounds mapped_def frame_def)
next
  case False
  then have nz: "PDirPool s proc (va div 4194304) \<noteq> 0" by (auto simp: lookup_def)
  from vm_ok_write [OF assms nz va_bounds(2) [of va], of 0] lookup_write [OF assms nz]
  show ?thesis using False assms
    by (simp add: unmap_page_def rmv_ptbl_entry_by_va_def exec user_slot_bounds mapped_def frame_def)
qed

section \<open>Initialisation\<close>

definition id_perm :: "u32 \<Rightarrow> u32" where
  "id_perm i = (if i < 256 \<or> i \<ge> 960 then PTE_P OR PTE_W OR PTE_G else PTE_P OR PTE_W)"

text \<open>The entries of the identity tables before row \<open>i\<close>, column \<open>k\<close> are written.\<close>

definition id_done :: "bytes \<Rightarrow> u32 \<Rightarrow> u32 \<Rightarrow> u32 \<Rightarrow> bool" where
  "id_done m b i k \<longleftrightarrow> (\<forall>i' < 1024. \<forall>j < 1024. i' < i \<or> i' = i \<and> j < k \<longrightarrow>
     load_word m ((b + i') * 4096 + j * 4) = (i' * 1024 + j) * 4096 + id_perm i')"

lemma id_page_less:
  assumes "b \<le> 0x3FC00" "i < (1024 :: u32)"
  shows "b + i < 0x100000" "b + i < 0x40000" "unat (b + i) = unat b + unat i"
proof -
  have n: "unat b \<le> 0x3FC00" "unat i < 1024" using assms by (simp_all add: word_le_nat_alt word_less_nat_alt)
  then show u: "unat (b + i) = unat b + unat i" by (simp add: unat_word_ariths)
  with n show "b + i < 0x100000" "b + i < 0x40000" by (simp_all add: word_less_nat_alt)
qed

lemma id_done_step:
  assumes "id_done m b i k" "b \<le> 0x3FC00" "i < 1024" "k < 1024"
  shows "id_done (store_word m ((b + i) * 4096 + k * 4) ((i * 1024 + k) * 4096 + id_perm i)) b i (k + 1)"
  unfolding id_done_def
proof (intro allI impI)
  fix i' j :: u32 assume h: "i' < 1024" "j < 1024" "i' < i \<or> i' = i \<and> j < k + 1"
  show "load_word (store_word m ((b + i) * 4096 + k * 4) ((i * 1024 + k) * 4096 + id_perm i)) ((b + i') * 4096 + j * 4) =
      (i' * 1024 + j) * 4096 + id_perm i'"
  proof (cases "i' = i \<and> j = k")
    case False
    with h(3) have dn: "i' < i \<or> i' = i \<and> j < k" using below_Suc [OF assms(4), of j] by blast
    have ne: "(b + i) * 4096 + k * 4 \<noteq> (b + i') * 4096 + j * 4"
      using page_addr_inj [OF id_page_less(1) [OF assms(2,3)] assms(4) id_page_less(1) [OF assms(2) h(1)] h(2)] False
      by auto
    have "load_word (store_word m ((b + i) * 4096 + k * 4) w) ((b + i') * 4096 + j * 4) =
        load_word m ((b + i') * 4096 + j * 4)" for w
      by (rule load_store_other [OF aligned_page_addr [OF id_page_less(1) [OF assms(2,3)] assms(4)]
        aligned_page_addr [OF id_page_less(1) [OF assms(2) h(1)] h(2)] ne])
    with dn h(1,2) assms(1) show ?thesis unfolding id_done_def by metis
  qed simp
qed

lemma id_row:
  assumes "IDPTbl s = b * 4096" "b \<le> 0x3FC00" "i < 1024" "id_done (mem8 s) b i 0"
  shows "\<exists>m. for_loop 0 1024 (\<lambda>j. set_ptbl_entry_identity i j (id_perm i)) s = Inr ((), s\<lparr>mem8 := m\<rparr>) \<and> id_done m b (i + 1) 0"
proof -
  have "\<exists>t. for_loop 0 1024 (\<lambda>j. set_ptbl_entry_identity i j (id_perm i)) s = Inr ((), t) \<and>
      (\<exists>m. t = s\<lparr>mem8 := m\<rparr> \<and> id_done m b i 1024)"
  proof (rule for_loop_returns_exec [where I = "\<lambda>k t. \<exists>m. t = s\<lparr>mem8 := m\<rparr> \<and> id_done m b i k"])
    show "\<exists>m. s = s\<lparr>mem8 := m\<rparr> \<and> id_done m b i 0" using assms(4) by (intro exI [of _ "mem8 s"]) simp
    fix k t assume k: "k < 1024" and "\<exists>m. t = s\<lparr>mem8 := m\<rparr> \<and> id_done m b i k"
    then obtain m where t: "t = s\<lparr>mem8 := m\<rparr>" and m: "id_done m b i k" by blast
    have a: "b * 4096 + (i * 1024 + k) * 4 = (b + i) * 4096 + k * 4" by (simp add: algebra_simps)
    have "set_ptbl_entry_identity i k (id_perm i) t =
        Inr ((), s\<lparr>mem8 := store_word m ((b + i) * 4096 + k * 4) ((i * 1024 + k) * 4096 + id_perm i)\<rparr>)"
      using k assms(1,3) by (simp add: set_ptbl_entry_identity_def exec t a algebra_simps)
    with id_done_step [OF m assms(2,3) k]
    show "\<exists>t'. set_ptbl_entry_identity i k (id_perm i) t = Inr ((), t') \<and>
        (\<exists>m. t' = s\<lparr>mem8 := m\<rparr> \<and> id_done m b i (k + 1))" by blast
  qed simp
  moreover have "id_done m b (i + 1) 0" if "id_done m b i 1024" for m
    using that below_Suc [OF assms(3)] unfolding id_done_def by auto
  ultimately show ?thesis by blast
qed

lemma id_tables:
  assumes "IDPTbl s = b * 4096" "b \<le> 0x3FC00"
  shows "\<exists>m. for_loop 0 1024 (\<lambda>i. let prm = (if i < 256 \<or> i \<ge> 960 then PTE_P OR PTE_W OR PTE_G else PTE_P OR PTE_W) in
      for_loop 0 1024 (\<lambda>j. set_ptbl_entry_identity i j prm)) s = Inr ((), s\<lparr>mem8 := m\<rparr>) \<and> id_done m b 1024 0"
proof -
  let ?body = "\<lambda>i. for_loop 0 1024 (\<lambda>j. set_ptbl_entry_identity i j (id_perm i)) :: ('a paging_scheme, unit) kop"
  have "\<exists>t. for_loop 0 1024 ?body s = Inr ((), t) \<and> (\<exists>m. t = s\<lparr>mem8 := m\<rparr> \<and> id_done m b 1024 0)"
  proof (rule for_loop_returns_exec [where I = "\<lambda>k t. \<exists>m. t = s\<lparr>mem8 := m\<rparr> \<and> id_done m b k 0"])
    show "\<exists>m. s = s\<lparr>mem8 := m\<rparr> \<and> id_done m b 0 0"
      by (intro exI [of _ "mem8 s"]) (simp add: id_done_def)
    fix i t assume i: "i < 1024" and "\<exists>m. t = s\<lparr>mem8 := m\<rparr> \<and> id_done m b i 0"
    then obtain m where t: "t = s\<lparr>mem8 := m\<rparr>" and m: "id_done m b i 0" by blast
    from id_row [of t b i] t m assms i
    show "\<exists>t'. ?body i t = Inr ((), t') \<and> (\<exists>m. t' = s\<lparr>mem8 := m\<rparr> \<and> id_done m b (i + 1) 0)" by auto
  qed simp
  moreover have "(\<lambda>i. let prm = (if i < 256 \<or> i \<ge> 960 then PTE_P OR PTE_W OR PTE_G else PTE_P OR PTE_W) in
      for_loop 0 1024 (\<lambda>j. set_ptbl_entry_identity i j prm)) = ?body"
    by (simp add: id_perm_def fun_eq_iff Let_def)
  ultimately show ?thesis by auto
qed

text \<open>The directory entries \<open>pdir_init\<close> and \<open>pdir_init_kern\<close> write.\<close>

definition init_pde :: "u32 \<Rightarrow> u32 \<Rightarrow> u32" where
  "init_pde idtbl j = (if j < 256 \<or> j \<ge> 960 then idtbl + j * 4096 + 7 else 0)"

lemma pdir_row:
  assumes "i < NUM_IDS"
  shows "\<exists>f. for_loop 0 1024 (\<lambda>j. if j < 256 \<or> j \<ge> 960 then set_pdir_entry_identity i j else rmv_pdir_entry i j) s =
      Inr ((), s\<lparr>PDirPool := (PDirPool s)(i := f)\<rparr>) \<and> (\<forall>j < 1024. f j = init_pde (IDPTbl s) j)"
proof -
  define I where "I k t \<longleftrightarrow> (\<exists>f. t = s\<lparr>PDirPool := (PDirPool s)(i := f)\<rparr> \<and> (\<forall>j < 1024. j < k \<longrightarrow> f j = init_pde (IDPTbl s) j))" for k t
  have "\<exists>t. for_loop 0 1024 (\<lambda>j. if j < 256 \<or> j \<ge> 960 then set_pdir_entry_identity i j else rmv_pdir_entry i j) s =
      Inr ((), t) \<and> I 1024 t"
  proof (rule for_loop_returns_exec [where I = I])
    show "I 0 s" unfolding I_def by (intro exI [of _ "PDirPool s i"]) simp
    fix k t assume k: "k < 1024" and "I k t"
    then obtain f where t: "t = s\<lparr>PDirPool := (PDirPool s)(i := f)\<rparr>"
      and f: "\<forall>j < 1024. j < k \<longrightarrow> f j = init_pde (IDPTbl s) j" unfolding I_def by blast
    let ?f = "f(k := init_pde (IDPTbl s) k)"
    have "(if k < 256 \<or> k \<ge> 960 then set_pdir_entry_identity i k else rmv_pdir_entry i k) t =
        Inr ((), s\<lparr>PDirPool := (PDirPool s)(i := ?f)\<rparr>)"
      using k assms by (auto simp: t set_pdir_entry_identity_def rmv_pdir_entry_def exec init_pde_def)
    moreover have "I (k + 1) (s\<lparr>PDirPool := (PDirPool s)(i := ?f)\<rparr>)"
      unfolding I_def using f below_Suc [OF k] by (intro exI [of _ ?f]) auto
    ultimately show "\<exists>t'. (if k < 256 \<or> k \<ge> 960 then set_pdir_entry_identity i k else rmv_pdir_entry i k) t =
        Inr ((), t') \<and> I (k + 1) t'" by blast
  qed simp
  then show ?thesis unfolding I_def by blast
qed

lemma pdir_tables:
  "\<exists>g. for_loop 0 NUM_IDS (\<lambda>i. for_loop 0 1024 (\<lambda>j.
      if j < 256 \<or> j \<ge> 960 then set_pdir_entry_identity i j else rmv_pdir_entry i j)) s =
      Inr ((), s\<lparr>PDirPool := g\<rparr>) \<and> (\<forall>i < NUM_IDS. \<forall>j < 1024. g i j = init_pde (IDPTbl s) j)"
proof -
  let ?body = "\<lambda>i. for_loop 0 1024 (\<lambda>j. if j < 256 \<or> j \<ge> 960 then set_pdir_entry_identity i j else rmv_pdir_entry i j)
    :: ('a paging_scheme, unit) kop"
  define I where "I k t \<longleftrightarrow> (\<exists>g. t = s\<lparr>PDirPool := g\<rparr> \<and> (\<forall>i < k. \<forall>j < 1024. g i j = init_pde (IDPTbl s) j))" for k t
  have "\<exists>t. for_loop 0 NUM_IDS ?body s = Inr ((), t) \<and> I NUM_IDS t"
  proof (rule for_loop_returns_exec [where I = I])
    show "I 0 s" unfolding I_def by (intro exI [of _ "PDirPool s"]) simp
    fix k t assume k: "k < NUM_IDS" and "I k t"
    then obtain g where t: "t = s\<lparr>PDirPool := g\<rparr>" and g: "\<forall>i < k. \<forall>j < 1024. g i j = init_pde (IDPTbl s) j"
      unfolding I_def by blast
    from pdir_row [OF k, of t] obtain f where f: "?body k t = Inr ((), t\<lparr>PDirPool := (PDirPool t)(k := f)\<rparr>)"
      "\<forall>j < 1024. f j = init_pde (IDPTbl t) j" by blast
    then have "I (k + 1) (t\<lparr>PDirPool := (PDirPool t)(k := f)\<rparr>)"
      unfolding I_def using g below_Suc [OF k] by (intro exI [of _ "g(k := f)"]) (auto simp: t)
    with f(1) show "\<exists>t'. ?body k t = Inr ((), t') \<and> I (k + 1) t'" by blast
  qed simp
  then show ?thesis unfolding I_def by blast
qed

lemma pdir_kern_row:
  "\<exists>f. for_loop 256 960 (set_pdir_entry_identity 0) s = Inr ((), s\<lparr>PDirPool := (PDirPool s)(0 := f)\<rparr>) \<and>
    (\<forall>j < 1024. f j = (if 256 \<le> j \<and> j < 960 then IDPTbl s + j * 4096 + 7 else PDirPool s 0 j))"
proof -
  define I where "I k t \<longleftrightarrow> (\<exists>f. t = s\<lparr>PDirPool := (PDirPool s)(0 := f)\<rparr> \<and>
    (\<forall>j < 1024. f j = (if 256 \<le> j \<and> j < k then IDPTbl s + j * 4096 + 7 else PDirPool s 0 j)))" for k t
  have "\<exists>t. for_loop 256 960 (set_pdir_entry_identity 0) s = Inr ((), t) \<and> I 960 t"
  proof (rule for_loop_returns_exec [where I = I])
    show "I 256 s" unfolding I_def by (intro exI [of _ "PDirPool s 0"]) auto
    fix k t assume k: "256 \<le> k" "k < 960" and "I k t"
    then obtain f where t: "t = s\<lparr>PDirPool := (PDirPool s)(0 := f)\<rparr>"
      and f: "\<forall>j < 1024. f j = (if 256 \<le> j \<and> j < k then IDPTbl s + j * 4096 + 7 else PDirPool s 0 j)"
      unfolding I_def by blast
    let ?f = "f(k := IDPTbl s + k * 4096 + 7)"
    have "k < 1024" using k(2) by (rule order.strict_trans) simp
    then have "set_pdir_entry_identity 0 k t = Inr ((), s\<lparr>PDirPool := (PDirPool s)(0 := ?f)\<rparr>)"
      by (simp add: t set_pdir_entry_identity_def exec)
    moreover have "I (k + 1) (s\<lparr>PDirPool := (PDirPool s)(0 := ?f)\<rparr>)"
      unfolding I_def using f below_Suc [OF k(2)] k(1) by (intro exI [of _ ?f]) auto
    ultimately show "\<exists>t'. set_pdir_entry_identity 0 k t = Inr ((), t') \<and> I (k + 1) t'" by blast
  qed simp
  then show ?thesis unfolding I_def by blast
qed

lemma init_vm_ok:
  assumes "mat_ok s" "quota_ok s" "\<And>p. norm_page s p \<Longrightarrow> VM_USERLO_PI \<le> p \<and> p < VM_USERHI_PI"
    and "IDPTbl s = b * 4096" "b \<le> 0x3FC00"
    and "\<And>i j. i < NUM_IDS \<Longrightarrow> j < 1024 \<Longrightarrow> PDirPool s i j = (if i = 0 then IDPTbl s + j * 4096 + 7 else init_pde (IDPTbl s) j)"
  shows "vm_ok s" and "slot_page s x = None"
proof -
  have "i = 0 \<or> j < 256 \<or> 960 \<le> j" if "\<not> user_slot i j" "i < NUM_IDS" for i j
    using that by (auto simp: user_slot_def word_gt_0 not_less)
  then have "kern_ok s" unfolding kern_ok_def using assms(4-6) by (auto simp: init_pde_def)
  moreover have "PDirPool s i j = 0" if "user_slot i j" for i j
    using that assms(6) [of i j] user_slot_bounds [OF that] by (auto simp: user_slot_def init_pde_def)
  then have "slot_page s x = None" for x by (cases x) auto
  moreover from this have "slots_ok s" by (simp add: slots_ok_def)
  ultimately show "vm_ok s" "slot_page s x = None" using assms(1-3) by (auto simp: vm_ok_def)
qed

text \<open>
  The hypotheses under which the kernel starts: the boot processor's stack is intact, the
  loader's entries fit, there is some memory, and the linker has placed the identity tables
  in kernel memory, page aligned.
\<close>

definition boot_ok :: "mboot_mmap list \<Rightarrow> 'z paging_scheme \<Rightarrow> bool" where
  "boot_ok es s \<longleftrightarrow>
     unat (pmmap_slots_next_free s) + length (low_entries es) \<le> 128 \<and>
     list_all (\<lambda>p. mm_type p \<in> {MEM_RAM, MEM_RESERVED, MEM_ACPI, MEM_NVS}) (low_entries es) \<and>
     pmmap_nentries s = 0 \<and> (\<exists>type a. bios_covered es type a) \<and> cpu_ok s \<and>
     last_palloc_index s \<le> AT_SIZE \<and> quota_ok s \<and> (\<exists>b. IDPTbl s = b * 4096 \<and> b \<le> 0x3FC00)"

lemma boot_container_init:
  assumes "boot_ok es s" and "IDPTbl s = b * 4096"
  obtains t where "container_init es (s\<lparr>pt_lk := lock_init_val\<rparr>) = Inr ((), t)" "IDPTbl t = b * 4096" "mat_ok t"
    "quota_ok t" "pt_lk t = lock_init_val" "\<forall>p. norm_page t p \<longrightarrow> VM_USERLO_PI \<le> p \<and> p < VM_USERHI_PI"
proof -
  define z where "z = s\<lparr>pt_lk := lock_init_val\<rparr>"
  have init: "unat (pmmap_slots_next_free z) + length (low_entries es) \<le> 128"
    "\<forall>p \<in> set (low_entries es). mm_type p \<in> {MEM_RAM, MEM_RESERVED, MEM_ACPI, MEM_NVS}" "pmmap_nentries z = 0"
    using assms by (auto simp: boot_ok_def z_def list_all_iff)
  show thesis
  proof (rule container_init_exec [OF init])
    fix n l sub m k np at q t
    assume e: "t = z\<lparr>pmmap_slots_next_free := n, pmmap_list := l, pmmap_sublist := sub, max_usable_memory := m,
       mem_npages := k, pmmap_nentries := of_nat (length l), mem_lk := lock_init_val, NUM_PAGES := np, AT := at,
       CONTAINER := (CONTAINER z)(0 := root_container q)\<rparr>"
      and r: "container_init es z = Inr ((), t)" "np \<le> AT_SIZE" "(\<exists>type a. bios_covered es type a) \<Longrightarrow> 0 < np"
        "\<And>p. norm_page t p \<Longrightarrow> VM_USERLO_PI \<le> p \<and> p < VM_USERHI_PI"
    show thesis
    proof (rule that [OF r(1) [unfolded z_def]])
      show "mat_ok t" using assms r(2,3) by (simp add: e z_def boot_ok_def mat_ok_def cpu_ok_def)
      show "quota_ok t" using assms by (simp add: e z_def boot_ok_def quota_ok_def root_container_def)
      show "\<forall>p. norm_page t p \<longrightarrow> VM_USERLO_PI \<le> p \<and> p < VM_USERHI_PI" using r(4) by blast
    qed (simp_all add: e z_def assms(2))
  qed
qed

text \<open>The tables after \<open>pdir_init_kern\<close>, for any state the lower layers leave.\<close>

lemma pdir_init_kern_exec:
  assumes "container_init es s = Inr ((), t)" "IDPTbl t = b * 4096" "b \<le> 0x3FC00"
  obtains m g where "pdir_init_kern es s = Inr ((), t\<lparr>mem8 := m, PDirPool := g\<rparr>)" "id_done m b 1024 0"
    "\<forall>i < NUM_IDS. \<forall>j < 1024. g i j = (if i = 0 then IDPTbl t + j * 4096 + 7 else init_pde (IDPTbl t) j)"
proof -
  obtain m where m: "idptbl_init es s = Inr ((), t\<lparr>mem8 := m\<rparr>)" "id_done m b 1024 0"
    using id_tables [OF assms(2,3)] assms(1) by (auto simp: idptbl_init_def exec)
  obtain g where g: "pdir_init es s = Inr ((), t\<lparr>mem8 := m, PDirPool := g\<rparr>)"
    "\<forall>i < NUM_IDS. \<forall>j < 1024. g i j = init_pde (IDPTbl t) j"
    using pdir_tables [of "t\<lparr>mem8 := m\<rparr>"] m(1) by (auto simp: pdir_init_def exec)
  obtain f where f: "pdir_init_kern es s = Inr ((), t\<lparr>mem8 := m, PDirPool := g(0 := f)\<rparr>)"
    "\<forall>j < 1024. f j = (if 256 \<le> j \<and> j < 960 then IDPTbl t + j * 4096 + 7 else g 0 j)"
    using pdir_kern_row [of "t\<lparr>mem8 := m, PDirPool := g\<rparr>"] g(1) by (auto simp: pdir_init_kern_def exec)
  show thesis
    by (rule that [OF f(1) m(2)]) (use f(2) g(2) in \<open>auto simp: init_pde_def not_le not_less\<close>)
qed

lemma paging_init_exec:
  assumes "boot_ok es s"
  obtains s' where "paging_init es s = Inr ((), s')" "paging_ok s'" "paging_on s'" "CR3 s' = 0"
    "\<And>x. slot_page s' x = None"
    "\<And>proc i j. proc < NUM_IDS \<Longrightarrow> i < 1024 \<Longrightarrow> j < 1024 \<Longrightarrow> proc = 0 \<or> i < 256 \<or> 960 \<le> i \<Longrightarrow>
       PDirPool s' proc i \<noteq> 0 \<and> pte s' proc i j = (i * 1024 + j) * 4096 + id_perm i"
proof -
  from assms obtain b where b: "IDPTbl s = b * 4096" "b \<le> 0x3FC00" by (auto simp: boot_ok_def)
  obtain t where t: "container_init es (s\<lparr>pt_lk := lock_init_val\<rparr>) = Inr ((), t)" "IDPTbl t = b * 4096" "mat_ok t"
    "quota_ok t" "pt_lk t = lock_init_val" "\<forall>p. norm_page t p \<longrightarrow> VM_USERLO_PI \<le> p \<and> p < VM_USERHI_PI"
    by (rule boot_container_init [OF assms b(1)])
  obtain m g where m: "pdir_init_kern es (s\<lparr>pt_lk := lock_init_val\<rparr>) = Inr ((), t\<lparr>mem8 := m, PDirPool := g\<rparr>)"
    "id_done m b 1024 0"
    and g: "\<forall>i < NUM_IDS. \<forall>j < 1024. g i j = (if i = 0 then IDPTbl t + j * 4096 + 7 else init_pde (IDPTbl t) j)"
    by (rule pdir_init_kern_exec [OF t(1,2) b(2)])
  define s' where "s' = t\<lparr>mem8 := m, PDirPool := g, CR3 := 0, paging_on := True\<rparr>"
  have pd: "PDirPool s' i j = (if i = 0 then IDPTbl s' + j * 4096 + 7 else init_pde (IDPTbl s') j)"
    if "i < NUM_IDS" "j < 1024" for i j
    using g that by (simp add: s'_def)
  have run: "paging_init es s = Inr ((), s')"
    using m(1) t(3,5)
    by (simp add: paging_init_def exec pt_lock_exec mat_ok_def cpu_ok_def set_pdir_base_def enable_paging_def
        s'_def pt_lk_same)
  have ok: "vm_ok s'" "slot_page s' x = None" for x
    by (rule init_vm_ok [OF _ _ _ _ b(2) pd];
        use t in \<open>simp add: s'_def mat_ok_def cpu_ok_def quota_ok_def norm_page_def\<close>)+
  show thesis
  proof (rule that [OF run _ _ _ ok(2)])
    show "paging_ok s'" using ok(1) t(5) by (simp add: paging_ok_def s'_def)
    fix proc i j :: u32 assume i: "proc < NUM_IDS" "i < 1024" "j < 1024" "proc = 0 \<or> i < 256 \<or> 960 \<le> i"
    have e: "PDirPool s' proc i = (b + i) * 4096 + 7"
      using pd [OF i(1,2)] i(4) t(2) by (auto simp: init_pde_def s'_def algebra_simps)
    have "tbl s' proc i = b + i" unfolding tbl_def e by (rule page_of_entry [OF id_page_less(1) [OF b(2) i(2)]]) simp
    then have "pte s' proc i j = (i * 1024 + j) * 4096 + id_perm i"
      using m(2) i(2,3) by (simp add: pte_def id_done_def) (simp add: s'_def)
    moreover have "PDirPool s' proc i \<noteq> 0"
      using e page_of_entry [OF id_page_less(1) [OF b(2) i(2)], of 7] by (cases "b + i = 0") auto
    ultimately show "PDirPool s' proc i \<noteq> 0 \<and> pte s' proc i j = (i * 1024 + j) * 4096 + id_perm i" by simp
  qed (simp_all add: s'_def)
qed

section \<open>Isolation\<close>

text \<open>
  Seen from the addresses: two user addresses that have a page are in different pages of
  physical memory unless they are in the same page of the same process, and no user address
  reaches a page table of any process.
\<close>

abbreviation user_addr :: "u32 \<Rightarrow> u32 \<Rightarrow> bool" where
  "user_addr proc va \<equiv> user_slot proc (va div 4194304)"

definition isolated :: "'z paging_scheme \<Rightarrow> bool" where
  "isolated s \<longleftrightarrow>
     (\<forall>proc va proc' va'. user_addr proc va \<and> user_addr proc' va' \<and> lookup s proc va \<noteq> 0 \<and> lookup s proc' va' \<noteq> 0 \<and>
        lookup s proc va div 4096 = lookup s proc' va' div 4096 \<longrightarrow> proc = proc' \<and> va div 4096 = va' div 4096) \<and>
     (\<forall>proc va proc' i. user_addr proc va \<and> lookup s proc va \<noteq> 0 \<and> proc' < NUM_IDS \<and> i < 1024 \<and> PDirPool s proc' i \<noteq> 0 \<longrightarrow>
        lookup s proc va div 4096 \<noteq> tbl s proc' i)"

lemma lookup_slot:
  "user_addr proc va \<Longrightarrow> lookup s proc va \<noteq> 0 \<Longrightarrow>
   slot_page s (Frm proc (va div 4194304) (va div 4096 mod 1024)) = Some (lookup s proc va div 4096)"
  by (auto simp: lookup_def split: if_splits)

lemma vm_ok_isolated:
  assumes "vm_ok s"
  shows "isolated s"
  unfolding isolated_def
proof (intro conjI allI impI; elim conjE)
  have inj: "x = y" if "slot_page s x = Some p" "slot_page s y = Some p" for x y p
    using that assms unfolding vm_ok_def slots_ok_def by blast
  fix proc va proc' va'
  assume a: "user_addr proc va" "lookup s proc va \<noteq> 0"
  note f = lookup_slot [OF a]
  show "proc = proc'" "va div 4096 = va' div 4096"
    if "user_addr proc' va'" "lookup s proc' va' \<noteq> 0" "lookup s proc va div 4096 = lookup s proc' va' div 4096"
    using inj [OF f, of "Frm proc' (va' div 4194304) (va' div 4096 mod 1024)"] lookup_slot [OF that(1,2)] that(3)
      va_indices [of va va'] by auto
  fix i assume t: "proc' < NUM_IDS" "i < 1024" "PDirPool s proc' i \<noteq> 0"
  show "lookup s proc va div 4096 \<noteq> tbl s proc' i"
  proof (cases "user_slot proc' i")
    case True
    with inj [OF f, of "Tbl proc' i"] t(3) show ?thesis by auto
  next
    case False
    have "norm_page s (lookup s proc va div 4096)" using f assms unfolding vm_ok_def slots_ok_def by blast
    with kern_tbl [OF assms t(1,2) False] assms show ?thesis by (auto simp: vm_ok_def)
  qed
qed

text \<open>
  What happens to the page structures after boot: processes get pages and lose them, and
  quota is handed to child processes after the checks of \<open>sys_spawn\<close>.
\<close>

inductive vm_reach :: "mboot_mmap list \<Rightarrow> 'z paging_scheme \<Rightarrow> bool" for es where
  boot: "boot_ok es s \<Longrightarrow> paging_init es s = Inr ((), s') \<Longrightarrow> vm_reach es s'"
| alloc: "vm_reach es s \<Longrightarrow> user_addr proc va \<Longrightarrow> prm < 4096 \<Longrightarrow>
    alloc_page proc va prm s = Inr (r, s') \<Longrightarrow> vm_reach es s'"
| unmap: "vm_reach es s \<Longrightarrow> user_addr proc va \<Longrightarrow> unmap_page proc va s = Inr (r, s') \<Longrightarrow> vm_reach es s'"
| split: "vm_reach es s \<Longrightarrow> cid < NUM_IDS \<Longrightarrow> \<not> NUM_IDS < cid * MAX_CHILDREN + 1 + MAX_CHILDREN \<Longrightarrow>
    c_nchildren (CONTAINER s cid) < MAX_CHILDREN \<Longrightarrow> container_can_consume cid quota s = Inr (1, s) \<Longrightarrow>
    alloc_mem_quota cid quota s = Inr (child, s') \<Longrightarrow> vm_reach es s'"

lemma paging_ok_split:
  assumes "paging_ok s" "cid < NUM_IDS" "\<not> NUM_IDS < cid * MAX_CHILDREN + 1 + MAX_CHILDREN"
    and "c_nchildren (CONTAINER s cid) < MAX_CHILDREN" "container_can_consume cid quota s = Inr (1, s)"
    and "alloc_mem_quota cid quota s = Inr (child, s')"
  shows "paging_ok s'"
proof -
  note b = child_index_bounds [OF assms(2,4,3)]
  have le: "c_usage (CONTAINER s cid) + quota \<le> c_quota (CONTAINER s cid)"
    using assms(2,5) by (auto simp: container_can_consume_def exec split: if_splits)
  have s': "s' = s\<lparr>CONTAINER := (CONTAINER s)
    (child := \<lparr>c_quota = quota, c_usage = 0, c_parent = cid, c_nchildren = 0, c_used = 1\<rparr>,
     cid := (CONTAINER s cid)\<lparr>c_usage := c_usage (CONTAINER s cid) + quota,
       c_nchildren := c_nchildren (CONTAINER s cid) + 1\<rparr>)\<rparr>"
    using assms(6) b container_split_exec [OF assms(2) refl b(1), of quota] by (auto simp: alloc_mem_quota_def)
  have "quota_ok s'" using assms(1) le by (simp add: s' quota_ok_def paging_ok_def vm_ok_def)
  moreover have "slot_page s' x = slot_page s x" for x by (rule slot_page_cong) (simp_all add: s')
  moreover have "norm_page s' p = norm_page s p" "mat_ok s' = mat_ok s" "kern_ok s' = kern_ok s" "AT s' = AT s"
    "pt_lk s' = pt_lk s" for p
    by (simp_all add: s' norm_page_def mat_ok_def cpu_ok_def kern_ok_def)
  ultimately show ?thesis
    using assms(1) by (simp add: paging_ok_def vm_ok_def slots_ok_def)
qed

lemma vm_reach_ok: "vm_reach es s \<Longrightarrow> paging_ok s"
proof (induction rule: vm_reach.induct)
  case (boot s s')
  show ?case
  proof (rule paging_init_exec [OF boot(1)])
    fix t assume "paging_init es s = Inr ((), t)" "paging_ok t"
    with boot(2) show ?thesis by simp
  qed
next
  case (alloc s proc va prm r s')
  from alloc_page_exec [OF alloc.IH alloc.hyps(2,3)] alloc.hyps(4) show ?case by fastforce
next
  case (unmap s proc va r s')
  from unmap.IH have "vm_ok s" "pt_lk s = lock_init_val" by (simp_all add: paging_ok_def)
  with unmap_page_exec [OF this(1) unmap.hyps(2)] unmap.hyps(3) show ?case
    by (auto simp: paging_ok_def frame_def)
next
  case (split s cid quota child s')
  from split.IH split.hyps(2-6) show ?case by (rule paging_ok_split)
qed

section \<open>Properties\<close>

definition boot_paging :: paging where
  "boot_paging = container.extend sample_container (paging.fields lock_init_val (\<lambda>_. 0) 0x200000 (\<lambda>_ _. 0) 0 False)"

lemma boot_paging_ok: "boot_ok sample_bios boot_paging"
proof -
  have "bios_covered sample_bios MEM_RAM 0" by (simp add: bios_covered_def sample_bios_def entry_end_def)
  then have "\<exists>type a. bios_covered sample_bios type a" by blast
  moreover have "\<exists>b. IDPTbl boot_paging = b * 4096 \<and> b \<le> 0x3FC00"
    by (intro exI [of _ "0x200"]) (simp add: boot_paging_def container.defs paging.defs)
  moreover have "CONTAINER boot_paging = CONTAINER sample_container"
    by (simp add: boot_paging_def container.defs paging.defs)
  then have "quota_ok boot_paging" using sample_container_ok(2) by (simp add: quota_ok_def)
  ultimately show ?thesis
    by (simp add: boot_ok_def)
      (simp add: boot_paging_def container.defs paging.defs sample_container_def sample_mat_def boot_mat_defs
        cpu_ok_def sample_bios_def)
qed

text \<open>
  C9. Turning on paging: \<open>paging_init\<close> returns with paging on and the kernel's own page
  directory in use. Every process sees kernel memory at its physical addresses, process 0 sees
  all memory that way, no user address of any other process is mapped, and the invariant of
  the page structures holds.
\<close>

theorem paging_init_identity:
  assumes "boot_ok es s"
  shows "\<exists>s'. paging_init es s = Inr ((), s') \<and> paging_ok s' \<and> paging_on s' \<and> CR3 s' = 0 \<and>
    (\<forall>proc va. proc < NUM_IDS \<longrightarrow> lookup s' proc va =
      (if user_addr proc va then 0 else va div 4096 * 4096 + id_perm (va div 4194304)))"
proof (rule paging_init_exec [OF assms])
  fix s' assume s': "paging_init es s = Inr ((), s')" "paging_ok s'" "paging_on s'" "CR3 s' = 0"
    and none: "\<And>x. slot_page s' x = None"
    and idm: "\<And>proc i j. proc < NUM_IDS \<Longrightarrow> i < 1024 \<Longrightarrow> j < 1024 \<Longrightarrow> proc = 0 \<or> i < 256 \<or> 960 \<le> i \<Longrightarrow>
       PDirPool s' proc i \<noteq> 0 \<and> pte s' proc i j = (i * 1024 + j) * 4096 + id_perm i"
  have "lookup s' proc va = (if user_addr proc va then 0 else va div 4096 * 4096 + id_perm (va div 4194304))"
    if "proc < NUM_IDS" for proc va
  proof (cases "user_addr proc va")
    case True
    with none [of "Tbl proc (va div 4194304)"] show ?thesis by (auto simp: lookup_def split: if_splits)
  next
    case False
    then have "proc = 0 \<or> va div 4194304 < 256 \<or> 960 \<le> va div 4194304"
      using that by (auto simp: user_slot_def word_gt_0 not_less)
    moreover have "va div 4194304 * 1024 + va div 4096 mod 1024 = va div 4096"
      unfolding dir_index by (rule div_mult_mod_eq)
    ultimately show ?thesis
      using False idm [OF that va_bounds(1) va_bounds(2), of va va] by (simp add: lookup_def)
  qed
  with s' show ?thesis by blast
qed

theorem paging_init_identity_witness:
  "\<exists>s'. paging_init sample_bios boot_paging = Inr ((), s') \<and> paging_ok s' \<and> lookup s' 5 0x123456 = 0x123103"
proof -
  obtain s' where "paging_init sample_bios boot_paging = Inr ((), s')" "paging_ok s'"
    "\<forall>proc va. proc < NUM_IDS \<longrightarrow> lookup s' proc va =
      (if user_addr proc va then 0 else va div 4096 * 4096 + id_perm (va div 4194304))"
    using paging_init_identity [OF boot_paging_ok] by blast
  then show ?thesis by (auto simp: user_slot_def id_perm_def)
qed


lemma boot_paging_booted: "\<exists>s. paging_ok s \<and> vm_reach sample_bios (s :: paging)"
proof (rule paging_init_exec [OF boot_paging_ok])
  fix s' assume "paging_init sample_bios boot_paging = Inr ((), s')" "paging_ok s'"
  with boot_paging_ok show ?thesis by (blast intro: vm_reach.boot)
qed


text \<open>
  C8. Taking a page away: \<open>unmap_page\<close> returns the entry the address had, leaves the address
  unmapped, changes no other address of any process and keeps the invariant.
\<close>

theorem unmap_page_correct:
  assumes "paging_ok s" and "user_addr proc va"
  shows "\<exists>s'. unmap_page proc va s = Inr (lookup s proc va, s') \<and> paging_ok s' \<and>
    (\<forall>proc' < NUM_IDS. \<forall>va'. lookup s' proc' va' =
       (if proc' = proc \<and> va' div 4096 = va div 4096 then 0 else lookup s proc' va'))"
  using unmap_page_exec [of s proc va] assms by (auto simp: paging_ok_def frame_def mapped_def)

theorem unmap_page_correct_witness:
  "\<exists>s s'. paging_ok (s :: paging) \<and> unmap_page 3 0x40001000 s = Inr (lookup s 3 0x40001000, s') \<and> paging_ok s'"
proof -
  obtain s :: paging where "paging_ok s" using boot_paging_booted by blast
  with unmap_page_correct [OF this, of 3 "0x40001000"] show ?thesis
    by (auto simp: user_slot_def)
qed



end
