(* ===== verification/Thread_Queue.thy ===== *)
theory Thread_Queue
  imports Paging
begin

text \<open>
  Thread control blocks and thread queues (\<open>kern/thread/PTCBIntro\<close>, \<open>PTCBInit\<close>, \<open>PTQueueIntro\<close>,
  \<open>PTQueueInit\<close>). A queue is a doubly linked list threaded through the control blocks by index,
  with \<open>NUM_IDS\<close> as the null index. The locale \<open>thread_queue\<close> is what the scheduler relies on; its
  interpretation shows that the linked lists implement queues of process numbers.
\<close>

section \<open>State\<close>

datatype t_state = TSTATE_READY | TSTATE_RUN | TSTATE_SLEEP | TSTATE_DEAD

text \<open>
  The addresses threads sleep on: a disk buffer, the log, an inode, the two counters of a pipe,
  and the two condition variables of a message slot.
\<close>

datatype chan = ChNull | ChBuf nat | ChLog | ChInode nat | ChNread nat | ChNwrite nat
  | ChSendCv u32 | ChRecvCv u32

record sigaction =
  sa_handler :: u32
  sa_sigaction :: u32
  sa_flags :: u32
  sa_restorer :: u32
  sa_mask :: u32

definition zero_sigaction :: sigaction where
  "zero_sigaction = \<lparr>sa_handler = 0, sa_sigaction = 0, sa_flags = 0, sa_restorer = 0, sa_mask = 0\<rparr>"

record sig_state =
  sigactions :: "u32 \<Rightarrow> sigaction"
  pending_signals :: u32
  signal_block_mask :: u32
  saved_esp_addr :: u32
  saved_eip_addr :: u32
  in_signal_handler :: u32

definition zero_sig_state :: sig_state where
  "zero_sig_state = \<lparr>sigactions = (\<lambda>_. zero_sigaction), pending_signals = 0, signal_block_mask = 0,
     saved_esp_addr = 0, saved_eip_addr = 0, in_signal_handler = 0\<rparr>"

text \<open>Open files and the working directory are entries of the file table and the inode cache.\<close>

record TCB =
  tstate :: t_state
  tprev :: u32
  tnext :: u32
  tchannel :: chan
  topenfiles :: "u32 \<Rightarrow> nat option"
  tcwd :: "nat option"
  tsigstate :: sig_state

record TQueue =
  qhead :: u32
  qtail :: u32

record tqueues = paging +
  TCBPool :: "u32 \<Rightarrow> TCB"
  TQueuePool :: "u32 \<Rightarrow> u32 \<Rightarrow> TQueue"

abbreviation (input) NSIG :: u32 where "NSIG \<equiv> 32"
abbreviation (input) NOFILE :: u32 where "NOFILE \<equiv> 16"

section \<open>PTCBIntro\<close>

definition get_tcb :: "u32 \<Rightarrow> (TCB \<Rightarrow> 'a) \<Rightarrow> ('z tqueues_scheme, 'a) kop" where
  "get_tcb pid f = seq (in_bounds (pid < NUM_IDS)) (gets (\<lambda>s. f (TCBPool s pid)))"

definition set_tcb :: "u32 \<Rightarrow> (TCB \<Rightarrow> TCB) \<Rightarrow> ('z tqueues_scheme, unit) kop" where
  "set_tcb pid f =
     seq (in_bounds (pid < NUM_IDS)) (modify (\<lambda>s. s\<lparr>TCBPool := (TCBPool s)(pid := f (TCBPool s pid))\<rparr>))"

definition tcb_get_state :: "u32 \<Rightarrow> ('z tqueues_scheme, t_state) kop" where
  "tcb_get_state pid = get_tcb pid tstate"

definition tcb_set_state :: "u32 \<Rightarrow> t_state \<Rightarrow> ('z tqueues_scheme, unit) kop" where
  "tcb_set_state pid st = set_tcb pid (tstate_update (\<lambda>_. st))"

definition tcb_get_prev :: "u32 \<Rightarrow> ('z tqueues_scheme, u32) kop" where
  "tcb_get_prev pid = get_tcb pid tprev"

definition tcb_set_prev :: "u32 \<Rightarrow> u32 \<Rightarrow> ('z tqueues_scheme, unit) kop" where
  "tcb_set_prev pid prev_pid = set_tcb pid (tprev_update (\<lambda>_. prev_pid))"

definition tcb_get_next :: "u32 \<Rightarrow> ('z tqueues_scheme, u32) kop" where
  "tcb_get_next pid = get_tcb pid tnext"

definition tcb_set_next :: "u32 \<Rightarrow> u32 \<Rightarrow> ('z tqueues_scheme, unit) kop" where
  "tcb_set_next pid next_pid = set_tcb pid (tnext_update (\<lambda>_. next_pid))"

text \<open>The first parameter is not used by the function body.\<close>

definition tcb_init_at_id :: "u32 \<Rightarrow> u32 \<Rightarrow> ('z tqueues_scheme, unit) kop" where
  "tcb_init_at_id cpu_idx pid = set_tcb pid (\<lambda>_.
     \<lparr>tstate = TSTATE_DEAD, tprev = NUM_IDS, tnext = NUM_IDS, tchannel = ChNull, topenfiles = (\<lambda>_. None),
      tcwd = None, tsigstate = zero_sig_state\<rparr>)"

definition tcb_get_chan :: "u32 \<Rightarrow> ('z tqueues_scheme, chan) kop" where
  "tcb_get_chan pid = get_tcb pid tchannel"

definition tcb_set_chan :: "u32 \<Rightarrow> chan \<Rightarrow> ('z tqueues_scheme, unit) kop" where
  "tcb_set_chan pid ch = set_tcb pid (tchannel_update (\<lambda>_. ch))"

definition tcb_get_openfiles :: "u32 \<Rightarrow> ('z tqueues_scheme, u32 \<Rightarrow> nat option) kop" where
  "tcb_get_openfiles pid = get_tcb pid topenfiles"

definition tcb_set_openfiles :: "u32 \<Rightarrow> u32 \<Rightarrow> nat option \<Rightarrow> ('z tqueues_scheme, unit) kop" where
  "tcb_set_openfiles pid fd f =
     seq (in_bounds (fd < NOFILE)) (set_tcb pid (\<lambda>t. t\<lparr>topenfiles := (topenfiles t)(fd := f)\<rparr>))"

definition tcb_get_cwd :: "u32 \<Rightarrow> ('z tqueues_scheme, nat option) kop" where
  "tcb_get_cwd pid = get_tcb pid tcwd"

definition tcb_set_cwd :: "u32 \<Rightarrow> nat option \<Rightarrow> ('z tqueues_scheme, unit) kop" where
  "tcb_set_cwd pid d = set_tcb pid (tcwd_update (\<lambda>_. d))"

text \<open>\<open>signum\<close> is a signed \<open>int\<close>.\<close>

definition valid_signum :: "u32 \<Rightarrow> bool" where
  "valid_signum signum \<longleftrightarrow> \<not> signum <s 0 \<and> signum <s NSIG"

definition tcb_get_sigaction :: "u32 \<Rightarrow> u32 \<Rightarrow> ('z tqueues_scheme, sigaction option) kop" where
  "tcb_get_sigaction pid signum =
     (if \<not> valid_signum signum then ret None
      else get_tcb pid (\<lambda>t. Some (sigactions (tsigstate t) signum)))"

definition upd_sigstate :: "u32 \<Rightarrow> (sig_state \<Rightarrow> sig_state) \<Rightarrow> ('z tqueues_scheme, unit) kop" where
  "upd_sigstate pid f = set_tcb pid (tsigstate_update f)"

definition tcb_set_sigaction :: "u32 \<Rightarrow> u32 \<Rightarrow> sigaction option \<Rightarrow> ('z tqueues_scheme, unit) kop" where
  "tcb_set_sigaction pid signum act =
     (case act of None \<Rightarrow> ret ()
      | Some a \<Rightarrow> when_true (valid_signum signum)
          (upd_sigstate pid (\<lambda>g. g\<lparr>sigactions := (sigactions g)(signum := a)\<rparr>)))"

definition tcb_get_pending_signals :: "u32 \<Rightarrow> ('z tqueues_scheme, u32) kop" where
  "tcb_get_pending_signals pid = get_tcb pid (\<lambda>t. pending_signals (tsigstate t))"

definition tcb_set_pending_signals :: "u32 \<Rightarrow> u32 \<Rightarrow> ('z tqueues_scheme, unit) kop" where
  "tcb_set_pending_signals pid signals = upd_sigstate pid (pending_signals_update (\<lambda>_. signals))"

definition tcb_add_pending_signal :: "u32 \<Rightarrow> u32 \<Rightarrow> ('z tqueues_scheme, unit) kop" where
  "tcb_add_pending_signal pid signum =
     when_true (valid_signum signum)
       (upd_sigstate pid (\<lambda>g. g\<lparr>pending_signals := pending_signals g OR push_bit (unat signum) 1\<rparr>))"

definition tcb_clear_pending_signal :: "u32 \<Rightarrow> u32 \<Rightarrow> ('z tqueues_scheme, unit) kop" where
  "tcb_clear_pending_signal pid signum =
     when_true (valid_signum signum)
       (upd_sigstate pid (\<lambda>g. g\<lparr>pending_signals := pending_signals g AND NOT (push_bit (unat signum) 1)\<rparr>))"

definition tcb_set_signal_context :: "u32 \<Rightarrow> u32 \<Rightarrow> u32 \<Rightarrow> ('z tqueues_scheme, unit) kop" where
  "tcb_set_signal_context pid esp_addr eip_addr =
     upd_sigstate pid (\<lambda>g. g\<lparr>saved_esp_addr := esp_addr, saved_eip_addr := eip_addr, in_signal_handler := 1\<rparr>)"

definition tcb_get_signal_context :: "u32 \<Rightarrow> ('z tqueues_scheme, u32 \<times> u32) kop" where
  "tcb_get_signal_context pid =
     get_tcb pid (\<lambda>t. (saved_esp_addr (tsigstate t), saved_eip_addr (tsigstate t)))"

definition tcb_clear_signal_context :: "u32 \<Rightarrow> ('z tqueues_scheme, unit) kop" where
  "tcb_clear_signal_context pid =
     upd_sigstate pid (\<lambda>g. g\<lparr>saved_esp_addr := 0, saved_eip_addr := 0, in_signal_handler := 0\<rparr>)"

definition tcb_in_signal_handler :: "u32 \<Rightarrow> ('z tqueues_scheme, u32) kop" where
  "tcb_in_signal_handler pid = get_tcb pid (\<lambda>t. in_signal_handler (tsigstate t))"

definition tcb_is_sleeping :: "u32 \<Rightarrow> ('z tqueues_scheme, u32) kop" where
  "tcb_is_sleeping pid = get_tcb pid (\<lambda>t. if tstate t = TSTATE_SLEEP then 1 else 0)"

definition tcb_get_channel :: "u32 \<Rightarrow> ('z tqueues_scheme, chan) kop" where
  "tcb_get_channel pid = get_tcb pid tchannel"

section \<open>PTCBInit\<close>

text \<open>
  The header that \<open>PTCBInit.c\<close> includes declares \<open>tcb_init_at_id\<close> with one parameter, so the loop
  passes \<open>pid\<close> as \<open>cpu_idx\<close> and the callee reads \<open>pid\<close> from a stack slot the caller did not set.
  \<open>slot\<close> stands for what that slot holds at the call in iteration \<open>pid\<close>.
\<close>

definition tcb_init :: "(u32 \<Rightarrow> u32) \<Rightarrow> mboot_mmap list \<Rightarrow> ('z tqueues_scheme, unit) kop" where
  "tcb_init slot mbi =
     seq (paging_init mbi) (for_loop 0 NUM_IDS (\<lambda>pid. tcb_init_at_id pid (slot pid)))"

section \<open>PTQueueIntro\<close>

definition get_tqueue :: "u32 \<Rightarrow> (TQueue \<Rightarrow> 'a) \<Rightarrow> ('z tqueues_scheme, 'a) kop" where
  "get_tqueue chid f =
     bind get_pcpu_idx (\<lambda>cpu. seq (in_bounds (cpu < NUM_CPUS \<and> chid \<le> NUM_IDS)) (gets (\<lambda>s. f (TQueuePool s cpu chid))))"

definition set_tqueue :: "u32 \<Rightarrow> (TQueue \<Rightarrow> TQueue) \<Rightarrow> ('z tqueues_scheme, unit) kop" where
  "set_tqueue chid f =
     bind get_pcpu_idx (\<lambda>cpu. seq (in_bounds (cpu < NUM_CPUS \<and> chid \<le> NUM_IDS))
       (modify (\<lambda>s. s\<lparr>TQueuePool := (TQueuePool s)(cpu := (TQueuePool s cpu)(chid := f (TQueuePool s cpu chid)))\<rparr>)))"

definition tqueue_get_head :: "u32 \<Rightarrow> ('z tqueues_scheme, u32) kop" where
  "tqueue_get_head chid = get_tqueue chid qhead"

definition tqueue_set_head :: "u32 \<Rightarrow> u32 \<Rightarrow> ('z tqueues_scheme, unit) kop" where
  "tqueue_set_head chid h = set_tqueue chid (qhead_update (\<lambda>_. h))"

definition tqueue_get_tail :: "u32 \<Rightarrow> ('z tqueues_scheme, u32) kop" where
  "tqueue_get_tail chid = get_tqueue chid qtail"

definition tqueue_set_tail :: "u32 \<Rightarrow> u32 \<Rightarrow> ('z tqueues_scheme, unit) kop" where
  "tqueue_set_tail chid t = set_tqueue chid (qtail_update (\<lambda>_. t))"

definition tqueue_init_at_id :: "u32 \<Rightarrow> u32 \<Rightarrow> ('z tqueues_scheme, unit) kop" where
  "tqueue_init_at_id cpu_idx chid =
     seq (in_bounds (cpu_idx < NUM_CPUS \<and> chid \<le> NUM_IDS))
       (modify (\<lambda>s. s\<lparr>TQueuePool := (TQueuePool s)(cpu_idx := (TQueuePool s cpu_idx)
          (chid := \<lparr>qhead = NUM_IDS, qtail = NUM_IDS\<rparr>))\<rparr>))"

section \<open>PTQueueInit\<close>

definition tqueue_init :: "(u32 \<Rightarrow> u32) \<Rightarrow> mboot_mmap list \<Rightarrow> ('z tqueues_scheme, unit) kop" where
  "tqueue_init slot mbi =
     seq (tcb_init slot mbi)
       (for_loop 0 NUM_CPUS (\<lambda>cpu_idx. for_loop 0 (NUM_IDS + 1) (tqueue_init_at_id cpu_idx)))"

definition tqueue_enqueue :: "u32 \<Rightarrow> u32 \<Rightarrow> ('z tqueues_scheme, unit) kop" where
  "tqueue_enqueue chid pid =
     bind (tqueue_get_tail chid) (\<lambda>tail.
     if tail = NUM_IDS
     then block [tcb_set_prev pid NUM_IDS, tcb_set_next pid NUM_IDS, tqueue_set_head chid pid, tqueue_set_tail chid pid]
     else block [tcb_set_next tail pid, tcb_set_prev pid tail, tcb_set_next pid NUM_IDS, tqueue_set_tail chid pid])"

definition tqueue_dequeue :: "u32 \<Rightarrow> ('z tqueues_scheme, u32) kop" where
  "tqueue_dequeue chid =
     bind (tqueue_get_head chid) (\<lambda>head.
     if head \<noteq> NUM_IDS
     then bind (tcb_get_next head) (\<lambda>next.
          seq (if next = NUM_IDS
               then block [tqueue_set_head chid NUM_IDS, tqueue_set_tail chid NUM_IDS]
               else block [tcb_set_prev next NUM_IDS, tqueue_set_head chid next])
          (seq (tcb_set_prev head NUM_IDS) (seq (tcb_set_next head NUM_IDS) (ret head))))
     else ret NUM_IDS)"

definition tqueue_remove :: "u32 \<Rightarrow> u32 \<Rightarrow> ('z tqueues_scheme, unit) kop" where
  "tqueue_remove chid pid =
     bind (tqueue_get_head chid) (\<lambda>head.
     bind (tqueue_get_tail chid) (\<lambda>tail.
     bind (tcb_get_prev pid) (\<lambda>prev.
     bind (tcb_get_next pid) (\<lambda>next.
     if prev = NUM_IDS \<and> next = NUM_IDS \<and> head \<noteq> pid then ret ()
     else seq (if prev = NUM_IDS
               then if next = NUM_IDS
                    then block [tqueue_set_head chid NUM_IDS, tqueue_set_tail chid NUM_IDS]
                    else block [tcb_set_prev next NUM_IDS, tqueue_set_head chid next]
               else if next = NUM_IDS
                    then block [tcb_set_next prev NUM_IDS, tqueue_set_tail chid prev]
                    else block [tcb_set_next prev next, tcb_set_prev next prev])
          (block [tcb_set_prev pid NUM_IDS, tcb_set_next pid NUM_IDS])))))"

section \<open>Execution\<close>

lemma get_tcb_exec [exec]: "pid < NUM_IDS \<Longrightarrow> get_tcb pid f s = Inr (f (TCBPool s pid), s)"
  by (simp add: get_tcb_def exec)

lemma set_tcb_exec [exec]:
  "pid < NUM_IDS \<Longrightarrow> set_tcb pid f s = Inr ((), s\<lparr>TCBPool := (TCBPool s)(pid := f (TCBPool s pid))\<rparr>)"
  by (simp add: set_tcb_def exec)

lemma cpu_ok_less: "cpu_ok s \<Longrightarrow> kstack_cpu_idx s < NUM_CPUS"
  by (simp add: cpu_ok_def)

lemma get_tqueue_exec [exec]:
  "cpu_ok s \<Longrightarrow> chid \<le> NUM_IDS \<Longrightarrow> get_tqueue chid f s = Inr (f (TQueuePool s (kstack_cpu_idx s) chid), s)"
  by (simp add: get_tqueue_def exec cpu_ok_less)

lemma set_tqueue_exec [exec]:
  "cpu_ok s \<Longrightarrow> chid \<le> NUM_IDS \<Longrightarrow> set_tqueue chid f s = Inr ((), s\<lparr>TQueuePool := (TQueuePool s)
     (kstack_cpu_idx s := (TQueuePool s (kstack_cpu_idx s))(chid := f (TQueuePool s (kstack_cpu_idx s) chid)))\<rparr>)"
  by (simp add: set_tqueue_def exec cpu_ok_less)

lemma cpu_ok_TCBPool [simp]: "cpu_ok (s\<lparr>TCBPool := t\<rparr>) = cpu_ok s"
  and cpu_ok_TQueuePool [simp]: "cpu_ok (s\<lparr>TQueuePool := q\<rparr>) = cpu_ok s"
  by (simp_all add: cpu_ok_def)

lemmas tcb_ops = tcb_get_state_def tcb_set_state_def tcb_get_prev_def tcb_set_prev_def tcb_get_next_def
  tcb_set_next_def tcb_get_chan_def tcb_set_chan_def tcb_get_channel_def tcb_is_sleeping_def

lemmas tqueue_ops = tqueue_get_head_def tqueue_set_head_def tqueue_get_tail_def tqueue_set_tail_def

section \<open>Linked lists\<close>

text \<open>
  \<open>dlseg T p xs n\<close>: the control blocks of \<open>xs\<close> are linked in this order, the first one pointing
  back to \<open>p\<close> and the last one on to \<open>n\<close>.
\<close>

fun dlseg :: "(u32 \<Rightarrow> TCB) \<Rightarrow> u32 \<Rightarrow> u32 list \<Rightarrow> u32 \<Rightarrow> bool" where
  "dlseg T p [] n \<longleftrightarrow> True"
| "dlseg T p (x # xs) n \<longleftrightarrow> tprev (T x) = p \<and> tnext (T x) = (if xs = [] then n else hd xs) \<and> dlseg T x xs n"

lemma dlseg_append:
  "dlseg T p (xs @ ys) n \<longleftrightarrow>
     dlseg T p xs (if ys = [] then n else hd ys) \<and> dlseg T (if xs = [] then p else last xs) ys n"
  by (induction xs arbitrary: p) auto

lemma dlseg_cong:
  "(\<And>x. x \<in> set xs \<Longrightarrow> tprev (T' x) = tprev (T x) \<and> tnext (T' x) = tnext (T x)) \<Longrightarrow>
   dlseg T' p xs n = dlseg T p xs n"
  by (induction xs arbitrary: p) auto

lemma dlseg_set_next:
  assumes "dlseg T p xs n" "xs \<noteq> []" "distinct xs"
    and "tprev (T' (last xs)) = tprev (T (last xs))" "tnext (T' (last xs)) = n'"
    and "\<And>x. x \<in> set (butlast xs) \<Longrightarrow> tprev (T' x) = tprev (T x) \<and> tnext (T' x) = tnext (T x)"
  shows "dlseg T' p xs n'"
proof -
  obtain ys y where xs: "xs = ys @ [y]" using assms(2) by (metis rev_exhaust)
  with assms have "dlseg T p ys y" "tprev (T y) = (if ys = [] then p else last ys)"
    by (simp_all add: dlseg_append)
  with assms(4-6) xs dlseg_cong [of ys T' T] show ?thesis by (simp add: dlseg_append)
qed

lemma dlseg_set_prev:
  assumes "dlseg T p xs n" "xs \<noteq> []" "distinct xs"
    and "tnext (T' (hd xs)) = tnext (T (hd xs))" "tprev (T' (hd xs)) = p'"
    and "\<And>x. x \<in> set (tl xs) \<Longrightarrow> tprev (T' x) = tprev (T x) \<and> tnext (T' x) = tnext (T x)"
  shows "dlseg T' p' xs n"
  using assms dlseg_cong [of "tl xs" T' T] by (cases xs) auto

text \<open>The abstraction of a queue of the current processor.\<close>

definition queue_rep :: "'z tqueues_scheme \<Rightarrow> u32 \<Rightarrow> u32 list \<Rightarrow> bool" where
  "queue_rep s chid xs \<longleftrightarrow>
     (\<forall>p \<in> set xs. p < NUM_IDS) \<and> distinct xs \<and>
     qhead (TQueuePool s (kstack_cpu_idx s) chid) = (if xs = [] then NUM_IDS else hd xs) \<and>
     qtail (TQueuePool s (kstack_cpu_idx s) chid) = (if xs = [] then NUM_IDS else last xs) \<and>
     dlseg (TCBPool s) NUM_IDS xs NUM_IDS"

text \<open>Only the links of the control blocks differ.\<close>

definition relinked :: "(u32 \<Rightarrow> TCB) \<Rightarrow> (u32 \<Rightarrow> TCB) \<Rightarrow> bool" where
  "relinked T T' \<longleftrightarrow> (\<forall>p. T' p = (T p)\<lparr>tprev := tprev (T' p), tnext := tnext (T' p)\<rparr>)"

lemma relinkedI: "(\<And>p. T' p = (T p)\<lparr>tprev := tprev (T' p), tnext := tnext (T' p)\<rparr>) \<Longrightarrow> relinked T T'"
  by (simp add: relinked_def)

lemma relinked_simps:
  assumes "relinked T T'"
  shows "tstate (T' p) = tstate (T p)" "tchannel (T' p) = tchannel (T p)" "topenfiles (T' p) = topenfiles (T p)"
    "tcwd (T' p) = tcwd (T p)" "tsigstate (T' p) = tsigstate (T p)"
proof -
  have "T' p = (T p)\<lparr>tprev := tprev (T' p), tnext := tnext (T' p)\<rparr>" using assms by (simp add: relinked_def)
  then show "tstate (T' p) = tstate (T p)" "tchannel (T' p) = tchannel (T p)" "topenfiles (T' p) = topenfiles (T p)"
    "tcwd (T' p) = tcwd (T p)" "tsigstate (T' p) = tsigstate (T p)"
    by (metis TCB.select_convs TCB.surjective TCB.update_convs(2,3))+
qed

lemma relinked_refl [simp]: "relinked T T"
  by (simp add: relinked_def)

lemma relinked_iff:
  "relinked T T' \<longleftrightarrow> (\<forall>p. tstate (T' p) = tstate (T p) \<and> tchannel (T' p) = tchannel (T p) \<and>
     topenfiles (T' p) = topenfiles (T p) \<and> tcwd (T' p) = tcwd (T p) \<and> tsigstate (T' p) = tsigstate (T p))"
proof
  assume "\<forall>p. tstate (T' p) = tstate (T p) \<and> tchannel (T' p) = tchannel (T p) \<and>
     topenfiles (T' p) = topenfiles (T p) \<and> tcwd (T' p) = tcwd (T p) \<and> tsigstate (T' p) = tsigstate (T p)"
  then show "relinked T T'" by (auto simp: relinked_def intro!: TCB.equality)
qed (simp add: relinked_simps)

lemma relinked_trans: "relinked T T' \<Longrightarrow> relinked T' T'' \<Longrightarrow> relinked T T''"
  by (simp add: relinked_iff)

lemma relinked_state:
  "relinked T T' \<Longrightarrow> relinked (T(p := (T p)\<lparr>tstate := v\<rparr>)) (T'(p := (T' p)\<lparr>tstate := v\<rparr>))"
  by (simp add: relinked_iff)

lemma queue_rep_bounds:
  assumes "queue_rep s c xs" "x \<in> set xs" shows "x < NUM_IDS" "x \<noteq> NUM_IDS"
  using assms by (auto simp: queue_rep_def)

section \<open>The queue operations\<close>

abbreviation with_queue :: "'z tqueues_scheme \<Rightarrow> (u32 \<Rightarrow> TCB) \<Rightarrow> u32 \<Rightarrow> TQueue \<Rightarrow> 'z tqueues_scheme" where
  "with_queue s T c q \<equiv> s\<lparr>TCBPool := T, TQueuePool := (TQueuePool s)
     (kstack_cpu_idx s := (TQueuePool s (kstack_cpu_idx s))(c := q))\<rparr>"

lemma queue_rep_with_queue:
  "queue_rep (with_queue s T c q) c xs \<longleftrightarrow>
     (\<forall>p \<in> set xs. p < NUM_IDS) \<and> distinct xs \<and> qhead q = (if xs = [] then NUM_IDS else hd xs) \<and>
     qtail q = (if xs = [] then NUM_IDS else last xs) \<and> dlseg T NUM_IDS xs NUM_IDS"
  by (simp add: queue_rep_def)

lemma tqueue_enqueue_exec:
  assumes "cpu_ok s" "c \<le> NUM_IDS" "queue_rep s c xs" "p < NUM_IDS" "p \<notin> set xs"
  shows "\<exists>T q. tqueue_enqueue c p s = Inr ((), with_queue s T c q) \<and>
    queue_rep (with_queue s T c q) c (xs @ [p]) \<and> relinked (TCBPool s) T \<and>
    (\<forall>x. x \<notin> set xs \<and> x \<noteq> p \<longrightarrow> T x = TCBPool s x)"
proof (cases "xs = []")
  case True
  let ?T = "(TCBPool s)(p := (TCBPool s p)\<lparr>tprev := NUM_IDS, tnext := NUM_IDS\<rparr>)" and ?q = "(TQueuePool s (kstack_cpu_idx s) c)\<lparr>qhead := p, qtail := p\<rparr>"
  have "tqueue_enqueue c p s = Inr ((), with_queue s ?T c ?q)"
    using assms True by (simp add: tqueue_enqueue_def tcb_ops tqueue_ops exec queue_rep_def)
  moreover have "queue_rep (with_queue s ?T c ?q) c (xs @ [p])"
    using True assms(4) by (simp add: queue_rep_with_queue)
  moreover have "relinked (TCBPool s) ?T" by (rule relinkedI) simp
  moreover have "\<forall>x. x \<notin> set xs \<and> x \<noteq> p \<longrightarrow> ?T x = TCBPool s x" by simp
  ultimately show ?thesis by blast
next
  case False
  let ?l = "last xs"
  have l: "?l < NUM_IDS" "?l \<noteq> NUM_IDS" "?l \<noteq> p"
    using False assms(3,5) queue_rep_bounds [OF assms(3), of ?l] by auto
  let ?T = "(TCBPool s)(?l := (TCBPool s ?l)\<lparr>tnext := p\<rparr>, p := (TCBPool s p)\<lparr>tprev := ?l, tnext := NUM_IDS\<rparr>)"
  let ?q = "(TQueuePool s (kstack_cpu_idx s) c)\<lparr>qtail := p\<rparr>"
  have r: "tqueue_enqueue c p s = Inr ((), with_queue s ?T c ?q)"
    using assms False l by (simp add: tqueue_enqueue_def tcb_ops tqueue_ops exec queue_rep_def)
  have d: "dlseg (TCBPool s) NUM_IDS xs NUM_IDS" "distinct xs" using assms(3) by (simp_all add: queue_rep_def)
  have "?T x = TCBPool s x" if "x \<in> set (butlast xs)" for x
  proof -
    have "x \<noteq> ?l" using that d(2) False by (metis append_butlast_last_id distinct_append disjoint_iff in_set_conv_decomp list.set_intros(1))
    moreover have "x \<noteq> p" using that assms(5) by (auto dest: in_set_butlastD)
    ultimately show ?thesis by simp
  qed
  then have "dlseg ?T NUM_IDS xs p"
    using l by (intro dlseg_set_next [OF d(1) False d(2)]) auto
  then have "queue_rep (with_queue s ?T c ?q) c (xs @ [p])"
    using False assms(3,4,5) by (auto simp: queue_rep_with_queue dlseg_append queue_rep_def)
  moreover have "relinked (TCBPool s) ?T" using l(3) by (intro relinkedI) simp
  moreover have "\<forall>x. x \<notin> set xs \<and> x \<noteq> p \<longrightarrow> ?T x = TCBPool s x" using False by auto
  ultimately show ?thesis using r by blast
qed

lemma tqueue_dequeue_empty:
  "cpu_ok s \<Longrightarrow> c \<le> NUM_IDS \<Longrightarrow> queue_rep s c [] \<Longrightarrow> tqueue_dequeue c s = Inr (NUM_IDS, s)"
  by (simp add: tqueue_dequeue_def tqueue_ops exec queue_rep_def)

lemma tqueue_dequeue_exec:
  assumes "cpu_ok s" "c \<le> NUM_IDS" "queue_rep s c (x # xs)"
  shows "\<exists>T q. tqueue_dequeue c s = Inr (x, with_queue s T c q) \<and>
    queue_rep (with_queue s T c q) c xs \<and> relinked (TCBPool s) T \<and>
    tprev (T x) = NUM_IDS \<and> tnext (T x) = NUM_IDS \<and> (\<forall>y. y \<notin> set (x # xs) \<longrightarrow> T y = TCBPool s y)"
proof (cases "xs = []")
  case True
  let ?T = "(TCBPool s)(x := (TCBPool s x)\<lparr>tprev := NUM_IDS, tnext := NUM_IDS\<rparr>)" and ?q = "(TQueuePool s (kstack_cpu_idx s) c)\<lparr>qhead := NUM_IDS, qtail := NUM_IDS\<rparr>"
  have x: "x < NUM_IDS" "x \<noteq> NUM_IDS" using queue_rep_bounds [OF assms(3), of x] by auto
  have "tqueue_dequeue c s = Inr (x, with_queue s ?T c ?q)"
    using assms True x by (simp add: tqueue_dequeue_def tcb_ops tqueue_ops exec queue_rep_def)
  moreover have "queue_rep (with_queue s ?T c ?q) c xs" using True by (simp add: queue_rep_with_queue)
  moreover have "relinked (TCBPool s) ?T" by (rule relinkedI) simp
  moreover have "tprev (?T x) = NUM_IDS" "tnext (?T x) = NUM_IDS" "\<forall>y. y \<notin> set (x # xs) \<longrightarrow> ?T y = TCBPool s y"
    by simp_all
  ultimately show ?thesis by blast
next
  case False
  let ?h = "hd xs"
  have x: "x < NUM_IDS" "x \<noteq> NUM_IDS" "?h < NUM_IDS" "?h \<noteq> NUM_IDS" "x \<noteq> ?h"
    using queue_rep_bounds [OF assms(3), of x] queue_rep_bounds [OF assms(3), of ?h] False assms(3)
    by (auto simp: queue_rep_def)
  let ?T = "(TCBPool s)(?h := (TCBPool s ?h)\<lparr>tprev := NUM_IDS\<rparr>, x := (TCBPool s x)\<lparr>tprev := NUM_IDS, tnext := NUM_IDS\<rparr>)"
  let ?q = "(TQueuePool s (kstack_cpu_idx s) c)\<lparr>qhead := ?h\<rparr>"
  have r: "tqueue_dequeue c s = Inr (x, with_queue s ?T c ?q)"
    using assms False x by (simp add: tqueue_dequeue_def tcb_ops tqueue_ops exec queue_rep_def)
  have d: "dlseg (TCBPool s) x xs NUM_IDS" "distinct xs" "x \<notin> set xs" using assms(3) by (simp_all add: queue_rep_def)
  have "?T y = TCBPool s y" if "y \<in> set (tl xs)" for y
  proof -
    have "y \<noteq> ?h" using that d(2) False by (cases xs) auto
    moreover have "y \<noteq> x" using that d(3) by (cases xs) auto
    ultimately show ?thesis by simp
  qed
  then have "dlseg ?T NUM_IDS xs NUM_IDS"
    using x by (intro dlseg_set_prev [OF d(1) False d(2)]) auto
  then have "queue_rep (with_queue s ?T c ?q) c xs"
    using False assms(3) by (auto simp: queue_rep_with_queue queue_rep_def)
  moreover have "relinked (TCBPool s) ?T" using x(5) by (intro relinkedI) simp
  moreover have "tprev (?T x) = NUM_IDS" "tnext (?T x) = NUM_IDS" "\<forall>y. y \<notin> set (x # xs) \<longrightarrow> ?T y = TCBPool s y"
    using False by auto
  ultimately show ?thesis using r by blast
qed

text \<open>The links of an element in the middle, at the front and at the back of a queue.\<close>

lemma queue_rep_split:
  assumes "queue_rep s c (as @ p # bs)"
  shows "tprev (TCBPool s p) = (if as = [] then NUM_IDS else last as)"
    and "tnext (TCBPool s p) = (if bs = [] then NUM_IDS else hd bs)"
    and "dlseg (TCBPool s) NUM_IDS as p" "dlseg (TCBPool s) p bs NUM_IDS"
  using assms by (simp_all add: queue_rep_def dlseg_append)

lemma dlseg_unlink:
  assumes seg: "dlseg T NUM_IDS as p" "dlseg T p bs NUM_IDS" "distinct (as @ p # bs)"
    and prev: "\<And>x. x \<noteq> p \<Longrightarrow> tprev (T' x) =
      (if bs \<noteq> [] \<and> x = hd bs then (if as = [] then NUM_IDS else last as) else tprev (T x))"
    and next': "\<And>x. x \<noteq> p \<Longrightarrow> tnext (T' x) =
      (if as \<noteq> [] \<and> x = last as then (if bs = [] then NUM_IDS else hd bs) else tnext (T x))"
  shows "dlseg T' NUM_IDS (as @ bs) NUM_IDS"
proof -
  have ab: "x \<noteq> p \<and> (bs \<noteq> [] \<longrightarrow> x \<noteq> hd bs)" if "x \<in> set as" for x using that seg(3) by (cases bs) auto
  have ba: "x \<noteq> p \<and> (as \<noteq> [] \<longrightarrow> x \<noteq> last as)" if "x \<in> set bs" for x
    using that seg(3) by (cases as rule: rev_cases) auto
  have "dlseg T' NUM_IDS as (if bs = [] then NUM_IDS else hd bs)"
  proof (cases "as = []")
    case False
    show ?thesis
    proof (rule dlseg_set_next [OF seg(1) False])
      fix x assume "x \<in> set (butlast as)"
      then have "x \<in> set as" "x \<noteq> last as" using seg(3) False by (cases as rule: rev_cases; auto)+
      with ab [of x] prev [of x] next' [of x] show "tprev (T' x) = tprev (T x) \<and> tnext (T' x) = tnext (T x)" by auto
    qed (use False seg(3) prev [of "last as"] next' [of "last as"] ab [of "last as"] in auto)
  qed simp
  moreover have "dlseg T' (if as = [] then NUM_IDS else last as) bs NUM_IDS"
  proof (cases "bs = []")
    case False
    show ?thesis
    proof (rule dlseg_set_prev [OF seg(2) False])
      fix x assume "x \<in> set (tl bs)"
      then have "x \<in> set bs" "x \<noteq> hd bs" using seg(3) False by (cases bs; auto)+
      with ba [of x] prev [of x] next' [of x] show "tprev (T' x) = tprev (T x) \<and> tnext (T' x) = tnext (T x)" by auto
    qed (use False seg(3) prev [of "hd bs"] next' [of "hd bs"] ba [of "hd bs"] in auto)
  qed simp
  ultimately show ?thesis by (simp add: dlseg_append)
qed

lemma tqueue_remove_absent:
  assumes "cpu_ok s" "c \<le> NUM_IDS" "queue_rep s c xs" "p < NUM_IDS" "p \<notin> set xs"
    and "tprev (TCBPool s p) = NUM_IDS" "tnext (TCBPool s p) = NUM_IDS"
  shows "tqueue_remove c p s = Inr ((), s)"
proof -
  have "qhead (TQueuePool s (kstack_cpu_idx s) c) \<noteq> p"
    using assms(3-5) by (auto simp: queue_rep_def)
  with assms show ?thesis by (simp add: tqueue_remove_def tcb_ops tqueue_ops exec)
qed

text \<open>The state after unlinking \<open>p\<close> from between \<open>as\<close> and \<open>bs\<close>.\<close>

definition unlink_tcbs :: "(u32 \<Rightarrow> TCB) \<Rightarrow> u32 list \<Rightarrow> u32 \<Rightarrow> u32 list \<Rightarrow> u32 \<Rightarrow> TCB" where
  "unlink_tcbs T as p bs =
     (let T1 = (if as = [] then T else T(last as := (T (last as))\<lparr>tnext := if bs = [] then NUM_IDS else hd bs\<rparr>));
          T2 = (if bs = [] then T1 else T1(hd bs := (T1 (hd bs))\<lparr>tprev := if as = [] then NUM_IDS else last as\<rparr>))
      in T2(p := (T2 p)\<lparr>tprev := NUM_IDS, tnext := NUM_IDS\<rparr>))"

definition unlink_queue :: "TQueue \<Rightarrow> u32 list \<Rightarrow> u32 list \<Rightarrow> TQueue" where
  "unlink_queue q as bs =
     (let q1 = (if as = [] then q\<lparr>qhead := if bs = [] then NUM_IDS else hd bs\<rparr> else q)
      in if bs = [] then q1\<lparr>qtail := if as = [] then NUM_IDS else last as\<rparr> else q1)"

lemma unlink_tcbs_links:
  assumes "distinct (as @ p # bs)"
  shows "x \<noteq> p \<Longrightarrow> tprev (unlink_tcbs T as p bs x) =
      (if bs \<noteq> [] \<and> x = hd bs then (if as = [] then NUM_IDS else last as) else tprev (T x))"
    and "x \<noteq> p \<Longrightarrow> tnext (unlink_tcbs T as p bs x) =
      (if as \<noteq> [] \<and> x = last as then (if bs = [] then NUM_IDS else hd bs) else tnext (T x))"
    and "tprev (unlink_tcbs T as p bs p) = NUM_IDS" "tnext (unlink_tcbs T as p bs p) = NUM_IDS"
    and "relinked T (unlink_tcbs T as p bs)"
  by (auto simp: unlink_tcbs_def Let_def relinked_def)

lemma tqueue_remove_exec:
  assumes "cpu_ok s" "c \<le> NUM_IDS" "queue_rep s c (as @ p # bs)"
  defines "T \<equiv> unlink_tcbs (TCBPool s) as p bs"
    and "q \<equiv> unlink_queue (TQueuePool s (kstack_cpu_idx s) c) as bs"
  shows "tqueue_remove c p s = Inr ((), with_queue s T c q)"
    and "queue_rep (with_queue s T c q) c (as @ bs)" and "relinked (TCBPool s) T"
proof -
  note sp = queue_rep_split [OF assms(3)]
  have d: "distinct (as @ p # bs)" and b: "\<forall>x \<in> set (as @ p # bs). x < NUM_IDS \<and> x \<noteq> NUM_IDS"
    using assms(3) by (auto simp: queue_rep_def)
  have h: "qhead (TQueuePool s (kstack_cpu_idx s) c) = (if as = [] then p else hd as)"
    "qtail (TQueuePool s (kstack_cpu_idx s) c) = (if bs = [] then p else last bs)"
    using assms(3) by (auto simp: queue_rep_def)
  have ne: "as \<noteq> [] \<Longrightarrow> last as < NUM_IDS \<and> last as \<noteq> NUM_IDS" "bs \<noteq> [] \<Longrightarrow> hd bs < NUM_IDS \<and> hd bs \<noteq> NUM_IDS" "p < NUM_IDS"
    using b by auto
  show "tqueue_remove c p s = Inr ((), with_queue s T c q)"
    by (cases "as = []"; cases "bs = []")
      (use assms(1,2) ne h sp(1,2) in \<open>simp_all add: tqueue_remove_def tcb_ops tqueue_ops exec T_def q_def
         unlink_tcbs_def unlink_queue_def Let_def\<close>)
  have "dlseg T NUM_IDS (as @ bs) NUM_IDS"
    unfolding T_def by (rule dlseg_unlink [OF sp(3,4) d]) (simp_all add: unlink_tcbs_links [OF d])
  then show "queue_rep (with_queue s T c q) c (as @ bs)"
    using b d h by (auto simp: queue_rep_with_queue q_def unlink_queue_def Let_def)
  show "relinked (TCBPool s) T" unfolding T_def by (rule unlink_tcbs_links(5) [OF d])
qed

section \<open>The interface\<close>

text \<open>
  A queue of process numbers: \<open>rep s xs\<close> says that in state \<open>s\<close> the queue holds \<open>xs\<close>. One round of the
  scheduler appends the running process and takes the first one; the lemmas below follow the
  queue over any number of rounds.
\<close>

locale thread_queue =
  fixes rep :: "'s \<Rightarrow> u32 list \<Rightarrow> bool"
    and enq :: "u32 \<Rightarrow> ('s, unit) kop"
    and deq :: "('s, u32) kop"
    and rem :: "u32 \<Rightarrow> ('s, unit) kop"
  assumes rep_distinct: "rep s xs \<Longrightarrow> distinct xs"
    and rep_bounded: "rep s xs \<Longrightarrow> x \<in> set xs \<Longrightarrow> x < NUM_IDS"
    and enq_law: "rep s xs \<Longrightarrow> p < NUM_IDS \<Longrightarrow> p \<notin> set xs \<Longrightarrow> \<exists>s'. enq p s = Inr ((), s') \<and> rep s' (xs @ [p])"
    and deq_empty: "rep s [] \<Longrightarrow> deq s = Inr (NUM_IDS, s)"
    and deq_law: "rep s (x # xs) \<Longrightarrow> \<exists>s'. deq s = Inr (x, s') \<and> rep s' xs"
    and rem_law: "rep s xs \<Longrightarrow> p \<in> set xs \<Longrightarrow> \<exists>s'. rem p s = Inr ((), s') \<and> rep s' (remove1 p xs)"
begin

lemma one_round:
  assumes "rep s xs" "p < NUM_IDS" "p \<notin> set xs"
  shows "\<exists>s'. seq (enq p) deq s = Inr (hd (xs @ [p]), s') \<and> rep s' (tl (xs @ [p]))"
proof -
  obtain t where t: "enq p s = Inr ((), t)" "rep t (xs @ [p])" using enq_law [OF assms] by blast
  then have "rep t (hd (xs @ [p]) # tl (xs @ [p]))" by simp
  then obtain s' where "deq t = Inr (hd (xs @ [p]), s')" "rep s' (tl (xs @ [p]))"
    using deq_law by blast
  with t(1) show ?thesis by (simp add: exec)
qed

primrec rounds :: "nat \<Rightarrow> u32 \<Rightarrow> ('s, u32) kop" where
  "rounds 0 p = ret p"
| "rounds (Suc n) p = bind (seq (enq p) deq) (rounds n)"

lemma rounds_rotate:
  assumes "rep s xs" "p < NUM_IDS" "p \<notin> set xs"
  shows "\<exists>s'. rounds n p s = Inr (hd (rotate n (p # xs)), s') \<and> rep s' (tl (rotate n (p # xs)))"
  using assms
proof (induction n arbitrary: s p xs)
  case 0
  then show ?case by (simp add: exec)
next
  case (Suc n)
  let ?q = "hd (xs @ [p])" and ?ys = "tl (xs @ [p])"
  obtain t where t: "seq (enq p) deq s = Inr (?q, t)" "rep t ?ys" using one_round [OF Suc.prems] by blast
  have "distinct (xs @ [p])" using Suc.prems(3) rep_distinct [OF Suc.prems(1)] by simp
  moreover have "xs @ [p] = ?q # ?ys" by simp
  ultimately have "?q \<notin> set ?ys" by (metis distinct.simps(2))
  moreover have "?q < NUM_IDS" using Suc.prems rep_bounded by (cases xs) auto
  ultimately obtain s' where "rounds n ?q t = Inr (hd (rotate n (?q # ?ys)), s')" "rep s' (tl (rotate n (?q # ?ys)))"
    using Suc.IH [OF t(2)] by blast
  moreover have "rotate (Suc n) (p # xs) = rotate n (?q # ?ys)"
    by (cases xs) (simp_all add: rotate1_rotate_swap)
  ultimately show ?case using t(1) by (simp add: bind_Inr)
qed

text \<open>Every waiting process runs after as many rounds as it has processes before it, plus one.\<close>

lemma rounds_fair:
  assumes "rep s xs" "p < NUM_IDS" "p \<notin> set xs" "k < length xs"
  shows "\<exists>s'. rounds (Suc k) p s = Inr (xs ! k, s')"
proof -
  have "hd (rotate (Suc k) (p # xs)) = (p # xs) ! Suc k"
    using assms(4) by (subst hd_rotate_conv_nth) (simp_all del: rotate_Suc)
  with rounds_rotate [OF assms(1-3), of "Suc k"] show ?thesis by (auto simp del: rotate_Suc rounds.simps)
qed

end

interpretation tq: thread_queue "\<lambda>s xs. cpu_ok s \<and> c \<le> NUM_IDS \<and> queue_rep s c xs"
    "tqueue_enqueue c" "tqueue_dequeue c" "tqueue_remove c" for c
proof (unfold_locales; elim conjE)
  fix s :: "'z tqueues_scheme" and xs p x
  assume s: "cpu_ok s" "c \<le> NUM_IDS"
  show "distinct xs" if "queue_rep s c xs" using that by (simp add: queue_rep_def)
  show "x < NUM_IDS" if "queue_rep s c xs" "x \<in> set xs" using queue_rep_bounds(1) [OF that] .
  show "\<exists>s'. tqueue_enqueue c p s = Inr ((), s') \<and> cpu_ok s' \<and> c \<le> NUM_IDS \<and> queue_rep s' c (xs @ [p])"
    if "queue_rep s c xs" "p < NUM_IDS" "p \<notin> set xs"
    using tqueue_enqueue_exec [OF s that] s by auto
  show "tqueue_dequeue c s = Inr (NUM_IDS, s)" if "queue_rep s c []"
    using tqueue_dequeue_empty [OF s that] .
  show "\<exists>s'. tqueue_dequeue c s = Inr (x, s') \<and> cpu_ok s' \<and> c \<le> NUM_IDS \<and> queue_rep s' c xs"
    if "queue_rep s c (x # xs)"
    using tqueue_dequeue_exec [OF s that] s by auto
  show "\<exists>s'. tqueue_remove c p s = Inr ((), s') \<and> cpu_ok s' \<and> c \<le> NUM_IDS \<and> queue_rep s' c (remove1 p xs)"
    if r: "queue_rep s c xs" and p: "p \<in> set xs"
  proof -
    obtain as bs where xs: "xs = as @ p # bs" "p \<notin> set as" using split_list_first [OF p] by blast
    then have "remove1 p xs = as @ bs" by (simp add: remove1_append)
    with tqueue_remove_exec [OF s r [unfolded xs(1)]] s show ?thesis by (auto simp: xs)
  qed
qed

section \<open>Initialisation\<close>

lemma tcb_init_loop:
  assumes "\<And>i. i < NUM_IDS \<Longrightarrow> slot i < NUM_IDS"
  shows "\<exists>T. for_loop 0 NUM_IDS (\<lambda>pid. tcb_init_at_id pid (slot pid)) s = Inr ((), s\<lparr>TCBPool := T\<rparr>) \<and>
    (\<forall>p. T p = (if p \<in> slot ` {i. i < NUM_IDS} then
       \<lparr>tstate = TSTATE_DEAD, tprev = NUM_IDS, tnext = NUM_IDS, tchannel = ChNull, topenfiles = (\<lambda>_. None),
        tcwd = None, tsigstate = zero_sig_state\<rparr> else TCBPool s p))"
proof -
  let ?z = "\<lparr>tstate = TSTATE_DEAD, tprev = NUM_IDS, tnext = NUM_IDS, tchannel = ChNull, topenfiles = (\<lambda>_. None),
        tcwd = None, tsigstate = zero_sig_state\<rparr>"
  define I where "I k t \<longleftrightarrow> t = s\<lparr>TCBPool := (\<lambda>p. if p \<in> slot ` {i. i < k} then ?z else TCBPool s p)\<rparr>" for k t
  have "\<exists>t. for_loop 0 NUM_IDS (\<lambda>pid. tcb_init_at_id pid (slot pid)) s = Inr ((), t) \<and> I NUM_IDS t"
  proof (rule for_loop_returns_exec [where I = I])
    show "I 0 s" by (simp add: I_def)
    fix k t assume k: "k < NUM_IDS" and t: "I k t"
    have "{i. i < k + 1} = insert k {i. i < k}" using below_Suc [OF k] by auto
    with t have "I (k + 1) (t\<lparr>TCBPool := (TCBPool t)(slot k := ?z)\<rparr>)"
      by (auto simp: I_def fun_eq_iff intro!: arg_cong [of _ _ "\<lambda>f. s\<lparr>TCBPool := f\<rparr>"])
    moreover have "tcb_init_at_id k (slot k) t = Inr ((), t\<lparr>TCBPool := (TCBPool t)(slot k := ?z)\<rparr>)"
      using assms [OF k] by (simp add: tcb_init_at_id_def exec)
    ultimately show "\<exists>t'. tcb_init_at_id k (slot k) t = Inr ((), t') \<and> I (k + 1) t'" by blast
  qed simp
  then show ?thesis by (auto simp: I_def)
qed

lemma tqueue_init_row:
  assumes "cpu < NUM_CPUS"
  shows "\<exists>f. for_loop 0 (NUM_IDS + 1) (tqueue_init_at_id cpu) s = Inr ((), s\<lparr>TQueuePool := (TQueuePool s)(cpu := f)\<rparr>) \<and>
    (\<forall>c \<le> NUM_IDS. f c = \<lparr>qhead = NUM_IDS, qtail = NUM_IDS\<rparr>)"
proof -
  define I where "I k t \<longleftrightarrow> (\<exists>f. t = s\<lparr>TQueuePool := (TQueuePool s)(cpu := f)\<rparr> \<and>
    (\<forall>c < k. f c = \<lparr>qhead = NUM_IDS, qtail = NUM_IDS\<rparr>))" for k t
  have "\<exists>t. for_loop 0 (NUM_IDS + 1) (tqueue_init_at_id cpu) s = Inr ((), t) \<and> I (NUM_IDS + 1) t"
  proof (rule for_loop_returns_exec [where I = I])
    show "I 0 s" unfolding I_def by (intro exI [of _ "TQueuePool s cpu"]) simp
    fix k t assume k: "k < NUM_IDS + 1" and "I k t"
    then obtain f where t: "t = s\<lparr>TQueuePool := (TQueuePool s)(cpu := f)\<rparr>"
      "\<forall>c < k. f c = \<lparr>qhead = NUM_IDS, qtail = NUM_IDS\<rparr>" unfolding I_def by blast
    let ?f = "f(k := \<lparr>qhead = NUM_IDS, qtail = NUM_IDS\<rparr>)"
    have "k \<le> NUM_IDS" using k by (simp add: word_less_nat_alt word_le_nat_alt)
    then have "tqueue_init_at_id cpu k t = Inr ((), s\<lparr>TQueuePool := (TQueuePool s)(cpu := ?f)\<rparr>)"
      using assms by (simp add: tqueue_init_at_id_def exec t(1))
    moreover have "I (k + 1) (s\<lparr>TQueuePool := (TQueuePool s)(cpu := ?f)\<rparr>)"
      unfolding I_def using t(2) below_Suc [OF k] by (intro exI [of _ ?f]) auto
    ultimately show "\<exists>t'. tqueue_init_at_id cpu k t = Inr ((), t') \<and> I (k + 1) t'" by blast
  qed simp
  moreover have "c < NUM_IDS + 1" if "c \<le> NUM_IDS" for c :: u32
    using that by (simp add: word_less_nat_alt word_le_nat_alt)
  ultimately show ?thesis unfolding I_def by blast
qed

lemma tqueue_init_loop:
  "\<exists>g. for_loop 0 NUM_CPUS (\<lambda>cpu. for_loop 0 (NUM_IDS + 1) (tqueue_init_at_id cpu)) s = Inr ((), s\<lparr>TQueuePool := g\<rparr>) \<and>
    (\<forall>cpu < NUM_CPUS. \<forall>c \<le> NUM_IDS. g cpu c = \<lparr>qhead = NUM_IDS, qtail = NUM_IDS\<rparr>)"
proof -
  let ?body = "\<lambda>cpu. for_loop 0 (NUM_IDS + 1) (tqueue_init_at_id cpu) :: ('a tqueues_scheme, unit) kop"
  define I where "I k t \<longleftrightarrow> (\<exists>g. t = s\<lparr>TQueuePool := g\<rparr> \<and>
    (\<forall>cpu < k. \<forall>c \<le> NUM_IDS. g cpu c = \<lparr>qhead = NUM_IDS, qtail = NUM_IDS\<rparr>))" for k t
  have "\<exists>t. for_loop 0 NUM_CPUS ?body s = Inr ((), t) \<and> I NUM_CPUS t"
  proof (rule for_loop_returns_exec [where I = I])
    show "I 0 s" unfolding I_def by (intro exI [of _ "TQueuePool s"]) simp
    fix k t assume k: "k < NUM_CPUS" and "I k t"
    then obtain g where t: "t = s\<lparr>TQueuePool := g\<rparr>"
      "\<forall>cpu < k. \<forall>c \<le> NUM_IDS. g cpu c = \<lparr>qhead = NUM_IDS, qtail = NUM_IDS\<rparr>" unfolding I_def by blast
    from tqueue_init_row [OF k, of t] obtain f where
      f: "?body k t = Inr ((), t\<lparr>TQueuePool := (TQueuePool t)(k := f)\<rparr>)"
        "\<forall>c \<le> NUM_IDS. f c = \<lparr>qhead = NUM_IDS, qtail = NUM_IDS\<rparr>" by blast
    then have "I (k + 1) (t\<lparr>TQueuePool := (TQueuePool t)(k := f)\<rparr>)"
      unfolding I_def using t below_Suc [OF k] by (intro exI [of _ "g(k := f)"]) auto
    with f(1) show "\<exists>t'. ?body k t = Inr ((), t') \<and> I (k + 1) t'" by blast
  qed simp
  then show ?thesis unfolding I_def by blast
qed

section \<open>Properties\<close>

definition blank_tcb :: TCB where
  "blank_tcb = \<lparr>tstate = TSTATE_DEAD, tprev = NUM_IDS, tnext = NUM_IDS, tchannel = ChNull, topenfiles = (\<lambda>_. None),
     tcwd = None, tsigstate = zero_sig_state\<rparr>"

text \<open>A state in which processes 2, 3 and 4 wait in the ready queue.\<close>

definition sample_tqueues :: tqueues where
  "sample_tqueues = paging.extend boot_paging (tqueues.fields
     ((\<lambda>_. blank_tcb)(2 := blank_tcb\<lparr>tstate := TSTATE_READY, tnext := 3\<rparr>,
        3 := blank_tcb\<lparr>tstate := TSTATE_READY, tprev := 2, tnext := 4\<rparr>,
        4 := blank_tcb\<lparr>tstate := TSTATE_READY, tprev := 3\<rparr>))
     (\<lambda>_. (\<lambda>_. \<lparr>qhead = NUM_IDS, qtail = NUM_IDS\<rparr>)(NUM_IDS := \<lparr>qhead = 2, qtail = 4\<rparr>)))"

lemma sample_tqueues_cpu: "cpu_ok sample_tqueues"
  by (simp add: sample_tqueues_def paging.defs tqueues.defs boot_paging_def container.defs sample_container_def
      sample_mat_def boot_mat_defs cpu_ok_def)

lemma sample_tqueues_rep: "queue_rep sample_tqueues NUM_IDS [2, 3, 4]"
  by (simp add: sample_tqueues_def paging.defs tqueues.defs queue_rep_def blank_tcb_def)

text \<open>
  C14. The linked lists implement queues: appending a process that is not queued, taking the
  first one, asking an empty queue and removing a process from any position do on the chain of
  control blocks what the list operations do on the list it represents, and each leaves a well
  formed chain.
\<close>

theorem tqueue_refines_list:
  assumes "cpu_ok s" "chid \<le> NUM_IDS" "queue_rep s chid xs"
  shows "(p < NUM_IDS \<and> p \<notin> set xs \<longrightarrow> (\<exists>s'. tqueue_enqueue chid p s = Inr ((), s') \<and> queue_rep s' chid (xs @ [p]))) \<and>
    (\<exists>s'. tqueue_dequeue chid s = Inr (if xs = [] then NUM_IDS else hd xs, s') \<and> queue_rep s' chid (tl xs)) \<and>
    (p \<in> set xs \<longrightarrow> (\<exists>s'. tqueue_remove chid p s = Inr ((), s') \<and> queue_rep s' chid (remove1 p xs)))"
proof (intro conjI impI; (elim conjE)?)
  have r: "cpu_ok s \<and> chid \<le> NUM_IDS \<and> queue_rep s chid xs" using assms by simp
  show "\<exists>s'. tqueue_enqueue chid p s = Inr ((), s') \<and> queue_rep s' chid (xs @ [p])"
    if "p < NUM_IDS" "p \<notin> set xs" using tq.enq_law [OF r that] by blast
  show "\<exists>s'. tqueue_dequeue chid s = Inr (if xs = [] then NUM_IDS else hd xs, s') \<and> queue_rep s' chid (tl xs)"
    using tq.deq_empty [of s chid] tq.deq_law [of s chid "hd xs" "tl xs"] r by (cases xs) auto
  show "\<exists>s'. tqueue_remove chid p s = Inr ((), s') \<and> queue_rep s' chid (remove1 p xs)" if "p \<in> set xs"
    using tq.rem_law [OF r that] by blast
qed

theorem tqueue_refines_list_witness:
  "(\<exists>s'. tqueue_enqueue NUM_IDS 9 sample_tqueues = Inr ((), s') \<and> queue_rep s' NUM_IDS [2, 3, 4, 9]) \<and>
   (\<exists>s'. tqueue_dequeue NUM_IDS sample_tqueues = Inr (2, s') \<and> queue_rep s' NUM_IDS [3, 4]) \<and>
   (\<exists>s'. tqueue_remove NUM_IDS 3 sample_tqueues = Inr ((), s') \<and> queue_rep s' NUM_IDS [2, 4])"
  using tqueue_refines_list [OF sample_tqueues_cpu order.refl sample_tqueues_rep, of 9]
    tqueue_refines_list [OF sample_tqueues_cpu order.refl sample_tqueues_rep, of 3] by simp


lemma boot_tqueues_ok: "boot_ok sample_bios sample_tqueues"
proof -
  have "boot_ok sample_bios (paging.truncate sample_tqueues)"
    using boot_paging_ok by (simp add: sample_tqueues_def paging.defs tqueues.defs)
      (simp add: boot_paging_def container.defs paging.defs)
  then show ?thesis
    by (simp add: boot_ok_def paging.defs cpu_ok_def quota_ok_def)
qed


end
