(* ===== verification/Scheduler.thy ===== *)
theory Scheduler
  imports Thread_Queue
begin

text \<open>
  Kernel threads (\<open>kern/thread/PKCtxIntro\<close>, \<open>PKCtxNew\<close>, \<open>PCurID\<close>, \<open>PThread\<close>): saved contexts, the
  running thread of every processor, and the scheduler with its sleep and wakeup. An operation
  that gives the processor to another thread ends with \<open>Switched s\<close>, \<open>s\<close> being the state the
  other thread continues from; what the caller does once it is resumed is a definition of its
  own (\<open>thread_sleep_resume\<close>).
\<close>

section \<open>State\<close>

record kctx =
  k_esp :: u32
  k_edi :: u32
  k_esi :: u32
  k_ebx :: u32
  k_ebp :: u32
  k_eip :: u32

text \<open>
  \<open>cpu_regs\<close> are the registers \<open>cswitch\<close> saves and loads, \<open>proc_kstack_hi\<close> the addresses of the
  kernel stacks' tops.
\<close>

record sched = tqueues +
  kctx_pool :: "u32 \<Rightarrow> kctx"
  cpu_regs :: kctx
  proc_kstack_hi :: "u32 \<Rightarrow> u32"
  CURID :: "u32 \<Rightarrow> u32"
  sched_lk :: spinlock_t
  sched_ticks :: "u32 \<Rightarrow> u32"

abbreviation (input) SCHED_SLICE :: u32 where "SCHED_SLICE \<equiv> 5"
abbreviation (input) LAPIC_TIMER_INTR_FREQ :: u32 where "LAPIC_TIMER_INTR_FREQ \<equiv> 1000"

section \<open>PKCtxIntro and PKCtxNew\<close>

definition set_kctx :: "u32 \<Rightarrow> (kctx \<Rightarrow> kctx) \<Rightarrow> ('z sched_scheme, unit) kop" where
  "set_kctx pid f =
     seq (in_bounds (pid < NUM_IDS)) (modify (\<lambda>s. s\<lparr>kctx_pool := (kctx_pool s)(pid := f (kctx_pool s pid))\<rparr>))"

definition kctx_set_esp :: "u32 \<Rightarrow> u32 \<Rightarrow> ('z sched_scheme, unit) kop" where
  "kctx_set_esp pid esp = set_kctx pid (k_esp_update (\<lambda>_. esp))"

definition kctx_set_eip :: "u32 \<Rightarrow> u32 \<Rightarrow> ('z sched_scheme, unit) kop" where
  "kctx_set_eip pid eip = set_kctx pid (k_eip_update (\<lambda>_. eip))"

text \<open>
  \<open>cswitch\<close> saves the registers in the first context and loads them from the second. When both
  are the same thread it simply returns.
\<close>

definition cswitch :: "u32 \<Rightarrow> u32 \<Rightarrow> ('z sched_scheme, unit) kop" where
  "cswitch from_pid to_pid =
     seq (modify (\<lambda>s. s\<lparr>kctx_pool := (kctx_pool s)(from_pid := cpu_regs s)\<rparr>))
     (seq (modify (\<lambda>s. s\<lparr>cpu_regs := kctx_pool s to_pid\<rparr>))
     (if from_pid = to_pid then ret () else switched))"

definition kctx_switch :: "u32 \<Rightarrow> u32 \<Rightarrow> ('z sched_scheme, unit) kop" where
  "kctx_switch from_pid to_pid =
     seq (in_bounds (from_pid < NUM_IDS \<and> to_pid < NUM_IDS)) (cswitch from_pid to_pid)"

definition kctx_new :: "u32 \<Rightarrow> u32 \<Rightarrow> u32 \<Rightarrow> ('z sched_scheme, u32) kop" where
  "kctx_new entry cid quota =
     bind (alloc_mem_quota cid quota) (\<lambda>pid.
     bind (gets (\<lambda>s. proc_kstack_hi s pid)) (\<lambda>hi.
     seq (kctx_set_esp pid hi) (seq (kctx_set_eip pid entry) (ret pid))))"

section \<open>PCurID\<close>

definition get_curid :: "('z sched_scheme, u32) kop" where
  "get_curid = bind get_pcpu_idx (\<lambda>cpu. seq (in_bounds (cpu < NUM_CPUS)) (gets (\<lambda>s. CURID s cpu)))"

definition set_curid :: "u32 \<Rightarrow> ('z sched_scheme, unit) kop" where
  "set_curid curid =
     bind get_pcpu_idx (\<lambda>cpu. seq (in_bounds (cpu < NUM_CPUS)) (modify (\<lambda>s. s\<lparr>CURID := (CURID s)(cpu := curid)\<rparr>)))"

section \<open>PThread\<close>

definition sched_acquire :: "('z sched_scheme, unit) kop" where
  "sched_acquire = spinlock_acquire sched_lk sched_lk_update"

definition sched_release :: "('z sched_scheme, unit) kop" where
  "sched_release = spinlock_release sched_lk_update"

definition thread_init :: "(u32 \<Rightarrow> u32) \<Rightarrow> mboot_mmap list \<Rightarrow> ('z sched_scheme, unit) kop" where
  "thread_init slot mbi =
     block [for_loop 0 NUM_CPUS (\<lambda>i. modify (\<lambda>s. s\<lparr>sched_ticks := (sched_ticks s)(i := 0)\<rparr>)),
       spinlock_init sched_lk_update, tqueue_init slot mbi, set_curid 0, tcb_set_state 0 TSTATE_RUN]"

definition thread_spawn :: "u32 \<Rightarrow> u32 \<Rightarrow> u32 \<Rightarrow> ('z sched_scheme, u32) kop" where
  "thread_spawn entry cid quota =
     seq sched_acquire
     (bind (kctx_new entry cid quota) (\<lambda>pid.
      seq (tcb_set_state pid TSTATE_READY)
      (seq (tqueue_enqueue NUM_IDS pid) (seq sched_release (ret pid)))))"

definition thread_yield :: "('z sched_scheme, unit) kop" where
  "thread_yield =
     seq sched_acquire
     (bind get_curid (\<lambda>old_cur_pid.
      seq (tcb_set_state old_cur_pid TSTATE_READY)
      (seq (tqueue_enqueue NUM_IDS old_cur_pid)
      (bind (tqueue_dequeue NUM_IDS) (\<lambda>new_cur_pid.
       seq (tcb_set_state new_cur_pid TSTATE_RUN)
       (seq (set_curid new_cur_pid)
       (if old_cur_pid \<noteq> new_cur_pid
        then seq sched_release (kctx_switch old_cur_pid new_cur_pid)
        else sched_release)))))))"

definition thread_exit :: "('z sched_scheme, unit) kop" where
  "thread_exit =
     seq sched_acquire
     (bind get_curid (\<lambda>old_cur_pid.
      bind (tqueue_dequeue NUM_IDS) (\<lambda>p.
      let new_cur_pid = (if p = NUM_IDS then 1 else p) in
      seq (tcb_set_state new_cur_pid TSTATE_RUN)
      (seq (set_curid new_cur_pid)
      (seq sched_release (kctx_switch old_cur_pid new_cur_pid))))))"

definition sched_update :: "('z sched_scheme, unit) kop" where
  "sched_update =
     seq sched_acquire
     (bind get_pcpu_idx (\<lambda>cpu.
      seq (modify (\<lambda>s. s\<lparr>sched_ticks := (sched_ticks s)(cpu := sched_ticks s cpu + 1000 div LAPIC_TIMER_INTR_FREQ)\<rparr>))
      (bind (gets (\<lambda>s. sched_ticks s cpu)) (\<lambda>ticks.
       if ticks > SCHED_SLICE
       then seq (modify (\<lambda>s. s\<lparr>sched_ticks := (sched_ticks s)(cpu := 0)\<rparr>)) (seq sched_release thread_yield)
       else sched_release))))"

text \<open>
  \<open>thread_sleep\<close> up to the context switch, and from the point where it is resumed; \<open>upd\<close> and \<open>get\<close>
  are the field of the lock the caller passes.
\<close>

definition thread_sleep :: "chan \<Rightarrow> ((spinlock_t \<Rightarrow> spinlock_t) \<Rightarrow> 'z sched_scheme \<Rightarrow> 'z sched_scheme) \<Rightarrow> ('z sched_scheme, unit) kop" where
  "thread_sleep ch upd =
     bind get_curid (\<lambda>curid.
     seq sched_acquire
     (seq (spinlock_release upd)
     (seq (tcb_set_state curid TSTATE_SLEEP)
     (seq (tcb_set_chan curid ch)
     (bind (tqueue_dequeue NUM_IDS) (\<lambda>new_cur_pid.
      seq (tcb_set_state new_cur_pid TSTATE_RUN)
      (seq (set_curid new_cur_pid)
      (seq sched_release (kctx_switch curid new_cur_pid)))))))))"

definition thread_sleep_resume ::
  "u32 \<Rightarrow> ('z sched_scheme \<Rightarrow> spinlock_t) \<Rightarrow> ((spinlock_t \<Rightarrow> spinlock_t) \<Rightarrow> 'z sched_scheme \<Rightarrow> 'z sched_scheme) \<Rightarrow> ('z sched_scheme, unit) kop" where
  "thread_sleep_resume curid get upd =
     block [sched_acquire, tcb_set_chan curid ChNull, sched_release, spinlock_acquire get upd]"

text \<open>
  The two calls as the calling thread sees them: they return when the thread runs again. \<open>env\<close>
  stands for everything that happens in between, the other threads and the interrupts: it maps
  the state the next thread starts from to the state in which this thread is switched to again.
\<close>

definition sleep_on ::
  "('z sched_scheme \<Rightarrow> 'z sched_scheme) \<Rightarrow> chan \<Rightarrow> ('z sched_scheme \<Rightarrow> spinlock_t) \<Rightarrow>
    ((spinlock_t \<Rightarrow> spinlock_t) \<Rightarrow> 'z sched_scheme \<Rightarrow> 'z sched_scheme) \<Rightarrow> ('z sched_scheme, unit) kop" where
  "sleep_on env ch get upd =
     bind get_curid (\<lambda>curid s.
     case thread_sleep ch upd s of
       Inl (Switched t) \<Rightarrow> thread_sleep_resume curid get upd (env t)
     | r \<Rightarrow> r)"

definition yield_on :: "('z sched_scheme \<Rightarrow> 'z sched_scheme) \<Rightarrow> ('z sched_scheme, unit) kop" where
  "yield_on env s = (case thread_yield s of Inl (Switched t) \<Rightarrow> Inr ((), env t) | r \<Rightarrow> r)"

definition wake_if_sleeping :: "chan \<Rightarrow> u32 \<Rightarrow> ('z sched_scheme, unit) kop" where
  "wake_if_sleeping ch pid =
     bind (tcb_get_chan pid) (\<lambda>c.
     bind (tcb_get_state pid) (\<lambda>st.
     when_true (c = ch \<and> st = TSTATE_SLEEP)
       (block [tcb_set_state pid TSTATE_READY, tcb_set_chan pid ChNull, tqueue_enqueue NUM_IDS pid])))"

definition thread_wakeup :: "chan \<Rightarrow> ('z sched_scheme, unit) kop" where
  "thread_wakeup ch = block [sched_acquire, for_loop 1 NUM_IDS (wake_if_sleeping ch), sched_release]"

section \<open>The lock of this layer\<close>

interpretation sched: lock_field sched_lk sched_lk_update
proof unfold_locales
  fix f g :: "spinlock_t \<Rightarrow> spinlock_t" and s :: "'z sched_scheme"
  show "f (sched_lk s) = g (sched_lk s) \<Longrightarrow> sched_lk_update f s = sched_lk_update g s"
    by (cases s) simp
qed simp_all

lemma sched_lock_exec [exec]:
  "cpu_ok s \<Longrightarrow> sched_lk s = lock_init_val \<Longrightarrow>
   sched_acquire s = Inr ((), s\<lparr>sched_lk := lock_held_val (kstack_cpu_idx s)\<rparr>)"
  using sched.acquire_exec [of s] by (simp add: sched_acquire_def sched.set_lock_def lock_init_val_def)

lemma sched_unlock_exec [exec]: "sched_release s = Inr ((), s\<lparr>sched_lk := lock_init_val\<rparr>)"
  by (simp add: sched_release_def sched.release_exec sched.set_lock_def)

lemma sched_lk_same: "sched_lk s = v \<Longrightarrow> s\<lparr>sched_lk := v\<rparr> = s"
  using sched.set_lock_same [of s v] by (simp add: sched.set_lock_def)

lemma get_curid_exec [exec]: "cpu_ok s \<Longrightarrow> get_curid s = Inr (CURID s (kstack_cpu_idx s), s)"
  by (simp add: get_curid_def exec cpu_ok_less)

lemma set_curid_exec [exec]:
  "cpu_ok s \<Longrightarrow> set_curid p s = Inr ((), s\<lparr>CURID := (CURID s)(kstack_cpu_idx s := p)\<rparr>)"
  by (simp add: set_curid_def exec cpu_ok_less)

lemma kctx_switch_exec [exec]:
  "p < NUM_IDS \<Longrightarrow> q < NUM_IDS \<Longrightarrow> p \<noteq> q \<Longrightarrow>
   kctx_switch p q s = Inl (Switched (s\<lparr>kctx_pool := (kctx_pool s)(p := cpu_regs s), cpu_regs := kctx_pool s q\<rparr>))"
  by (simp add: kctx_switch_def cswitch_def exec)

section \<open>The invariant of the scheduler\<close>

abbreviation cur :: "'z sched_scheme \<Rightarrow> u32" where
  "cur s \<equiv> CURID s (kstack_cpu_idx s)"

text \<open>
  The ready queue holds \<open>xs\<close>, all of them ready; the current thread is marked running; the running thread and the sleeping ones are in
  no queue.
\<close>

definition sched_ok :: "'z sched_scheme \<Rightarrow> u32 list \<Rightarrow> bool" where
  "sched_ok s xs \<longleftrightarrow>
     cpu_ok s \<and> sched_lk s = lock_init_val \<and> queue_rep s NUM_IDS xs \<and> cur s < NUM_IDS \<and> cur s \<notin> set xs \<and>
     tstate (TCBPool s (cur s)) = TSTATE_RUN \<and>
     (\<forall>p \<in> set xs. tstate (TCBPool s p) = TSTATE_READY) \<and>
     (\<forall>p < NUM_IDS. p = cur s \<or> tstate (TCBPool s p) = TSTATE_SLEEP \<longrightarrow>
        p \<notin> set xs \<and> tprev (TCBPool s p) = NUM_IDS \<and> tnext (TCBPool s p) = NUM_IDS)"

lemma queue_rep_cong:
  assumes "TQueuePool s' (kstack_cpu_idx s) c = TQueuePool s (kstack_cpu_idx s) c" "kstack_cpu_idx s' = kstack_cpu_idx s"
    and "\<And>p. tprev (TCBPool s' p) = tprev (TCBPool s p) \<and> tnext (TCBPool s' p) = tnext (TCBPool s p)"
  shows "queue_rep s' c xs = queue_rep s c xs"
  using assms dlseg_cong [of xs "TCBPool s'" "TCBPool s"] by (simp add: queue_rep_def)

lemma cpu_ok_sched [simp]:
  "cpu_ok (s\<lparr>sched_lk := l\<rparr>) = cpu_ok s" "cpu_ok (s\<lparr>CURID := c\<rparr>) = cpu_ok s"
  "cpu_ok (s\<lparr>kctx_pool := k\<rparr>) = cpu_ok s" "cpu_ok (s\<lparr>cpu_regs := r\<rparr>) = cpu_ok s"
  by (simp_all add: cpu_ok_def)

text \<open>A thread that sleeps is in no queue and its links are cleared.\<close>

definition sleepers_ok :: "'z tqueues_scheme \<Rightarrow> u32 list \<Rightarrow> bool" where
  "sleepers_ok s xs \<longleftrightarrow> (\<forall>p < NUM_IDS. tstate (TCBPool s p) = TSTATE_SLEEP \<longrightarrow>
     p \<notin> set xs \<and> tprev (TCBPool s p) = NUM_IDS \<and> tnext (TCBPool s p) = NUM_IDS)"

definition all_ready :: "'z tqueues_scheme \<Rightarrow> u32 list \<Rightarrow> bool" where
  "all_ready s xs \<longleftrightarrow> (\<forall>p \<in> set xs. tstate (TCBPool s p) = TSTATE_READY)"

lemma threads_cong:
  assumes "TCBPool t = TCBPool s"
  shows "all_ready t xs = all_ready s xs" "sleepers_ok t xs = sleepers_ok s xs"
  using assms by (simp_all only: all_ready_def sleepers_ok_def)

lemma sched_ok_iff:
  "sched_ok s xs \<longleftrightarrow>
     cpu_ok s \<and> sched_lk s = lock_init_val \<and> queue_rep s NUM_IDS xs \<and> cur s < NUM_IDS \<and> cur s \<notin> set xs \<and>
     tstate (TCBPool s (cur s)) = TSTATE_RUN \<and> all_ready s xs \<and> sleepers_ok s xs \<and>
     tprev (TCBPool s (cur s)) = NUM_IDS \<and> tnext (TCBPool s (cur s)) = NUM_IDS"
  by (auto simp: sched_ok_def all_ready_def sleepers_ok_def)

lemma sched_okD:
  assumes "sched_ok s xs"
  shows "cpu_ok s" "sched_lk s = lock_init_val" "queue_rep s NUM_IDS xs" "cur s < NUM_IDS" "cur s \<notin> set xs"
    "all_ready s xs" "sleepers_ok s xs" "tprev (TCBPool s (cur s)) = NUM_IDS" "tnext (TCBPool s (cur s)) = NUM_IDS"
    "tstate (TCBPool s (cur s)) = TSTATE_RUN"
  using assms by (auto simp: sched_ok_def all_ready_def sleepers_ok_def)

text \<open>
  The step the three ways of giving up the processor share: the first ready thread \<open>x\<close> is taken
  from the queue and becomes the running one.
\<close>

abbreviation dispatched where
  "dispatched s T Q x k r \<equiv> s\<lparr>TCBPool := T(x := (T x)\<lparr>tstate := TSTATE_RUN\<rparr>), TQueuePool := Q,
     CURID := (CURID s)(kstack_cpu_idx s := x), sched_lk := lock_init_val, kctx_pool := k, cpu_regs := r\<rparr>"

lemma dispatch:
  assumes "cpu_ok s" "queue_rep s NUM_IDS (x # ys)" "all_ready s (x # ys)" "sleepers_ok s (x # ys)"
  obtains T Q where "tqueue_dequeue NUM_IDS s = Inr (x, s\<lparr>TCBPool := T, TQueuePool := Q\<rparr>)"
    "relinked (TCBPool s) T" "x < NUM_IDS" "\<forall>k r. sched_ok (dispatched s T Q x k r) ys"
proof -
  from tqueue_dequeue_exec [OF assms(1) order.refl assms(2)] obtain T q where
    d: "tqueue_dequeue NUM_IDS s = Inr (x, with_queue s T NUM_IDS q)"
      "queue_rep (with_queue s T NUM_IDS q) NUM_IDS ys" "relinked (TCBPool s) T"
      "tprev (T x) = NUM_IDS" "tnext (T x) = NUM_IDS" "\<forall>y. y \<notin> set (x # ys) \<longrightarrow> T y = TCBPool s y"
    by auto
  have x: "x < NUM_IDS" "x \<notin> set ys" using assms(2) by (auto simp: queue_rep_def)
  define Q where "Q = (TQueuePool s)(kstack_cpu_idx s := (TQueuePool s (kstack_cpu_idx s))(NUM_IDS := q))"
  show thesis
  proof (rule that [where T = T and Q = Q])
    show "tqueue_dequeue NUM_IDS s = Inr (x, s\<lparr>TCBPool := T, TQueuePool := Q\<rparr>)" using d(1) by (simp add: Q_def)
    have "queue_rep (dispatched s T Q x k r) NUM_IDS ys" for k r
      using d(2) by (subst queue_rep_cong [of _ "with_queue s T NUM_IDS q"]) (auto simp: Q_def)
    moreover have "p \<notin> set ys \<and> tprev (T p) = NUM_IDS \<and> tnext (T p) = NUM_IDS"
      if "p < NUM_IDS" "p \<noteq> x" "tstate (T p) = TSTATE_SLEEP" for p
    proof -
      have st: "tstate (TCBPool s p) = TSTATE_SLEEP" using that(3) relinked_simps(1) [OF d(3)] by simp
      with assms(4) that(1) have "p \<notin> set (x # ys)" "tprev (TCBPool s p) = NUM_IDS" "tnext (TCBPool s p) = NUM_IDS"
        by (auto simp: sleepers_ok_def)
      with d(6) show ?thesis by simp
    qed
    moreover have "tstate (T p) = TSTATE_READY" if "p \<in> set ys" for p
      using that assms(3) relinked_simps(1) [OF d(3)] by (simp add: all_ready_def)
    ultimately show "\<forall>k r. sched_ok (dispatched s T Q x k r) ys"
      using assms(1) x d(4,5) by (auto simp: sched_ok_def)
  qed (use d(3) x in auto)
qed

text \<open>Putting a thread that is in no queue at the end of the ready queue.\<close>

lemma make_ready:
  assumes "cpu_ok s" "queue_rep s NUM_IDS xs" "all_ready s xs" "sleepers_ok s xs" "p < NUM_IDS" "p \<notin> set xs"
    and "tstate (TCBPool s p) = TSTATE_READY"
  obtains T Q where "tqueue_enqueue NUM_IDS p s = Inr ((), s\<lparr>TCBPool := T, TQueuePool := Q\<rparr>)"
    "queue_rep (s\<lparr>TCBPool := T, TQueuePool := Q\<rparr>) NUM_IDS (xs @ [p])" "relinked (TCBPool s) T"
    "all_ready (s\<lparr>TCBPool := T, TQueuePool := Q\<rparr>) (xs @ [p])" "sleepers_ok (s\<lparr>TCBPool := T, TQueuePool := Q\<rparr>) (xs @ [p])"
    "\<forall>y. y \<notin> set (xs @ [p]) \<longrightarrow> T y = TCBPool s y"
proof -
  from tqueue_enqueue_exec [OF assms(1) order.refl assms(2,5,6)] obtain T q where
    e: "tqueue_enqueue NUM_IDS p s = Inr ((), with_queue s T NUM_IDS q)"
      "queue_rep (with_queue s T NUM_IDS q) NUM_IDS (xs @ [p])" "relinked (TCBPool s) T"
      "\<forall>y. y \<notin> set xs \<and> y \<noteq> p \<longrightarrow> T y = TCBPool s y" by auto
  note st = relinked_simps(1) [OF e(3)]
  have "all_ready (with_queue s T NUM_IDS q) (xs @ [p])"
    using assms(3,7) by (auto simp: all_ready_def st)
  moreover have "sleepers_ok (with_queue s T NUM_IDS q) (xs @ [p])"
    using assms(4,7) e(4) by (auto simp: sleepers_ok_def st)
  ultimately show thesis using that [OF e(1,2,3)] e(4) by simp
qed

section \<open>Yield\<close>

abbreviation resched where
  "resched s T Q c k r \<equiv> s\<lparr>TCBPool := T, TQueuePool := Q, CURID := (CURID s)(kstack_cpu_idx s := c),
     kctx_pool := k, cpu_regs := r\<rparr>"

lemma thread_yield_exec:
  assumes "sched_ok s xs" and "y # ys = xs @ [cur s]"
  obtains T Q where
    "thread_yield s = (if xs = [] then Inr ((), s\<lparr>TCBPool := T, TQueuePool := Q\<rparr>)
       else Inl (Switched (resched s T Q y ((kctx_pool s)(cur s := cpu_regs s)) (kctx_pool s y))))"
    "\<forall>k r. sched_ok (resched s T Q y k r) ys" "y \<noteq> cur s \<longleftrightarrow> xs \<noteq> []" "y < NUM_IDS"
    "relinked ((TCBPool s)(cur s := (TCBPool s (cur s))\<lparr>tstate := TSTATE_READY\<rparr>, y := (TCBPool s y)\<lparr>tstate := TSTATE_RUN\<rparr>)) T"
proof -
  let ?c = "cur s"
  note ok = sched_okD [OF assms(1)]
  define s1 where "s1 = s\<lparr>sched_lk := lock_held_val (kstack_cpu_idx s), TCBPool := (TCBPool s)(?c := (TCBPool s ?c)\<lparr>tstate := TSTATE_READY\<rparr>)\<rparr>"
  have s1: "cpu_ok s1" "queue_rep s1 NUM_IDS xs" "all_ready s1 xs" "sleepers_ok s1 xs" "tstate (TCBPool s1 ?c) = TSTATE_READY"
    using ok queue_rep_cong [of s1 s NUM_IDS xs] by (auto simp: s1_def all_ready_def sleepers_ok_def)
  obtain T2 Q2 where e: "tqueue_enqueue NUM_IDS ?c s1 = Inr ((), s1\<lparr>TCBPool := T2, TQueuePool := Q2\<rparr>)"
    "queue_rep (s1\<lparr>TCBPool := T2, TQueuePool := Q2\<rparr>) NUM_IDS (xs @ [?c])" "relinked (TCBPool s1) T2"
    "all_ready (s1\<lparr>TCBPool := T2, TQueuePool := Q2\<rparr>) (xs @ [?c])" "sleepers_ok (s1\<lparr>TCBPool := T2, TQueuePool := Q2\<rparr>) (xs @ [?c])"
    by (rule make_ready [OF s1(1-4) ok(4,5) s1(5)])
  define s2 where "s2 = s1\<lparr>TCBPool := T2, TQueuePool := Q2\<rparr>"
  have s2: "cpu_ok s2" "queue_rep s2 NUM_IDS (y # ys)" "all_ready s2 (y # ys)" "sleepers_ok s2 (y # ys)"
    using s1(1) e(2,4,5) assms(2) by (simp_all add: s2_def)
  obtain T3 Q3 where d: "tqueue_dequeue NUM_IDS s2 = Inr (y, s2\<lparr>TCBPool := T3, TQueuePool := Q3\<rparr>)"
    "relinked (TCBPool s2) T3" "y < NUM_IDS" "\<forall>k r. sched_ok (dispatched s2 T3 Q3 y k r) ys"
    by (rule dispatch [OF s2])
  define T where "T = T3(y := (T3 y)\<lparr>tstate := TSTATE_RUN\<rparr>)"
  have y: "y \<noteq> ?c \<longleftrightarrow> xs \<noteq> []" using assms(2) ok(5) by (cases xs) auto
  have same: "dispatched s2 T3 Q3 y k r = resched s T Q3 y k r" for k r
    using ok(2) by (simp add: s2_def s1_def T_def sched_lk_same)
  show thesis
  proof (rule that [where T = T and Q = Q3])
    show "thread_yield s = (if xs = [] then Inr ((), s\<lparr>TCBPool := T, TQueuePool := Q3\<rparr>)
       else Inl (Switched (resched s T Q3 y ((kctx_pool s)(?c := cpu_regs s)) (kctx_pool s y))))"
    proof (cases "xs = []")
      case True
      have "CURID s = (CURID s)(kstack_cpu_idx s := y)" using True y by auto
      with True ok(1,2,4) y d(1,3) e(1) show ?thesis
        by (simp add: thread_yield_def exec tcb_ops s1_def [symmetric] s2_def [symmetric] s1(1) s2(1))
          (simp add: exec ok(1) s2_def s1_def T_def sched_lk_same)
    next
      case False
      with ok(1,2,4) y d(1,3) e(1) show ?thesis
        by (simp add: thread_yield_def exec tcb_ops s1_def [symmetric] s2_def [symmetric] s1(1) s2(1))
          (simp add: exec ok(1) s2_def s1_def T_def sched_lk_same)
    qed
    show "\<forall>k r. sched_ok (resched s T Q3 y k r) ys" using d(4) same by simp
    show "relinked ((TCBPool s)(?c := (TCBPool s ?c)\<lparr>tstate := TSTATE_READY\<rparr>, y := (TCBPool s y)\<lparr>tstate := TSTATE_RUN\<rparr>)) T"
      using e(3) d(2) by (simp add: relinked_iff T_def s1_def s2_def)
  qed (use y d(3) in auto)
qed

section \<open>Sleep and wakeup\<close>

text \<open>
  A lock that a thread can hold when it goes to sleep: its field is none of the scheduler's. The
  layers above interpret this for their locks.
\<close>

locale sleep_lock = lock_field get upd
  for get :: "'z sched_scheme \<Rightarrow> spinlock_t"
    and upd :: "(spinlock_t \<Rightarrow> spinlock_t) \<Rightarrow> 'z sched_scheme \<Rightarrow> 'z sched_scheme" +
  assumes upd_sched: "TCBPool (upd f s) = TCBPool s" "TQueuePool (upd f s) = TQueuePool s"
      "CURID (upd f s) = CURID s" "sched_lk (upd f s) = sched_lk s" "kctx_pool (upd f s) = kctx_pool s"
      "cpu_regs (upd f s) = cpu_regs s"
    and upd_sched_lk: "upd f (s\<lparr>sched_lk := l\<rparr>) = (upd f s)\<lparr>sched_lk := l\<rparr>"
begin

lemma sched_ok_set_lock: "sched_ok (set_lock v s) xs = sched_ok s xs"
proof -
  have "queue_rep (set_lock v s) NUM_IDS xs = queue_rep s NUM_IDS xs"
    by (rule queue_rep_cong) (simp_all add: set_lock_def upd_sched upd_machine)
  then show ?thesis
    by (simp add: sched_ok_def cpu_ok_set_lock) (simp add: set_lock_def upd_sched upd_machine)
qed

lemma thread_sleep_exec:
  assumes "sched_ok s (x # xs)"
  obtains T Q where
    "thread_sleep ch upd s = Inl (Switched (resched (set_lock lock_init_val s) T Q x
       ((kctx_pool s)(cur s := cpu_regs s)) (kctx_pool s x)))"
    "\<forall>k r. sched_ok (resched (set_lock lock_init_val s) T Q x k r) xs" "x \<noteq> cur s"
    "relinked ((TCBPool s)(cur s := (TCBPool s (cur s))\<lparr>tstate := TSTATE_SLEEP, tchannel := ch\<rparr>,
       x := (TCBPool s x)\<lparr>tstate := TSTATE_RUN\<rparr>)) T"
proof -
  let ?c = "cur s"
  define u where "u = set_lock lock_init_val s"
  have u: "sched_ok u (x # xs)" "TCBPool u = TCBPool s" "CURID u = CURID s" "kstack_cpu_idx u = kstack_cpu_idx s"
    "kctx_pool u = kctx_pool s" "cpu_regs u = cpu_regs s"
    using assms by (simp_all add: u_def sched_ok_set_lock) (simp_all add: set_lock_def upd_sched upd_machine)
  note ok = sched_okD(1,2,3) [OF u(1)]
  define s1 where "s1 = u\<lparr>sched_lk := lock_held_val (kstack_cpu_idx s),
    TCBPool := (TCBPool s)(?c := (TCBPool s ?c)\<lparr>tstate := TSTATE_SLEEP, tchannel := ch\<rparr>)\<rparr>"
  note c = sched_okD(4,5,8,9) [OF assms]
  have s1: "cpu_ok s1" "queue_rep s1 NUM_IDS (x # xs)"
    using ok(1,3) queue_rep_cong [of s1 u NUM_IDS "x # xs"] by (simp_all add: s1_def u(2))
  have s1': "all_ready s1 (x # xs)" "sleepers_ok s1 (x # xs)"
    using sched_okD(6,7) [OF assms] c by (auto simp: s1_def all_ready_def sleepers_ok_def)
  obtain T3 Q3 where d: "tqueue_dequeue NUM_IDS s1 = Inr (x, s1\<lparr>TCBPool := T3, TQueuePool := Q3\<rparr>)"
    "relinked (TCBPool s1) T3" "x < NUM_IDS" "\<forall>k r. sched_ok (dispatched s1 T3 Q3 x k r) xs"
    by (rule dispatch [OF s1 s1'])
  define T where "T = T3(x := (T3 x)\<lparr>tstate := TSTATE_RUN\<rparr>)"
  have same: "dispatched s1 T3 Q3 x k r = resched u T Q3 x k r" for k r
    using ok(2) by (simp add: s1_def T_def sched_lk_same u(4))
  have acq: "sched_acquire s = Inr ((), s\<lparr>sched_lk := lock_held_val (kstack_cpu_idx s)\<rparr>)" "cpu_ok s"
    using sched_okD(1,2) [OF assms] by (simp_all add: exec)
  have rel: "spinlock_release upd (s\<lparr>sched_lk := l\<rparr>) = Inr ((), u\<lparr>sched_lk := l\<rparr>)" for l
    by (simp add: release_exec set_lock_def upd_sched_lk u_def)
  show thesis
  proof (rule that [where T = T and Q = Q3])
    show "thread_sleep ch upd s = Inl (Switched (resched (set_lock lock_init_val s) T Q3 x
       ((kctx_pool s)(?c := cpu_regs s)) (kctx_pool s x)))"
      using c(1,2) d(1,3) u(2-6)
      by (simp add: thread_sleep_def exec acq rel tcb_ops s1_def [symmetric] s1(1))
        (simp add: exec ok(1) s1_def T_def sched_lk_same ok(2) u_def [symmetric])
    show "\<forall>k r. sched_ok (resched (set_lock lock_init_val s) T Q3 x k r) xs"
      using d(4) unfolding same u_def [symmetric] .
    show "relinked ((TCBPool s)(?c := (TCBPool s ?c)\<lparr>tstate := TSTATE_SLEEP, tchannel := ch\<rparr>,
       x := (TCBPool s x)\<lparr>tstate := TSTATE_RUN\<rparr>)) T"
      using d(2) c(2) by (auto simp: relinked_iff T_def s1_def)
  qed (use c in auto)
qed

text \<open>Without a ready thread the code uses \<open>NUM_IDS\<close> as a thread number.\<close>

lemma thread_sleep_none_ready:
  assumes "sched_ok s []"
  shows "thread_sleep ch upd s = Inl OutOfBounds"
proof -
  define u where "u = set_lock lock_init_val s"
  have u: "sched_ok u []" "CURID u = CURID s" "kstack_cpu_idx u = kstack_cpu_idx s" "TCBPool u = TCBPool s"
    using assms by (simp_all add: u_def sched_ok_set_lock) (simp_all add: set_lock_def upd_sched upd_machine)
  note ok = sched_okD [OF assms]
  define s1 where "s1 = u\<lparr>sched_lk := lock_held_val (kstack_cpu_idx s),
    TCBPool := (TCBPool s)(cur s := (TCBPool s (cur s))\<lparr>tstate := TSTATE_SLEEP, tchannel := ch\<rparr>)\<rparr>"
  have s1: "cpu_ok s1" "queue_rep s1 NUM_IDS []"
    using sched_okD(1,3) [OF u(1)] queue_rep_cong [of s1 u NUM_IDS "[]"] u(4) by (simp_all add: s1_def)
  have rel: "spinlock_release upd (s\<lparr>sched_lk := l\<rparr>) = Inr ((), u\<lparr>sched_lk := l\<rparr>)" for l
    by (simp add: release_exec set_lock_def upd_sched_lk u_def)
  show ?thesis
    using ok(1,2,4) tqueue_dequeue_empty [OF s1(1) order.refl s1(2)] u(4)
    by (simp add: thread_sleep_def exec rel tcb_ops s1_def [symmetric]) (simp add: set_tcb_def exec)
qed

end

definition sleeps_on :: "'z tqueues_scheme \<Rightarrow> chan \<Rightarrow> u32 \<Rightarrow> bool" where
  "sleeps_on s ch p \<longleftrightarrow> tchannel (TCBPool s p) = ch \<and> tstate (TCBPool s p) = TSTATE_SLEEP"

definition woken :: "(u32 \<Rightarrow> TCB) \<Rightarrow> u32 list \<Rightarrow> u32 \<Rightarrow> TCB" where
  "woken T ws p = (if p \<in> set ws then (T p)\<lparr>tstate := TSTATE_READY, tchannel := ChNull\<rparr> else T p)"

text \<open>State \<open>t\<close> is \<open>s\<close> with the threads \<open>ws\<close> woken up and queued after \<open>xs\<close>.\<close>

definition wakes :: "'z sched_scheme \<Rightarrow> u32 list \<Rightarrow> u32 list \<Rightarrow> 'z sched_scheme \<Rightarrow> bool" where
  "wakes s xs ws t \<longleftrightarrow> (\<exists>T Q. t = s\<lparr>TCBPool := T, TQueuePool := Q\<rparr> \<and> relinked (woken (TCBPool s) ws) T \<and>
     (\<forall>y. y \<notin> set (xs @ ws) \<longrightarrow> T y = TCBPool s y)) \<and>
     queue_rep t NUM_IDS (xs @ ws) \<and> all_ready t (xs @ ws) \<and> sleepers_ok t (xs @ ws)"

lemma wake_step:
  assumes "cpu_ok s" "wakes s xs ws t" "p < NUM_IDS" "p \<notin> set ws" "sleepers_ok s xs"
  shows "\<exists>t'. wake_if_sleeping ch p t = Inr ((), t') \<and> wakes s xs (if sleeps_on s ch p then ws @ [p] else ws) t'"
proof -
  from assms(2) obtain T Q where t: "t = s\<lparr>TCBPool := T, TQueuePool := Q\<rparr>" "relinked (woken (TCBPool s) ws) T"
    "\<forall>y. y \<notin> set (xs @ ws) \<longrightarrow> T y = TCBPool s y"
    and q: "queue_rep t NUM_IDS (xs @ ws)" "all_ready t (xs @ ws)" "sleepers_ok t (xs @ ws)"
    unfolding wakes_def by blast
  have same: "tchannel (T p) = tchannel (TCBPool s p)" "tstate (T p) = tstate (TCBPool s p)"
    using t(2) assms(4) by (simp_all add: relinked_iff woken_def)
  show ?thesis
  proof (cases "sleeps_on s ch p")
    case False
    then have "wake_if_sleeping ch p t = Inr ((), t)"
      using assms(3) same by (auto simp: wake_if_sleeping_def exec tcb_ops t(1) sleeps_on_def)
    with False assms(2) show ?thesis by simp
  next
    case True
    define t1 where "t1 = t\<lparr>TCBPool := T(p := (T p)\<lparr>tstate := TSTATE_READY, tchannel := ChNull\<rparr>)\<rparr>"
    have p: "p \<notin> set (xs @ ws)" using True assms(3-5) by (auto simp: sleeps_on_def sleepers_ok_def)
    have T: "TCBPool t = T" "TQueuePool t1 = TQueuePool t" "kstack_cpu_idx t1 = kstack_cpu_idx t"
      "TCBPool t1 = T(p := (T p)\<lparr>tstate := TSTATE_READY, tchannel := ChNull\<rparr>)"
      by (simp_all add: t(1) t1_def)
    have "queue_rep t1 NUM_IDS (xs @ ws) = queue_rep t NUM_IDS (xs @ ws)"
      by (rule queue_rep_cong) (simp_all add: T)
    with q(1) assms(1) have t1: "queue_rep t1 NUM_IDS (xs @ ws)" "cpu_ok t1" by (simp_all add: t1_def t(1))
    have t1': "all_ready t1 (xs @ ws)" "tstate (TCBPool t1 p) = TSTATE_READY"
      using q(2) by (simp_all add: T(1,4) all_ready_def)
    have t1'': "sleepers_ok t1 (xs @ ws)"
      using q(3) by (simp add: T(1,4) sleepers_ok_def)
    obtain T' Q' where e: "tqueue_enqueue NUM_IDS p t1 = Inr ((), t1\<lparr>TCBPool := T', TQueuePool := Q'\<rparr>)"
      "queue_rep (t1\<lparr>TCBPool := T', TQueuePool := Q'\<rparr>) NUM_IDS ((xs @ ws) @ [p])" "relinked (TCBPool t1) T'"
      "all_ready (t1\<lparr>TCBPool := T', TQueuePool := Q'\<rparr>) ((xs @ ws) @ [p])"
      "sleepers_ok (t1\<lparr>TCBPool := T', TQueuePool := Q'\<rparr>) ((xs @ ws) @ [p])"
      "\<forall>y. y \<notin> set ((xs @ ws) @ [p]) \<longrightarrow> T' y = TCBPool t1 y"
      by (rule make_ready [OF t1(2,1) t1'(1) t1'' assms(3) p t1'(2)])
    have "wake_if_sleeping ch p t = Inr ((), t1\<lparr>TCBPool := T', TQueuePool := Q'\<rparr>)"
      using True assms(3) same e(1)
      by (simp add: wake_if_sleeping_def exec tcb_ops t(1) sleeps_on_def t1_def)
    moreover have "relinked (woken (TCBPool s) (ws @ [p])) T'"
      using t(2) e(3) by (simp add: relinked_iff woken_def t1_def t(1))
    moreover have "\<forall>y. y \<notin> set (xs @ ws @ [p]) \<longrightarrow> T' y = TCBPool s y"
      using t(3) e(6) by (simp add: t1_def t(1))
    ultimately show ?thesis
      using True e(2,4,5) by (auto simp: wakes_def t1_def t(1))
  qed
qed

lemma wake_loop:
  assumes "cpu_ok s" "queue_rep s NUM_IDS xs" "all_ready s xs" "sleepers_ok s xs"
  shows "\<exists>t. for_loop 1 NUM_IDS (wake_if_sleeping ch) s = Inr ((), t) \<and>
    wakes s xs (filter (sleeps_on s ch) (pages 1 NUM_IDS)) t"
proof (rule for_loop_returns_exec [where I = "\<lambda>k t. wakes s xs (filter (sleeps_on s ch) (pages 1 k)) t"])
  show "(1::u32) \<le> NUM_IDS" by simp
  show "wakes s xs (filter (sleeps_on s ch) (pages 1 1)) s"
    unfolding wakes_def
    by (intro conjI exI [of _ "TCBPool s"] exI [of _ "TQueuePool s"])
      (use assms in \<open>simp_all add: pages_empty woken_def [abs_def]\<close>)
  fix k t assume k: "1 \<le> k" "k < NUM_IDS" and w: "wakes s xs (filter (sleeps_on s ch) (pages 1 k)) t"
  have "k \<notin> set (filter (sleeps_on s ch) (pages 1 k))" by (simp add: set_pages)
  from wake_step [OF assms(1) w k(2) this assms(4), of ch]
  show "\<exists>t'. wake_if_sleeping ch k t = Inr ((), t') \<and> wakes s xs (filter (sleeps_on s ch) (pages 1 (k + 1))) t'"
    by (cases "sleeps_on s ch k") (simp_all add: pages_snoc [OF k])
qed

lemma thread_wakeup_exec:
  assumes "sched_ok s xs" and ws_def: "ws = filter (sleeps_on s ch) (pages 1 NUM_IDS)"
  obtains T Q where "thread_wakeup ch s = Inr ((), s\<lparr>TCBPool := T, TQueuePool := Q\<rparr>)"
    "sched_ok (s\<lparr>TCBPool := T, TQueuePool := Q\<rparr>) (xs @ ws)" "relinked (woken (TCBPool s) ws) T"
proof -
  define h where "h = s\<lparr>sched_lk := lock_held_val (kstack_cpu_idx s)\<rparr>"
  note ok = sched_okD [OF assms(1)]
  have h: "cpu_ok h" "queue_rep h NUM_IDS xs" "all_ready h xs" "sleepers_ok h xs"
    using ok queue_rep_cong [of h s NUM_IDS xs] by (simp_all add: h_def all_ready_def sleepers_ok_def)
  have ws: "filter (sleeps_on h ch) (pages 1 NUM_IDS) = ws"
    by (simp add: ws_def sleeps_on_def [abs_def] h_def)
  obtain t where t: "for_loop 1 NUM_IDS (wake_if_sleeping ch) h = Inr ((), t)" "wakes h xs ws t"
    using wake_loop [OF h, of ch] unfolding ws by blast
  then obtain T Q where tq: "t = h\<lparr>TCBPool := T, TQueuePool := Q\<rparr>" "relinked (woken (TCBPool s) ws) T"
    "\<forall>y. y \<notin> set (xs @ ws) \<longrightarrow> T y = TCBPool s y" "queue_rep t NUM_IDS (xs @ ws)" "all_ready t (xs @ ws)"
    "sleepers_ok t (xs @ ws)" by (auto simp: wakes_def h_def)
  have awake: "cur s \<notin> set ws" using ok(10) by (simp add: ws_def sleeps_on_def)
  show thesis
  proof (rule that [where T = T and Q = Q])
    show "thread_wakeup ch s = Inr ((), s\<lparr>TCBPool := T, TQueuePool := Q\<rparr>)"
      using t(1) ok(1,2) by (simp add: thread_wakeup_def exec h_def [symmetric] tq(1)) (simp add: h_def sched_lk_same)
    let ?s = "s\<lparr>TCBPool := T, TQueuePool := Q\<rparr>"
    have "queue_rep ?s NUM_IDS (xs @ ws) = queue_rep t NUM_IDS (xs @ ws)"
      by (rule queue_rep_cong) (simp_all add: tq(1) h_def)
    moreover have "TCBPool ?s = TCBPool t" by (simp add: tq(1))
    then have "all_ready ?s (xs @ ws)" "sleepers_ok ?s (xs @ ws)"
      using tq(5,6) by (simp_all only: all_ready_def sleepers_ok_def)
    moreover have "T (cur s) = TCBPool s (cur s)" using tq(3) awake ok(5) by simp
    ultimately show "sched_ok ?s (xs @ ws)"
      using ok awake tq(4) by (simp add: sched_ok_iff)
  qed (use tq(2) in simp)
qed

section \<open>Spawn, exit and the timer\<close>

lemma thread_spawn_exec:
  assumes "sched_ok s xs" and "cid < NUM_IDS" and "pid = child_index cid (c_nchildren (CONTAINER s cid))"
    and "pid < NUM_IDS" "pid \<noteq> cid" "pid \<noteq> cur s" "pid \<notin> set xs"
  obtains T Q where
    "thread_spawn entry cid quota s = Inr (pid, s\<lparr>CONTAINER := (CONTAINER s)
        (pid := \<lparr>c_quota = quota, c_usage = 0, c_parent = cid, c_nchildren = 0, c_used = 1\<rparr>,
         cid := (CONTAINER s cid)\<lparr>c_usage := c_usage (CONTAINER s cid) + quota,
           c_nchildren := c_nchildren (CONTAINER s cid) + 1\<rparr>),
        TCBPool := T, TQueuePool := Q,
        kctx_pool := (kctx_pool s)(pid := (kctx_pool s pid)\<lparr>k_esp := proc_kstack_hi s pid, k_eip := entry\<rparr>)\<rparr>)"
    "\<forall>C k. sched_ok (s\<lparr>CONTAINER := C, TCBPool := T, TQueuePool := Q, kctx_pool := k\<rparr>) (xs @ [pid])"
    "relinked ((TCBPool s)(pid := (TCBPool s pid)\<lparr>tstate := TSTATE_READY\<rparr>)) T"
proof -
  note ok = sched_okD [OF assms(1)]
  let ?h = "lock_held_val (kstack_cpu_idx s)"
  let ?C = "(CONTAINER s)(pid := \<lparr>c_quota = quota, c_usage = 0, c_parent = cid, c_nchildren = 0, c_used = 1\<rparr>,
         cid := (CONTAINER s cid)\<lparr>c_usage := c_usage (CONTAINER s cid) + quota,
           c_nchildren := c_nchildren (CONTAINER s cid) + 1\<rparr>)"
  let ?K = "(kctx_pool s)(pid := (kctx_pool s pid)\<lparr>k_esp := proc_kstack_hi s pid, k_eip := entry\<rparr>)"
  let ?R = "(TCBPool s)(pid := (TCBPool s pid)\<lparr>tstate := TSTATE_READY\<rparr>)"
  define s1 where "s1 = s\<lparr>sched_lk := ?h, CONTAINER := ?C, kctx_pool := ?K, TCBPool := ?R\<rparr>"
  have q: "queue_rep s1 NUM_IDS xs = queue_rep s NUM_IDS xs"
    by (rule queue_rep_cong) (simp_all add: s1_def)
  have s1: "cpu_ok s1" "queue_rep s1 NUM_IDS xs" "tstate (TCBPool s1 pid) = TSTATE_READY"
    using ok(1,3) q by (simp_all add: s1_def cpu_ok_def)
  have s1': "all_ready s1 xs" "sleepers_ok s1 xs"
    using ok(6,7) by (simp_all add: s1_def all_ready_def sleepers_ok_def)
  obtain T Q where e: "tqueue_enqueue NUM_IDS pid s1 = Inr ((), s1\<lparr>TCBPool := T, TQueuePool := Q\<rparr>)"
    "queue_rep (s1\<lparr>TCBPool := T, TQueuePool := Q\<rparr>) NUM_IDS (xs @ [pid])" "relinked (TCBPool s1) T"
    "all_ready (s1\<lparr>TCBPool := T, TQueuePool := Q\<rparr>) (xs @ [pid])" "sleepers_ok (s1\<lparr>TCBPool := T, TQueuePool := Q\<rparr>) (xs @ [pid])"
    "\<forall>y. y \<notin> set (xs @ [pid]) \<longrightarrow> T y = TCBPool s1 y"
    by (rule make_ready [OF s1(1,2) s1' assms(4,7) s1(3)])
  have split: "container_split cid quota (s\<lparr>sched_lk := ?h\<rparr>) = Inr (pid, s\<lparr>sched_lk := ?h, CONTAINER := ?C\<rparr>)"
    using container_split_exec [of cid pid "s\<lparr>sched_lk := ?h\<rparr>" quota] assms(2-5) by simp
  show thesis
  proof (rule that [where T = T and Q = Q])
    show "thread_spawn entry cid quota s = Inr (pid, s\<lparr>CONTAINER := ?C, TCBPool := T, TQueuePool := Q, kctx_pool := ?K\<rparr>)"
      using ok(1,2) assms(4) e(1)
      by (simp add: thread_spawn_def kctx_new_def alloc_mem_quota_def exec split kctx_set_esp_def kctx_set_eip_def
          set_kctx_def tcb_ops s1_def [symmetric]) (simp add: s1_def sched_lk_same)
    have qr: "queue_rep (s\<lparr>CONTAINER := C, TCBPool := T, TQueuePool := Q, kctx_pool := k\<rparr>) NUM_IDS (xs @ [pid])" for C k
      by (subst queue_rep_cong [of _ "s1\<lparr>TCBPool := T, TQueuePool := Q\<rparr>"]) (use e(2) in \<open>simp_all add: s1_def\<close>)
    have "T (cur s) = TCBPool s (cur s)" using e(6) ok(5) assms(6) by (simp add: s1_def)
    moreover have "all_ready (s\<lparr>CONTAINER := C, TCBPool := T, TQueuePool := Q, kctx_pool := k\<rparr>) (xs @ [pid])"
      "sleepers_ok (s\<lparr>CONTAINER := C, TCBPool := T, TQueuePool := Q, kctx_pool := k\<rparr>) (xs @ [pid])" for C k
      using e(4,5) by (subst threads_cong [of _ "s1\<lparr>TCBPool := T, TQueuePool := Q\<rparr>"]; simp)+
    ultimately show "\<forall>C k. sched_ok (s\<lparr>CONTAINER := C, TCBPool := T, TQueuePool := Q, kctx_pool := k\<rparr>) (xs @ [pid])"
      using qr ok(1,2,4,5,8,9,10) assms(6) by (simp add: sched_ok_iff cpu_ok_def)
    show "relinked ?R T" using e(3) by (simp add: s1_def)
  qed
qed

lemma thread_exit_exec:
  assumes "sched_ok s (x # xs)"
  obtains T Q where
    "thread_exit s = Inl (Switched (resched s T Q x ((kctx_pool s)(cur s := cpu_regs s)) (kctx_pool s x)))"
    "\<forall>k r. sched_ok (resched s T Q x k r) xs" "x \<noteq> cur s"
    "relinked ((TCBPool s)(x := (TCBPool s x)\<lparr>tstate := TSTATE_RUN\<rparr>)) T"
proof -
  note ok = sched_okD [OF assms]
  define h where "h = s\<lparr>sched_lk := lock_held_val (kstack_cpu_idx s)\<rparr>"
  have q: "queue_rep h NUM_IDS (x # xs) = queue_rep s NUM_IDS (x # xs)"
    by (rule queue_rep_cong) (simp_all add: h_def)
  have h: "cpu_ok h" "queue_rep h NUM_IDS (x # xs)" "all_ready h (x # xs)" "sleepers_ok h (x # xs)"
    using ok(1,3,6,7) q by (simp_all add: h_def all_ready_def sleepers_ok_def)
  obtain T Q where d: "tqueue_dequeue NUM_IDS h = Inr (x, h\<lparr>TCBPool := T, TQueuePool := Q\<rparr>)"
    "relinked (TCBPool h) T" "x < NUM_IDS" "\<forall>k r. sched_ok (dispatched h T Q x k r) xs"
    by (rule dispatch [OF h])
  have x: "x \<noteq> NUM_IDS" using d(3) by auto
  let ?T = "T(x := (T x)\<lparr>tstate := TSTATE_RUN\<rparr>)"
  have same: "dispatched h T Q x k r = resched s ?T Q x k r" for k r
    using ok(2) by (simp add: h_def sched_lk_same)
  show thesis
  proof (rule that [where T = ?T and Q = Q])
    show "thread_exit s = Inl (Switched (resched s ?T Q x ((kctx_pool s)(cur s := cpu_regs s)) (kctx_pool s x)))"
      using ok(1,2,4,5) d(1,3) x
      by (simp add: thread_exit_def exec tcb_ops h_def [symmetric]) (auto simp: exec h_def sched_lk_same)
    show "\<forall>k r. sched_ok (resched s ?T Q x k r) xs" using d(4) unfolding same .
    show "relinked ((TCBPool s)(x := (TCBPool s x)\<lparr>tstate := TSTATE_RUN\<rparr>)) ?T"
      using d(2) by (simp add: relinked_iff h_def)
  qed (use ok(5) in auto)
qed

text \<open>A timer interrupt: the running thread gives up the processor when its slice is over.\<close>

lemma sched_ok_cong:
  assumes "kstack_magic t = kstack_magic s" "kstack_cpu_idx t = kstack_cpu_idx s" "pcpu t = pcpu s" "sched_lk t = sched_lk s"
    "TCBPool t = TCBPool s" "TQueuePool t = TQueuePool s" "CURID t = CURID s"
  shows "sched_ok t xs = sched_ok s xs"
proof -
  have "queue_rep t NUM_IDS xs = queue_rep s NUM_IDS xs"
    by (rule queue_rep_cong) (simp_all add: assms)
  then show ?thesis by (simp add: sched_ok_def cpu_ok_def assms)
qed

lemma sched_ok_ticks: "sched_ok (s\<lparr>sched_ticks := n\<rparr>) xs = sched_ok s xs"
  by (rule sched_ok_cong) simp_all

lemma sched_update_exec:
  assumes "sched_ok s xs"
  shows "sched_update s =
    (if sched_ticks s (kstack_cpu_idx s) + 1 > SCHED_SLICE
     then thread_yield (s\<lparr>sched_ticks := (sched_ticks s)(kstack_cpu_idx s := 0)\<rparr>)
     else Inr ((), s\<lparr>sched_ticks := (sched_ticks s)(kstack_cpu_idx s := sched_ticks s (kstack_cpu_idx s) + 1)\<rparr>))"
  using sched_okD(1,2) [OF assms] by (simp add: sched_update_def exec sched_lk_same)

section \<open>Properties\<close>

text \<open>
  \<open>n\<close> times the same operation, each time in the thread that then runs: after a switch the next
  one starts from the state the other thread continues from.
\<close>

fun runs :: "nat \<Rightarrow> ('s, unit) kop \<Rightarrow> 's \<Rightarrow> 's option" where
  "runs 0 m s = Some s"
| "runs (Suc n) m s = (case m s of Inr (_, t) \<Rightarrow> runs n m t | Inl (Switched t) \<Rightarrow> runs n m t | _ \<Rightarrow> None)"

lemma yield_rotates:
  assumes "sched_ok s xs"
  shows "\<exists>t ys. (thread_yield s = Inr ((), t) \<or> thread_yield s = Inl (Switched t)) \<and> sched_ok t ys \<and>
    cur t # ys = rotate1 (cur s # xs)"
proof -
  obtain y ys where y: "y # ys = xs @ [cur s]" by (cases "xs @ [cur s]") auto
  obtain T Q where e:
    "thread_yield s = (if xs = [] then Inr ((), s\<lparr>TCBPool := T, TQueuePool := Q\<rparr>)
       else Inl (Switched (resched s T Q y ((kctx_pool s)(cur s := cpu_regs s)) (kctx_pool s y))))"
    "\<forall>k r. sched_ok (resched s T Q y k r) ys" "y \<noteq> cur s \<longleftrightarrow> xs \<noteq> []" "y < NUM_IDS"
    "relinked ((TCBPool s)(cur s := (TCBPool s (cur s))\<lparr>tstate := TSTATE_READY\<rparr>, y := (TCBPool s y)\<lparr>tstate := TSTATE_RUN\<rparr>)) T"
    by (rule thread_yield_exec [OF assms y])
  show ?thesis
  proof (cases "xs = []")
    case True
    with y have "y = cur s" "ys = []" by simp_all
    moreover have "resched s T Q (cur s) (kctx_pool s) (cpu_regs s) = s\<lparr>TCBPool := T, TQueuePool := Q\<rparr>"
      by (cases s) (simp add: fun_upd_idem)
    ultimately show ?thesis using e(1) e(2) [THEN spec [of _ "kctx_pool s"], THEN spec [of _ "cpu_regs s"]] True by auto
  next
    case False
    then show ?thesis using e(1) e(2) y by auto
  qed
qed

lemma runs_yield:
  "sched_ok s xs \<Longrightarrow> \<exists>t ys. runs n thread_yield s = Some t \<and> sched_ok t ys \<and> cur t # ys = rotate n (cur s # xs)"
proof (induction n arbitrary: s xs)
  case (Suc n)
  from yield_rotates [OF Suc.prems] obtain t ys where
    t: "thread_yield s = Inr ((), t) \<or> thread_yield s = Inl (Switched t)" "sched_ok t ys" "cur t # ys = rotate1 (cur s # xs)"
    by blast
  from Suc.IH [OF t(2)] t(1) show ?case
    by (auto simp: rotate1_rotate_swap rotate_Suc t(3) simp del: rotate1.simps)
qed auto

definition sample_sched :: sched where
  "sample_sched = tqueues.extend
     (sample_tqueues\<lparr>TCBPool := (TCBPool sample_tqueues)(1 := blank_tcb\<lparr>tstate := TSTATE_RUN\<rparr>,
        5 := blank_tcb\<lparr>tstate := TSTATE_SLEEP, tchannel := ChLog\<rparr>)\<rparr>)
     (let k = \<lparr>k_esp = 0, k_edi = 0, k_esi = 0, k_ebx = 0, k_ebp = 0, k_eip = 0\<rparr> in
      sched.fields (\<lambda>_. k) k (\<lambda>_. 0) (\<lambda>_. 1) lock_init_val (\<lambda>_. 0))"

lemma sample_sched_ok: "sched_ok sample_sched [2, 3, 4]"
proof -
  have "cpu_ok sample_sched"
    using sample_tqueues_cpu by (simp add: sample_sched_def tqueues.defs sched.defs Let_def cpu_ok_def)
  moreover have "queue_rep sample_sched NUM_IDS [2, 3, 4]"
    by (simp add: sample_sched_def sample_tqueues_def paging.defs tqueues.defs sched.defs Let_def queue_rep_def blank_tcb_def)
  ultimately show ?thesis
    by (simp add: sched_ok_def) (simp add: sample_sched_def sample_tqueues_def paging.defs tqueues.defs sched.defs Let_def blank_tcb_def)
qed

lemma sample_sched_simps [simp]:
  "CURID sample_sched c = 1" "sched_ticks sample_sched c = 0"
  "sleeps_on sample_sched ch p \<longleftrightarrow> p = 5 \<and> ch = ChLog"
  by (auto simp: sample_sched_def sample_tqueues_def paging.defs tqueues.defs sched.defs Let_def sleeps_on_def blank_tcb_def)

text \<open>
  C16. Round robin: from a well formed scheduler state every sequence of yields returns, and after
  \<open>n\<close> of them the running thread followed by the ready queue is the original sequence rotated \<open>n\<close>
  times. So every ready thread runs after at most as many yields as there are ready threads.
\<close>

theorem yield_round_robin:
  assumes "sched_ok s xs"
  shows "(\<exists>t ys. runs n thread_yield s = Some t \<and> sched_ok t ys \<and> cur t # ys = rotate n (cur s # xs)) \<and>
    (\<forall>p \<in> set xs. \<exists>k t. k \<le> length xs \<and> runs k thread_yield s = Some t \<and> cur t = p)"
proof (intro conjI ballI)
  show "\<exists>t ys. runs n thread_yield s = Some t \<and> sched_ok t ys \<and> cur t # ys = rotate n (cur s # xs)"
    by (rule runs_yield [OF assms])
  fix p assume "p \<in> set xs"
  then obtain i where i: "i < length xs" "xs ! i = p" by (auto simp: in_set_conv_nth)
  from runs_yield [OF assms, of "Suc i"] obtain t ys where
    t: "runs (Suc i) thread_yield s = Some t" "cur t # ys = rotate (Suc i) (cur s # xs)" by blast
  have "cur t = rotate (Suc i) (cur s # xs) ! 0" by (simp only: t(2) [symmetric] nth_Cons_0)
  also have "\<dots> = p" using i by (subst nth_rotate) simp_all
  finally show "\<exists>k t. k \<le> length xs \<and> runs k thread_yield s = Some t \<and> cur t = p"
    using t(1) i(1) by (intro exI [of _ "Suc i"] exI [of _ t]) simp
qed

theorem yield_round_robin_witness:
  "\<exists>t ys. runs 2 thread_yield sample_sched = Some t \<and> sched_ok t ys \<and> cur t # ys = [3, 4, 1, 2]"
  using yield_round_robin [OF sample_sched_ok, of 2] by (simp add: numeral_2_eq_2)

text \<open>
  C17. \<open>thread_wakeup\<close> wakes exactly the threads that sleep on the channel: they become ready, lose
  their channel and enter the ready queue after the threads already there, in the order of their
  numbers; every other thread keeps its state and its channel, and the running one goes on.
\<close>

theorem thread_wakeup_exact:
  assumes "sched_ok s xs"
  shows "\<exists>t. thread_wakeup ch s = Inr ((), t) \<and>
    sched_ok t (xs @ filter (sleeps_on s ch) (pages 1 NUM_IDS)) \<and> cur t = cur s \<and>
    (\<forall>p. (tstate (TCBPool t p), tchannel (TCBPool t p)) =
       (if 1 \<le> p \<and> p < NUM_IDS \<and> sleeps_on s ch p then (TSTATE_READY, ChNull)
        else (tstate (TCBPool s p), tchannel (TCBPool s p))))"
proof (rule thread_wakeup_exec [OF assms refl])
  fix T Q
  let ?ws = "filter (sleeps_on s ch) (pages 1 NUM_IDS)" and ?t = "s\<lparr>TCBPool := T, TQueuePool := Q\<rparr>"
  assume t: "thread_wakeup ch s = Inr ((), ?t)" "sched_ok ?t (xs @ ?ws)" "relinked (woken (TCBPool s) ?ws) T"
  have "(tstate (T p), tchannel (T p)) =
      (if 1 \<le> p \<and> p < NUM_IDS \<and> sleeps_on s ch p then (TSTATE_READY, ChNull)
       else (tstate (TCBPool s p), tchannel (TCBPool s p)))" for p
    using t(3) by (auto simp: relinked_iff woken_def set_pages)
  with t(1,2) show ?thesis by (intro exI [of _ ?t]) simp
qed

theorem thread_wakeup_exact_witness:
  "\<exists>t. thread_wakeup ChLog sample_sched = Inr ((), t) \<and> cur t = 1 \<and> tstate (TCBPool t 5) = TSTATE_READY"
proof -
  from thread_wakeup_exact [OF sample_sched_ok, of ChLog] obtain t where
    t: "thread_wakeup ChLog sample_sched = Inr ((), t)" "cur t = cur sample_sched"
    "\<forall>p. (tstate (TCBPool t p), tchannel (TCBPool t p)) =
       (if 1 \<le> p \<and> p < NUM_IDS \<and> sleeps_on sample_sched ChLog p then (TSTATE_READY, ChNull)
        else (tstate (TCBPool sample_sched p), tchannel (TCBPool sample_sched p)))" by blast
  from t(3) [THEN spec [of _ 5]] t(1,2) show ?thesis by simp
qed

lemma runs_sched_update:
  assumes "sched_ok s xs" and "n \<le> 5" and "sched_ticks s (kstack_cpu_idx s) = of_nat k" "n + k \<le> 5"
  shows "runs n sched_update s = Some (s\<lparr>sched_ticks := (sched_ticks s)(kstack_cpu_idx s := of_nat (k + n))\<rparr>)"
  using assms
proof (induction n arbitrary: s k)
  case 0
  then show ?case by (cases s) (simp add: fun_upd_idem)
next
  case (Suc n)
  let ?t = "s\<lparr>sched_ticks := (sched_ticks s)(kstack_cpu_idx s := of_nat (Suc k))\<rparr>"
  have "unat (of_nat k + 1 :: u32) = Suc k" using Suc.prems(4) by (simp add: unat_word_ariths unat_of_nat)
  then have "\<not> SCHED_SLICE < (of_nat k + 1 :: u32)" using Suc.prems(4) by (simp add: word_less_nat_alt)
  then have "sched_update s = Inr ((), ?t)"
    using sched_update_exec [OF Suc.prems(1)] Suc.prems(3) by (simp add: add.commute)
  moreover have "runs n sched_update ?t = Some (?t\<lparr>sched_ticks := (sched_ticks ?t)(kstack_cpu_idx ?t := of_nat (Suc k + n))\<rparr>)"
    by (rule Suc.IH) (use Suc.prems in \<open>simp_all add: sched_ok_ticks\<close>)
  ultimately show ?case by (simp add: fun_upd_def cong: if_cong)
qed

text \<open>
  C18. Preemption: a thread that starts its slice keeps the processor through five timer
  interrupts, and the sixth gives it to the first ready thread; the preempted thread goes to the
  end of the queue and the next thread starts with a full slice.
\<close>

theorem timer_preempts:
  assumes "sched_ok s (x # xs)" and "sched_ticks s (kstack_cpu_idx s) = 0"
  shows "\<exists>t u. runs 5 sched_update s = Some t \<and> cur t = cur s \<and>
    sched_update t = Inl (Switched u) \<and> cur u = x \<and> sched_ok u (xs @ [cur s]) \<and> sched_ticks u (kstack_cpu_idx u) = 0"
proof -
  let ?t = "\<lambda>n. s\<lparr>sched_ticks := (sched_ticks s)(kstack_cpu_idx s := n)\<rparr>"
  have t: "runs 5 sched_update s = Some (?t 5)" using runs_sched_update [OF assms(1), of 5 0] assms(2) by simp
  have ok: "sched_ok (?t n) (x # xs)" for n using assms(1) by (simp add: sched_ok_ticks)
  obtain T Q where e: "thread_yield (?t 0) = (if x # xs = [] then Inr ((), (?t 0)\<lparr>TCBPool := T, TQueuePool := Q\<rparr>)
       else Inl (Switched (resched (?t 0) T Q x ((kctx_pool (?t 0))(cur (?t 0) := cpu_regs (?t 0))) (kctx_pool (?t 0) x))))"
    "\<forall>k r. sched_ok (resched (?t 0) T Q x k r) (xs @ [cur (?t 0)])"
    by (rule thread_yield_exec [OF ok, of x "xs @ [cur (?t 0)]" 0]) simp_all
  have "sched_update (?t 5) = thread_yield (?t 0)"
    by (subst sched_update_exec [OF ok]) simp
  with t e show ?thesis by (intro exI [of _ "?t 5"] exI) auto
qed

theorem timer_preempts_witness:
  "\<exists>t u. runs 5 sched_update sample_sched = Some t \<and> sched_update t = Inl (Switched u) \<and> cur u = 2"
  using timer_preempts [OF sample_sched_ok] by auto

end
