(* ===== verification/C_String.thy ===== *)
theory C_String
  imports Bytes
begin

text \<open>
  The kernel's string library (\<open>kern/lib/string.c\<close>). \<open>memset\<close> and \<open>memmove\<close> work on byte-addressed
  memory through the processor's string instructions, whose direction and width the C code
  chooses. The functions on characters take the bytes from the pointer to the end of the object
  it points into; \<open>None\<close> is a read past that end.
\<close>

section \<open>Memory\<close>

fun stosb :: "bytes \<Rightarrow> u32 \<Rightarrow> u8 \<Rightarrow> nat \<Rightarrow> bytes" where
  "stosb m edi al 0 = m"
| "stosb m edi al (Suc ecx) = stosb (m(edi := al)) (edi + 1) al ecx"

fun stosl :: "bytes \<Rightarrow> u32 \<Rightarrow> u32 \<Rightarrow> nat \<Rightarrow> bytes" where
  "stosl m edi eax 0 = m"
| "stosl m edi eax (Suc ecx) = stosl (store_word m edi eax) (edi + 4) eax ecx"

definition memset :: "bytes \<Rightarrow> u32 \<Rightarrow> u32 \<Rightarrow> u32 \<Rightarrow> bytes" where
  "memset m v c n =
     (if n = 0 then m
      else if v mod 4 = 0 \<and> n mod 4 = 0 then
        (let c = c AND 0xFF;
             c = push_bit 24 c OR push_bit 16 c OR push_bit 8 c OR c
         in stosl m v c (unat (n div 4)))
      else stosb m v (ucast c) (unat n))"

text \<open>\<open>movsb\<close> and \<open>movsl\<close>; the flag is the direction, set by \<open>std\<close> and cleared by \<open>cld\<close>.\<close>

fun movsb :: "bool \<Rightarrow> bytes \<Rightarrow> u32 \<Rightarrow> u32 \<Rightarrow> nat \<Rightarrow> bytes" where
  "movsb down m edi esi 0 = m"
| "movsb down m edi esi (Suc ecx) =
     (let k = (if down then - 1 else 1) in movsb down (m(edi := m esi)) (edi + k) (esi + k) ecx)"

fun movsl :: "bool \<Rightarrow> bytes \<Rightarrow> u32 \<Rightarrow> u32 \<Rightarrow> nat \<Rightarrow> bytes" where
  "movsl down m edi esi 0 = m"
| "movsl down m edi esi (Suc ecx) =
     (let k = (if down then - 4 else 4) in
      movsl down (store_word m edi (load_word m esi)) (edi + k) (esi + k) ecx)"

definition memmove :: "bytes \<Rightarrow> u32 \<Rightarrow> u32 \<Rightarrow> u32 \<Rightarrow> bytes" where
  "memmove m dst src n =
     (let s = src; d = dst in
      if s < d \<and> s + n > d then
        let s = s + n; d = d + n in
        if s mod 4 = 0 \<and> d mod 4 = 0 \<and> n mod 4 = 0
        then movsl True m (d - 4) (s - 4) (unat (n div 4))
        else movsb True m (d - 1) (s - 1) (unat n)
      else
        if s mod 4 = 0 \<and> d mod 4 = 0 \<and> n mod 4 = 0
        then movsl False m d s (unat (n div 4))
        else movsb False m d s (unat n))"

definition memcpy :: "bytes \<Rightarrow> u32 \<Rightarrow> u32 \<Rightarrow> u32 \<Rightarrow> bytes" where
  "memcpy m dst src n = memmove m dst src n"

definition memzero :: "bytes \<Rightarrow> u32 \<Rightarrow> u32 \<Rightarrow> bytes" where
  "memzero m v n = memset m v 0 n"

section \<open>Characters\<close>

fun strncmp :: "u8 list \<Rightarrow> u8 list \<Rightarrow> nat \<Rightarrow> int option" where
  "strncmp p q 0 = Some 0"
| "strncmp (x # p) (y # q) (Suc n) =
     (if x \<noteq> 0 \<and> x = y then strncmp p q n else Some (uint x - uint y))"
| "strncmp _ _ (Suc n) = None"

fun strnlen :: "u8 list \<Rightarrow> nat \<Rightarrow> nat option" where
  "strnlen s 0 = Some 0"
| "strnlen (x # s) (Suc n) = (if x \<noteq> 0 then map_option Suc (strnlen s n) else Some 0)"
| "strnlen [] (Suc n) = None"

fun strcmp :: "u8 list \<Rightarrow> u8 list \<Rightarrow> int option" where
  "strcmp (x # p) (y # q) = (if x \<noteq> 0 \<and> x = y then strcmp p q else Some (uint x - uint y))"
| "strcmp _ _ = None"

text \<open>The result of \<open>strchr\<close> is the string from the character on, or \<open>Some None\<close> for the null pointer.\<close>

fun strchr :: "u8 list \<Rightarrow> u8 \<Rightarrow> u8 list option option" where
  "strchr [] c = None"
| "strchr (x # s) c = (if x = 0 then Some None else if x = c then Some (Some (x # s)) else strchr s c)"

fun memcmp :: "u8 list \<Rightarrow> u8 list \<Rightarrow> nat \<Rightarrow> int option" where
  "memcmp s1 s2 0 = Some 0"
| "memcmp (x # s1) (y # s2) (Suc n) = (if x \<noteq> y then Some (uint x - uint y) else memcmp s1 s2 n)"
| "memcmp _ _ (Suc n) = None"

text \<open>The bytes \<open>strncpy\<close> stores at its destination.\<close>

fun strncpy :: "u8 list \<Rightarrow> nat \<Rightarrow> u8 list option" where
  "strncpy t 0 = Some []"
| "strncpy (x # t) (Suc n) = (if x \<noteq> 0 then map_option ((#) x) (strncpy t n) else Some (replicate (Suc n) 0))"
| "strncpy [] (Suc n) = None"

fun strlen :: "u8 list \<Rightarrow> nat option" where
  "strlen [] = None"
| "strlen (x # s) = (if x \<noteq> 0 then map_option Suc (strlen s) else Some 0)"

section \<open>Copying and filling as relations between memories\<close>

definition copied_mem :: "bytes \<Rightarrow> u32 \<Rightarrow> u32 \<Rightarrow> nat \<Rightarrow> bytes" where
  "copied_mem m d s n = (\<lambda>a. if unat (a - d) < n then m (s + (a - d)) else m a)"

lemma copied_0 [simp]: "copied_mem m d s 0 = m"
  by (simp add: copied_mem_def)

lemma unat_sub_of_nat:
  fixes a d :: u32
  assumes "n < 2 ^ 32"
  shows "a = d + of_nat n \<longleftrightarrow> unat (a - d) = n"
proof
  assume "unat (a - d) = n"
  then have "of_nat n = a - d" by auto
  then show "a = d + of_nat n" by simp
qed (use assms in \<open>simp add: unat_of_nat\<close>)

lemma store_load: "store_word m d (load_word m' s) = m(d := m' s, d + 1 := m' (s + 1), d + 2 := m' (s + 2), d + 3 := m' (s + 3))"
proof -
  have w: "ucast (load_word m' s) = m' s" "ucast (drop_bit 8 (load_word m' s)) = m' (s + 1)"
    "ucast (drop_bit 16 (load_word m' s)) = m' (s + 2)" "ucast (drop_bit 24 (load_word m' s)) = m' (s + 3)"
    by (rule bit_word_eqI, auto simp: load_word_def bit_simps dest: bit_imp_le_length)+
  show ?thesis unfolding store_word_def w ..
qed

lemma copied_Suc:
  assumes "n < 2 ^ 32"
  shows "copied_mem m d s (Suc n) = (copied_mem m d s n)(d + of_nat n := m (s + of_nat n))"
proof
  fix a
  show "copied_mem m d s (Suc n) a = ((copied_mem m d s n)(d + of_nat n := m (s + of_nat n))) a"
    using unat_sub_of_nat [OF assms, of a d]
    by (cases "unat (a - d) = n") (auto simp: copied_mem_def less_Suc_eq)
qed

lemma copied_upd:
  assumes "n < 2 ^ 32" "\<And>i. i < n \<Longrightarrow> s + of_nat i \<noteq> b"
  shows "copied_mem (m(b := x)) d s n = (\<lambda>a. if unat (a - d) < n then m (s + (a - d)) else (m(b := x)) a)"
proof
  fix a
  have "s + (a - d) \<noteq> b" if "unat (a - d) < n"
    using assms(2) [OF that] by simp
  then show "copied_mem (m(b := x)) d s n a = (if unat (a - d) < n then m (s + (a - d)) else (m(b := x)) a)"
    by (auto simp: copied_mem_def)
qed

lemma copied_upd_new:
  assumes "n < 2 ^ 32" "\<And>i. i < n \<Longrightarrow> s + of_nat i \<noteq> d + of_nat n"
  shows "copied_mem (m(d + of_nat n := x)) d s n = (copied_mem m d s n)(d + of_nat n := x)"
proof -
  have "unat (d + of_nat n - d) = n" using assms(1) by (simp add: unat_of_nat)
  then show ?thesis by (subst copied_upd [OF assms]) (auto simp: copied_mem_def)
qed

text \<open>Reading a place the copy does not write.\<close>

lemma copied_other:
  assumes "n < 2 ^ 32" "\<And>i. i < n \<Longrightarrow> d + of_nat i \<noteq> b"
  shows "copied_mem m d s n b = m b"
proof -
  have "\<not> unat (b - d) < n" using assms(2) [of "unat (b - d)"] by auto
  then show ?thesis by (simp add: copied_mem_def)
qed

lemma movsb_snoc:
  "movsb False m d s (Suc n) = (let m' = movsb False m d s n in m'(d + of_nat n := m' (s + of_nat n)))"
proof (induction n arbitrary: m d s)
  case (Suc n)
  have "movsb False m d s (Suc (Suc n)) = movsb False (m(d := m s)) (d + 1) (s + 1) (Suc n)"
    by (subst movsb.simps) (simp only: Let_def if_False)
  also note Suc.IH
  also have "movsb False (m(d := m s)) (d + 1) (s + 1) n = movsb False m d s (Suc n)"
    by (simp add: Let_def)
  finally show ?case by (simp only: of_nat_Suc add.assoc)
qed simp

lemma movsb_up:
  assumes "n < 2 ^ 32" and "\<And>i j. i < j \<Longrightarrow> j < n \<Longrightarrow> d + of_nat i \<noteq> s + of_nat j"
  shows "movsb False m d s n = copied_mem m d s n"
  using assms
proof (induction n)
  case (Suc n)
  have n: "n < 2 ^ 32" using Suc.prems(1) by simp
  have "movsb False m d s n = copied_mem m d s n" by (rule Suc.IH [OF n]) (use Suc.prems(2) in simp)
  moreover have "copied_mem m d s n (s + of_nat n) = m (s + of_nat n)"
    by (rule copied_other [OF n]) (use Suc.prems(2) in simp)
  ultimately show ?case unfolding movsb_snoc Let_def copied_Suc [OF n] by simp
qed simp

lemma movsb_down:
  assumes "n < 2 ^ 32" and "\<And>i j. j < i \<Longrightarrow> i < n \<Longrightarrow> d + of_nat i \<noteq> s + of_nat j"
  shows "movsb True m (d + of_nat n - 1) (s + of_nat n - 1) n = copied_mem m d s n"
  using assms
proof (induction n arbitrary: m)
  case (Suc n)
  have n: "n < 2 ^ 32" using Suc.prems(1) by simp
  have "movsb True m (d + of_nat (Suc n) - 1) (s + of_nat (Suc n) - 1) (Suc n) =
      movsb True (m(d + of_nat n := m (s + of_nat n))) (d + of_nat n - 1) (s + of_nat n - 1) n"
    by (simp add: Let_def)
  also have "\<dots> = copied_mem (m(d + of_nat n := m (s + of_nat n))) d s n"
    by (rule Suc.IH [OF n]) (use Suc.prems(2) in simp)
  also have "\<dots> = copied_mem m d s (Suc n)" unfolding copied_Suc [OF n]
    by (rule copied_upd_new [OF n]) (use Suc.prems(2) in fastforce)
  finally show ?case .
qed simp

text \<open>Four bytes at a time.\<close>

lemma store_load_at:
  "store_word m (d + of_nat n) (load_word m' (s + of_nat n)) = m(d + of_nat n := m' (s + of_nat n),
     d + of_nat (n + 1) := m' (s + of_nat (n + 1)), d + of_nat (n + 2) := m' (s + of_nat (n + 2)),
     d + of_nat (n + 3) := m' (s + of_nat (n + 3)))"
  by (simp add: store_load ac_simps)

lemma copied_4:
  assumes "4 * n + 4 \<le> 2 ^ 32"
  shows "copied_mem m d s (4 * n + 4) = (copied_mem m d s (4 * n))
    (d + of_nat (4 * n) := m (s + of_nat (4 * n)), d + of_nat (4 * n + 1) := m (s + of_nat (4 * n + 1)),
     d + of_nat (4 * n + 2) := m (s + of_nat (4 * n + 2)), d + of_nat (4 * n + 3) := m (s + of_nat (4 * n + 3)))"
proof -
  have e: "4 * n + 4 = Suc (4 * n + 3)" "4 * n + 3 = Suc (4 * n + 2)" "4 * n + 2 = Suc (4 * n + 1)" "4 * n + 1 = Suc (4 * n)"
    by simp_all
  have "copied_mem m d s (4 * n + 4) = (copied_mem m d s (4 * n + 3))(d + of_nat (4 * n + 3) := m (s + of_nat (4 * n + 3)))"
    unfolding e(1) by (rule copied_Suc) (use assms in simp)
  also have "copied_mem m d s (4 * n + 3) = (copied_mem m d s (4 * n + 2))(d + of_nat (4 * n + 2) := m (s + of_nat (4 * n + 2)))"
    unfolding e(2) by (rule copied_Suc) (use assms in simp)
  also have "copied_mem m d s (4 * n + 2) = (copied_mem m d s (4 * n + 1))(d + of_nat (4 * n + 1) := m (s + of_nat (4 * n + 1)))"
    unfolding e(3) by (rule copied_Suc) (use assms in simp)
  also have "copied_mem m d s (4 * n + 1) = (copied_mem m d s (4 * n))(d + of_nat (4 * n) := m (s + of_nat (4 * n)))"
    unfolding e(4) by (rule copied_Suc) (use assms in simp)
  finally show ?thesis .
qed

lemma movsl_snoc:
  "movsl False m d s (Suc n) =
    (let m' = movsl False m d s n in store_word m' (d + of_nat (4 * n)) (load_word m' (s + of_nat (4 * n))))"
proof (induction n arbitrary: m d s)
  case (Suc n)
  have "movsl False m d s (Suc (Suc n)) = movsl False (store_word m d (load_word m s)) (d + 4) (s + 4) (Suc n)"
    by (subst movsl.simps) (simp only: Let_def if_False)
  also note Suc.IH
  also have "movsl False (store_word m d (load_word m s)) (d + 4) (s + 4) n = movsl False m d s (Suc n)"
    by (simp add: Let_def)
  moreover have "x + 4 + of_nat (4 * n) = x + of_nat (4 * Suc n)" for x :: u32 by simp
  ultimately show ?case by (simp only:)
qed simp

lemma movsl_up:
  assumes "4 * n \<le> 2 ^ 32" and "\<And>i j. i < j \<Longrightarrow> j < 4 * n \<Longrightarrow> d + of_nat i \<noteq> s + of_nat j"
  shows "movsl False m d s n = copied_mem m d s (4 * n)"
  using assms
proof (induction n)
  case (Suc n)
  have n: "4 * n < 2 ^ 32" "4 * n + 4 \<le> 2 ^ 32" using Suc.prems(1) by simp_all
  have IH: "movsl False m d s n = copied_mem m d s (4 * n)" by (rule Suc.IH) (use Suc.prems in simp_all)
  have "copied_mem m d s (4 * n) (s + of_nat (4 * n + k)) = m (s + of_nat (4 * n + k))" if "k < 4" for k
    by (rule copied_other [OF n(1)]) (use Suc.prems(2) [of _ "4 * n + k"] that in simp)
  from this [of 0] this [of 1] this [of 2] this [of 3] show ?case
    unfolding movsl_snoc Let_def IH store_load_at using copied_4 [OF n(2), of m d s]
    by (simp only: mult_Suc_right add.commute [of 4] add_0_right)
qed simp

lemma movsl_down:
  assumes "4 * n \<le> 2 ^ 32" and "\<And>i j. j < i \<Longrightarrow> i < 4 * n \<Longrightarrow> d + of_nat i \<noteq> s + of_nat j"
  shows "movsl True m (d + of_nat (4 * n) - 4) (s + of_nat (4 * n) - 4) n = copied_mem m d s (4 * n)"
  using assms
proof (induction n arbitrary: m)
  case (Suc n)
  have n: "4 * n < 2 ^ 32" "4 * n + 4 \<le> 2 ^ 32" using Suc.prems(1) by simp_all
  let ?m = "store_word m (d + of_nat (4 * n)) (load_word m (s + of_nat (4 * n)))"
  have "movsl True m (d + of_nat (4 * Suc n) - 4) (s + of_nat (4 * Suc n) - 4) (Suc n) =
      movsl True ?m (d + of_nat (4 * n) - 4) (s + of_nat (4 * n) - 4) n"
    by (simp add: Let_def)
  also have "\<dots> = copied_mem ?m d s (4 * n)"
    by (rule Suc.IH) (use Suc.prems in simp_all)
  also have "\<dots> = copied_mem m d s (4 * Suc n)"
  proof
    fix a
    have nc: "s + (a - d) \<noteq> d + of_nat (4 * n + k)" if "unat (a - d) < 4 * n" "k < 4" for k
      using Suc.prems(2) [of "unat (a - d)" "4 * n + k"] that by simp
    have new: "a \<noteq> d + of_nat (4 * n + k)" if "unat (a - d) < 4 * n" "k < 4" for k
      using unat_sub_of_nat [of "4 * n + k" a d] n(2) that by simp
    have e: "copied_mem m d s (4 * Suc n) = copied_mem m d s (4 * n + 4)" by (simp add: add.commute)
    show "copied_mem ?m d s (4 * n) a = copied_mem m d s (4 * Suc n) a"
    proof (cases "unat (a - d) < 4 * n")
      case True
      from nc [OF this, of 0] nc [OF this, of 1] nc [OF this, of 2] nc [OF this, of 3]
        new [OF this, of 0] new [OF this, of 1] new [OF this, of 2] new [OF this, of 3] True
      show ?thesis unfolding e copied_4 [OF n(2)] store_load_at unfolding copied_mem_def
        by (simp only: fun_upd_apply if_True if_False add_0_right)
    next
      case False
      then show ?thesis unfolding e copied_4 [OF n(2)] store_load_at unfolding copied_mem_def
        by (simp only: fun_upd_apply if_False)
    qed
  qed
  finally show ?case .
qed simp

section \<open>Properties\<close>

text \<open>
  C19. \<open>memmove\<close> copies correctly whatever the overlap of the two ranges and whichever of its four
  copying loops it chooses: every byte of the destination gets the byte the source had before
  the call, and nothing else changes, provided neither range wraps around the address space.
\<close>

theorem memmove_correct:
  assumes "unat dst + unat n < 2 ^ 32" and "unat src + unat n < 2 ^ 32"
  shows "memmove m dst src n = (\<lambda>a. if a - dst < n then m (src + (a - dst)) else m a)"
proof -
  have idx: "unat (x + of_nat i) = unat x + i" if "unat x + unat n < 2 ^ 32" "i \<le> unat n" for x :: u32 and i
    using that by (simp add: unat_word_ariths unat_of_nat)
  have n: "unat n < 2 ^ 32" using assms by simp
  have four: "4 * unat (n div 4) = unat n" if "n mod 4 = 0"
  proof -
    have "unat n mod 4 = 0" using that by (simp add: word_unat_eq_iff unat_mod)
    then show ?thesis using mult_div_mod_eq [of 4 "unat n"] by (simp add: unat_div)
  qed
  have "memmove m dst src n = copied_mem m dst src (unat n)"
  proof (cases "src < dst \<and> src + n > dst")
    case True
    have nc: "dst + of_nat i \<noteq> src + of_nat j" if "j < i" "i < unat n" for i j
      using True that idx [OF assms(1), of i] idx [OF assms(2), of j] by (auto simp: word_less_nat_alt)
    have "movsb True m (dst + n - 1) (src + n - 1) (unat n) = copied_mem m dst src (unat n)"
      using movsb_down [OF n nc, of m] by simp
    moreover have "movsl True m (dst + n - 4) (src + n - 4) (unat (n div 4)) = copied_mem m dst src (unat n)" if "n mod 4 = 0"
      using movsl_down [of "unat (n div 4)" dst src m, unfolded four [OF that]] nc n by simp
    ultimately show ?thesis using True by (simp add: memmove_def Let_def)
  next
    case False
    have nc: "dst + of_nat i \<noteq> src + of_nat j" if "i < j" "j < unat n" for i j
      using False that idx [OF assms(1), of i] idx [OF assms(2), of j] idx [OF assms(2), of "unat n"]
      by (auto simp: word_less_nat_alt)
    have "movsb False m dst src (unat n) = copied_mem m dst src (unat n)"
      by (rule movsb_up [OF n nc])
    moreover have "movsl False m dst src (unat (n div 4)) = copied_mem m dst src (unat n)" if "n mod 4 = 0"
      using movsl_up [of "unat (n div 4)" dst src m] nc n four [OF that] by simp
    ultimately show ?thesis unfolding memmove_def Let_def if_not_P [OF False] by simp
  qed
  then show ?thesis by (simp add: copied_mem_def word_less_nat_alt)
qed

theorem memmove_correct_witness:
  "memmove (\<lambda>a. ucast a) 0x1002 0x1000 8 0x1005 = 3 \<and> memmove (\<lambda>a. ucast a) 0x1000 0x1004 8 0x100A = 0xA"
  using memmove_correct [of "0x1002" 8 "0x1000" "\<lambda>a. ucast a"] memmove_correct [of "0x1000" 8 "0x1004" "\<lambda>a. ucast a"]
  by simp

end
