(* ===== verification/User_Mem.thy ===== *)
theory User_Mem
  imports Paging C_String
begin

text \<open>
  Copying between the kernel and the memory of a process (\<open>kern/lib/pmap.c\<close>). The kernel reaches
  user pages through its identity mapping, so the copy goes page by page to the physical
  address. The kernel side of a copy is a buffer: \<open>pt_copyin\<close> returns the bytes it stores from
  \<open>kva\<close> on, \<open>pt_copyout\<close> and its callers pass the bytes at \<open>kva\<close>.
\<close>

section \<open>pmap.c\<close>

definition read_bytes :: "bytes \<Rightarrow> u32 \<Rightarrow> nat \<Rightarrow> u8 list" where
  "read_bytes m a n = map (\<lambda>i. m (a + of_nat i)) [0..<n]"

definition write_bytes :: "bytes \<Rightarrow> u32 \<Rightarrow> u8 list \<Rightarrow> bytes" where
  "write_bytes m a bs = (\<lambda>x. if unat (x - a) < length bs then bs ! unat (x - a) else m x)"

text \<open>The physical address of a user address; an absent page is allocated first.\<close>

definition user_pa :: "u32 \<Rightarrow> u32 \<Rightarrow> ('z paging_scheme, u32) kop" where
  "user_pa pmap_id uva =
     bind (get_ptbl_entry_by_va pmap_id uva) (\<lambda>uva_pa.
     bind (if uva_pa AND PTE_P = 0
           then bind (alloc_page pmap_id uva (PTE_P OR PTE_U OR PTE_W)) (\<lambda>_. get_ptbl_entry_by_va pmap_id uva)
           else ret uva_pa) (\<lambda>uva_pa.
     ret ((uva_pa AND 0xfffff000) + uva mod PAGESIZE)))"

definition chunk :: "u32 \<Rightarrow> u32 \<Rightarrow> u32" where
  "chunk uva_pa len = (if len < PAGESIZE - uva_pa mod PAGESIZE then len else PAGESIZE - uva_pa mod PAGESIZE)"

definition copyin_step :: "u32 \<Rightarrow> u32 \<times> u32 \<times> u32 \<times> u8 list \<Rightarrow> ('z paging_scheme, u32 \<times> u32 \<times> u32 \<times> u8 list + u32 \<times> u8 list) kop" where
  "copyin_step pmap_id v =
     (case v of (uva, len, copied, dst) \<Rightarrow>
      if len = 0 then ret (Inr (copied, dst))
      else bind (user_pa pmap_id uva) (\<lambda>uva_pa.
        let sz = chunk uva_pa len in
        bind (gets (\<lambda>s. read_bytes (mem8 s) uva_pa (unat sz))) (\<lambda>bs.
        ret (Inl (uva + sz, len - sz, copied + sz, dst @ bs)))))"

definition pt_copyin :: "u32 \<Rightarrow> u32 \<Rightarrow> u32 \<Rightarrow> u32 \<Rightarrow> ('z paging_scheme, u32 \<times> u8 list) kop" where
  "pt_copyin pmap_id uva kva len =
     (if \<not> (VM_USERLO \<le> uva \<and> uva + len \<le> VM_USERHI) then ret (0, [])
      else if kva + len > VM_USERHI then ret (0, [])
      else iterate (copyin_step pmap_id) (uva, len, 0, []))"

definition copyout_step :: "u32 \<Rightarrow> u32 \<times> u32 \<times> u32 \<times> u8 list \<Rightarrow> ('z paging_scheme, u32 \<times> u32 \<times> u32 \<times> u8 list + u32) kop" where
  "copyout_step pmap_id v =
     (case v of (uva, len, copied, src) \<Rightarrow>
      if len = 0 then ret (Inr copied)
      else bind (user_pa pmap_id uva) (\<lambda>uva_pa.
        let sz = chunk uva_pa len in
        seq (in_bounds (unat sz \<le> length src))
        (seq (modify (\<lambda>s. s\<lparr>mem8 := write_bytes (mem8 s) uva_pa (take (unat sz) src)\<rparr>))
        (ret (Inl (uva + sz, len - sz, copied + sz, drop (unat sz) src))))))"

definition pt_copyout :: "u8 list \<Rightarrow> u32 \<Rightarrow> u32 \<Rightarrow> u32 \<Rightarrow> u32 \<Rightarrow> ('z paging_scheme, u32) kop" where
  "pt_copyout src kva pmap_id uva len =
     (if \<not> (VM_USERLO \<le> uva \<and> uva + len \<le> VM_USERHI) then ret 0
      else if kva + len > VM_USERHI then ret 0
      else iterate (copyout_step pmap_id) (uva, len, 0, src))"

definition memset_step :: "u32 \<Rightarrow> u8 \<Rightarrow> u32 \<times> u32 \<times> u32 \<Rightarrow> ('z paging_scheme, u32 \<times> u32 \<times> u32 + u32) kop" where
  "memset_step pmap_id c v =
     (case v of (va, len, cnt) \<Rightarrow>
      if len = 0 then ret (Inr cnt)
      else bind (user_pa pmap_id va) (\<lambda>pa.
        let sz = chunk pa len in
        seq (modify (\<lambda>s. s\<lparr>mem8 := memset (mem8 s) pa (ucast c) sz\<rparr>))
        (ret (Inl (va + sz, len - sz, cnt + sz)))))"

definition pt_memset :: "u32 \<Rightarrow> u32 \<Rightarrow> u8 \<Rightarrow> u32 \<Rightarrow> ('z paging_scheme, u32) kop" where
  "pt_memset pmap_id va c len = iterate (memset_step pmap_id c) (va, len, 0)"

section \<open>The memory of a process\<close>

definition user_byte :: "'z paging_scheme \<Rightarrow> u32 \<Rightarrow> u32 \<Rightarrow> u8" where
  "user_byte s proc va = mem8 s (lookup s proc va div 4096 * 4096 + va mod 4096)"

text \<open>\<open>n\<close> addresses from \<open>va\<close> on lie in the user range, with a page present for each.\<close>

definition resident :: "'z paging_scheme \<Rightarrow> u32 \<Rightarrow> u32 \<Rightarrow> nat \<Rightarrow> bool" where
  "resident s proc va n \<longleftrightarrow> 0 < proc \<and> proc < NUM_IDS \<and> VM_USERLO \<le> va \<and> unat va + n \<le> 0xF0000000 \<and>
     (\<forall>i < n. lookup s proc (va + of_nat i) AND PTE_P \<noteq> 0)"

text \<open>All this depends on the fields of the first layers only.\<close>

lemma lookup_cong:
  assumes "mem8 t = mem8 s" "PDirPool t = PDirPool s"
  shows "lookup t proc va = lookup s proc va" "user_byte t proc va = user_byte s proc va"
    "resident t proc va n = resident s proc va n"
proof -
  have l: "lookup t proc va = lookup s proc va" for va by (simp add: lookup_def pte_def tbl_def assms)
  then show "lookup t proc va = lookup s proc va" "user_byte t proc va = user_byte s proc va"
    "resident t proc va n = resident s proc va n" by (simp_all add: user_byte_def resident_def assms)
qed

lemma vm_ok_cong:
  assumes "kstack_magic t = kstack_magic s" "kstack_cpu_idx t = kstack_cpu_idx s" "pcpu t = pcpu s"
    "mem_lk t = mem_lk s" "NUM_PAGES t = NUM_PAGES s" "last_palloc_index t = last_palloc_index s" "AT t = AT s"
    "CONTAINER t = CONTAINER s" "mem8 t = mem8 s" "PDirPool t = PDirPool s" "IDPTbl t = IDPTbl s"
  shows "vm_ok t = vm_ok s"
proof -
  have "slot_page t x = slot_page s x" for x by (cases x) (simp_all add: tbl_def pte_def assms)
  then show ?thesis
    by (simp add: vm_ok_def mat_ok_def cpu_ok_def quota_ok_def norm_page_def kern_ok_def slots_ok_def assms)
qed

lemma user_range:
  assumes "0 < proc" "proc < NUM_IDS" "VM_USERLO \<le> va" "va < VM_USERHI"
  shows "user_addr proc va"
proof -
  have "0x40000000 \<le> unat va" "unat va < 0xF0000000"
    using assms(3,4) by (simp_all add: word_le_nat_alt word_less_nat_alt)
  then have "256 \<le> unat va div 4194304" "unat va div 4194304 < 960" by linarith+
  then show ?thesis using assms(1,2) by (simp add: user_slot_def word_le_nat_alt word_less_nat_alt unat_div)
qed

lemma resident_addr:
  assumes "resident s proc va n" "i < n"
  shows "user_addr proc (va + of_nat i)" "unat (va + of_nat i) = unat va + i"
    "lookup s proc (va + of_nat i) \<noteq> 0" "lookup s proc (va + of_nat i) AND PTE_P \<noteq> 0"
proof -
  have r: "0 < proc" "proc < NUM_IDS" "VM_USERLO \<le> va" "unat va + n \<le> 0xF0000000"
    "lookup s proc (va + of_nat i) AND PTE_P \<noteq> 0"
    using assms by (simp_all add: resident_def)
  show u: "unat (va + of_nat i) = unat va + i" using r(4) assms(2) by (simp add: unat_word_ariths unat_of_nat)
  show "user_addr proc (va + of_nat i)"
    by (rule user_range [OF r(1,2)]) (use r(3,4) assms(2) u in \<open>simp_all add: word_le_nat_alt word_less_nat_alt\<close>)
  show "lookup s proc (va + of_nat i) AND PTE_P \<noteq> 0" using r(5) .
  then show "lookup s proc (va + of_nat i) \<noteq> 0" by auto
qed

text \<open>A byte address is a page number and an offset.\<close>

lemma page_offset:
  assumes "p < (0x100000 :: u32)" "d < (4096 :: u32)"
  shows "unat (p * 4096 + d) = unat p * 4096 + unat d" "(p * 4096 + d) div 4096 = p" "(p * 4096 + d) mod 4096 = d"
proof -
  have b: "unat p < 2 ^ 20" "unat d < 4096" using assms by (simp_all add: word_less_nat_alt)
  then show u: "unat (p * 4096 + d) = unat p * 4096 + unat d" by (simp add: unat_word_ariths)
  show "(p * 4096 + d) div 4096 = p" "(p * 4096 + d) mod 4096 = d"
    using b by (simp_all add: word_unat_eq_iff unat_div unat_mod u)
qed

lemma mod_4096 [simp]: "(x :: u32) mod 4096 < 4096"
  by (simp add: word_less_nat_alt unat_mod)

lemma page_offset_inj:
  assumes "p < (0x100000 :: u32)" "d < (4096 :: u32)" "p' < 0x100000" "d' < 4096"
  shows "p * 4096 + d = p' * 4096 + d' \<longleftrightarrow> p = p' \<and> d = d'"
  using page_offset(2,3) [OF assms(1,2)] page_offset(2,3) [OF assms(3,4)] by metis

text \<open>Which addresses a write inside one page touches.\<close>

lemma in_page_nat:
  fixes p p' d d' n :: nat
  assumes "d + n \<le> 4096" "d' < 4096" "p * 4096 + d \<le> p' * 4096 + d'"
  shows "p' * 4096 + d' - (p * 4096 + d) < n \<longleftrightarrow> p' = p \<and> d \<le> d' \<and> d' - d < n"
proof (cases "p' = p")
  case True
  then show ?thesis using assms by auto
next
  case False
  then have "p < p'" using assms by linarith
  then show ?thesis using False assms by linarith
qed

lemma in_page_write:
  assumes "p < (0x100000 :: u32)" "d < (4096 :: u32)" "unat d + n \<le> 4096" "p' < 0x100000" "d' < 4096"
  shows "unat (p' * 4096 + d' - (p * 4096 + d)) < n \<longleftrightarrow> p' = p \<and> d \<le> d' \<and> unat d' - unat d < n"
proof -
  have b: "unat p < 2 ^ 20" "unat d < 4096" "unat p' < 2 ^ 20" "unat d' < 4096"
    using assms by (simp_all add: word_less_nat_alt)
  note u = page_offset(1) [OF assms(1,2)] page_offset(1) [OF assms(4,5)]
  show ?thesis
  proof (cases "p * 4096 + d \<le> p' * 4096 + d'")
    case True
    then have le: "unat p * 4096 + unat d \<le> unat p' * 4096 + unat d'" using u by (simp add: word_le_nat_alt)
    have "unat (p' * 4096 + d' - (p * 4096 + d)) = unat p' * 4096 + unat d' - (unat p * 4096 + unat d)"
      using True u by (simp add: unat_sub)
    then show ?thesis using in_page_nat [OF assms(3) b(4) le] by (simp add: word_unat_eq_iff word_le_nat_alt)
  next
    case False
    then have lt: "unat p' * 4096 + unat d' < unat p * 4096 + unat d" using u by (simp add: word_le_nat_alt)
    have "unat (p' * 4096 + d' - (p * 4096 + d)) = 2 ^ 32 + (unat p' * 4096 + unat d') - (unat p * 4096 + unat d)"
      using lt u by (simp add: unat_sub_if' )
    then show ?thesis using b assms(3) lt by (auto simp: word_unat_eq_iff word_le_nat_alt)
  qed
qed

lemma page_split: "(va :: u32) div 4096 * 4096 + va mod 4096 = va"
  by (rule div_mult_mod_eq)

text \<open>
  Writing inside a page a process has mapped leaves every page table as it is and changes the
  memory of that process only, exactly at the addresses written.
\<close>

lemma frame_write_pte:
  assumes "vm_ok s" "user_addr proc va" "lookup s proc va \<noteq> 0" "unat (va mod 4096) + length bs \<le> 4096"
    and t: "t = s\<lparr>mem8 := write_bytes (mem8 s) (lookup s proc va div 4096 * 4096 + va mod 4096) bs\<rparr>"
    and i: "proc' < NUM_IDS" "i < 1024" "PDirPool s proc' i \<noteq> 0" "j < 1024"
  shows "pte t proc' i j = pte s proc' i j"
proof -
  have ne: "lookup s proc va div 4096 \<noteq> tbl s proc' i"
    using vm_ok_isolated [OF assms(1)] assms(2,3) i unfolding isolated_def by blast
  have "mem8 t (tbl s proc' i * 4096 + j * 4 + of_nat k) = mem8 s (tbl s proc' i * 4096 + j * 4 + of_nat k)" if "k < 4" for k
  proof -
    have j: "unat j < 1024" using i(4) by (simp add: word_less_nat_alt)
    then have "unat (j * 4 + of_nat k) < 4096" using that by (simp add: unat_word_ariths unat_of_nat)
    then have jk: "j * 4 + of_nat k < 4096" by (simp add: word_less_nat_alt)
    have "\<not> unat (tbl s proc' i * 4096 + (j * 4 + of_nat k) - (lookup s proc va div 4096 * 4096 + va mod 4096)) < length bs"
      using in_page_write [OF page_number_less mod_4096 assms(4) tbl_less jk] ne by metis
    then show ?thesis by (simp add: t write_bytes_def add.assoc)
  qed
  then have "load_word (mem8 t) (tbl s proc' i * 4096 + j * 4) = load_word (mem8 s) (tbl s proc' i * 4096 + j * 4)"
    by (rule load_word_cong)
  then show ?thesis by (simp add: pte_def tbl_def t)
qed

lemma frame_write_lookup:
  assumes "vm_ok s" "user_addr proc va" "lookup s proc va \<noteq> 0" "unat (va mod 4096) + length bs \<le> 4096"
    and t: "t = s\<lparr>mem8 := write_bytes (mem8 s) (lookup s proc va div 4096 * 4096 + va mod 4096) bs\<rparr>"
    and "proc' < NUM_IDS"
  shows "lookup t proc' va' = lookup s proc' va'"
  using frame_write_pte [OF assms va_bounds(1) _ va_bounds(2)] by (simp add: lookup_def t)

lemma frame_write_vm_ok:
  assumes "vm_ok s" "user_addr proc va" "lookup s proc va \<noteq> 0" "unat (va mod 4096) + length bs \<le> 4096"
    and t: "t = s\<lparr>mem8 := write_bytes (mem8 s) (lookup s proc va div 4096 * 4096 + va mod 4096) bs\<rparr>"
  shows "vm_ok t"
proof -
  have "slot_page t x = slot_page s x" for x
  proof (cases x)
    case (Tbl p i)
    then show ?thesis by (simp add: t tbl_def)
  next
    case (Frm p i j)
    have "pte t p i j = pte s p i j" if "user_slot p i" "PDirPool s p i \<noteq> 0" "j < 1024"
      using frame_write_pte [OF assms user_slot_bounds [OF that(1)] that(2,3)] .
    with Frm show ?thesis by (auto simp: t)
  qed
  with assms(1) show ?thesis
    by (simp add: vm_ok_def mat_ok_def cpu_ok_def quota_ok_def norm_page_def kern_ok_def slots_ok_def t)
qed

lemma frame_write_byte:
  assumes "vm_ok s" "user_addr proc va" "lookup s proc va \<noteq> 0" "unat (va mod 4096) + length bs \<le> 4096"
    and t: "t = s\<lparr>mem8 := write_bytes (mem8 s) (lookup s proc va div 4096 * 4096 + va mod 4096) bs\<rparr>"
    and va': "user_addr proc' va'" "lookup s proc' va' \<noteq> 0"
  shows "user_byte t proc' va' =
    (if proc' = proc \<and> unat (va' - va) < length bs then bs ! unat (va' - va) else user_byte s proc' va')"
proof -
  let ?f = "lookup s proc va div 4096" and ?f' = "lookup s proc' va' div 4096"
  have lk: "lookup t proc' va' = lookup s proc' va'"
    by (rule frame_write_lookup [OF assms(1-5) user_slot_bounds(1) [OF va'(1)]])
  have same: "proc' = proc \<and> va' div 4096 = va div 4096" if "?f' = ?f"
    using vm_ok_isolated [OF assms(1)] assms(2,3) va' that unfolding isolated_def by blast
  have hit: "unat (?f' * 4096 + va' mod 4096 - (?f * 4096 + va mod 4096)) < length bs \<longleftrightarrow>
      ?f' = ?f \<and> va mod 4096 \<le> va' mod 4096 \<and> unat (va' mod 4096) - unat (va mod 4096) < length bs"
    by (rule in_page_write [OF page_number_less mod_4096 assms(4) page_number_less mod_4096])
  have hit': "unat (va' - va) < length bs \<longleftrightarrow>
      va' div 4096 = va div 4096 \<and> va mod 4096 \<le> va' mod 4096 \<and> unat (va' mod 4096) - unat (va mod 4096) < length bs"
    using in_page_write [OF page_number_less mod_4096 assms(4) page_number_less [of va'] mod_4096 [of va'], of va]
    unfolding page_split .
  have eq: "?f' = ?f \<longleftrightarrow> proc' = proc" if "va' div 4096 = va div 4096"
    using same lookup_same_page [OF that, of s proc] by auto
  have idx: "?f' * 4096 + va' mod 4096 - (?f * 4096 + va mod 4096) = va' - va" if "?f' = ?f" "va' div 4096 = va div 4096"
  proof -
    have "va' - va = (va' div 4096 * 4096 + va' mod 4096) - (va div 4096 * 4096 + va mod 4096)" by (simp only: page_split)
    then show ?thesis using that by (simp only: add_diff_cancel_left)
  qed
  have byte: "user_byte t proc' va' =
      (if unat (?f' * 4096 + va' mod 4096 - (?f * 4096 + va mod 4096)) < length bs
       then bs ! unat (?f' * 4096 + va' mod 4096 - (?f * 4096 + va mod 4096)) else user_byte s proc' va')"
    unfolding user_byte_def lk by (simp add: t write_bytes_def)
  show ?thesis
  proof (cases "?f' = ?f")
    case True
    with same have "proc' = proc" "va' div 4096 = va div 4096" by auto
    with True hit hit' idx byte show ?thesis by simp
  next
    case False
    with hit hit' eq byte show ?thesis by auto
  qed
qed

section \<open>The copying loops\<close>

lemma user_pa_present:
  "proc < NUM_IDS \<Longrightarrow> lookup s proc va AND PTE_P \<noteq> 0 \<Longrightarrow>
   user_pa proc va s = Inr (lookup s proc va div 4096 * 4096 + va mod 4096, s)"
  by (simp add: user_pa_def exec and_mask_div)

lemma chunk_bounds:
  assumes "len \<noteq> 0" and sz_def: "sz = chunk (x div 4096 * 4096 + va mod 4096) len"
  shows "unat sz \<le> unat len" "0 < unat sz" "unat (va mod 4096) + unat sz \<le> 4096"
proof -
  let ?r = "4096 - va mod 4096"
  have m: "unat (va mod 4096) < 4096" using mod_4096 [of va] by (simp only: word_less_nat_alt) simp
  then have r: "unat ?r = 4096 - unat (va mod 4096)" by (simp add: unat_sub word_le_nat_alt)
  have "sz = (if len < ?r then len else ?r)"
    unfolding sz_def chunk_def page_offset(3) [OF page_number_less mod_4096] ..
  moreover have "0 < unat len" using assms(1) by (simp add: word_unat_eq_iff)
  ultimately show "unat sz \<le> unat len" "0 < unat sz" "unat (va mod 4096) + unat sz \<le> 4096"
    using r m by (auto simp: word_less_nat_alt)
qed

lemma same_page:
  assumes "unat (va mod 4096) + i < 4096"
  shows "(va + of_nat i) div 4096 = va div (4096 :: u32)" "(va + of_nat i) mod 4096 = va mod 4096 + of_nat i"
proof -
  have "unat (va mod 4096 + of_nat i) = unat (va mod 4096) + i"
    using assms by (simp add: unat_word_ariths unat_of_nat del: unat_mod)
  then have d: "va mod 4096 + of_nat i < 4096" using assms by (simp add: word_less_nat_alt del: unat_mod)
  have e: "va + of_nat i = va div 4096 * 4096 + (va mod 4096 + of_nat i)"
    unfolding add.assoc [symmetric] page_split ..
  show "(va + of_nat i) div 4096 = va div 4096" "(va + of_nat i) mod 4096 = va mod 4096 + of_nat i"
    unfolding e using page_offset(2,3) [OF page_number_less d] by simp_all
qed

lemma read_user_bytes:
  assumes "unat (va mod 4096) + n \<le> 4096"
  shows "read_bytes (mem8 s) (lookup s proc va div 4096 * 4096 + va mod 4096) n =
    map (\<lambda>i. user_byte s proc (va + of_nat i)) [0..<n]"
  unfolding read_bytes_def
proof (rule map_cong [OF refl])
  fix i assume "i \<in> set [0..<n]"
  with assms have i: "unat (va mod 4096) + i < 4096" by simp
  show "mem8 s (lookup s proc va div 4096 * 4096 + va mod 4096 + of_nat i) = user_byte s proc (va + of_nat i)"
    unfolding user_byte_def lookup_same_page [OF same_page(1) [OF i], of s proc] same_page(2) [OF i] by (simp only: add.assoc)
qed

lemma resident_next:
  assumes "resident s proc va n" "k \<le> n"
  shows "resident s proc (va + of_nat k) (n - k)"
proof -
  have u: "unat (va + of_nat k) = unat va + k"
    using assms by (simp add: resident_def unat_word_ariths unat_of_nat)
  have "lookup s proc (va + of_nat k + of_nat i) AND PTE_P \<noteq> 0" if "i < n - k" for i
    using resident_addr(4) [OF assms(1), of "k + i"] that by (simp add: add.assoc)
  with assms u show ?thesis by (simp add: resident_def word_le_nat_alt)
qed

lemma map_upt_append: "k \<le> n \<Longrightarrow> map f [0..<n] = map f [0..<k] @ map (\<lambda>i. f (k + i)) [0..<n - k]"
  by (rule nth_equalityI) (auto simp: nth_append)

lemma copyin_loop:
  assumes "resident s proc uva (unat len)"
  shows "iterate (copyin_step proc) (uva, len, c, dst) s =
    Inr ((c + len, dst @ map (\<lambda>i. user_byte s proc (uva + of_nat i)) [0..<unat len]), s)"
  using assms
proof (induction "unat len" arbitrary: uva len c dst rule: less_induct)
  case less
  show ?case
  proof (cases "len = 0")
    case True
    then show ?thesis by (subst iterate_unfold) (simp add: copyin_step_def exec)
  next
    case False
    define sz where "sz = chunk (lookup s proc uva div 4096 * 4096 + uva mod 4096) len"
    note b = chunk_bounds [OF False sz_def]
    have pos: "0 < unat len" using b by simp
    have "proc < NUM_IDS" using less.prems by (simp add: resident_def)
    then have step: "copyin_step proc (uva, len, c, dst) s = Inr (Inl (uva + sz, len - sz, c + sz,
        dst @ map (\<lambda>i. user_byte s proc (uva + of_nat i)) [0..<unat sz]), s)"
      using False resident_addr(4) [OF less.prems pos] read_user_bytes [OF b(3)]
      by (simp add: copyin_step_def exec user_pa_present Let_def sz_def)
    have l: "unat (len - sz) = unat len - unat sz" using b(1) by (simp add: unat_sub word_le_nat_alt)
    have r: "resident s proc (uva + sz) (unat (len - sz))"
      using resident_next [OF less.prems b(1)] by (simp add: l)
    have "map (\<lambda>i. user_byte s proc (uva + of_nat i)) [0..<unat len] =
        map (\<lambda>i. user_byte s proc (uva + of_nat i)) [0..<unat sz] @
        map (\<lambda>i. user_byte s proc (uva + sz + of_nat i)) [0..<unat (len - sz)]"
      unfolding l using map_upt_append [OF b(1), of "\<lambda>i. user_byte s proc (uva + of_nat i)"] by (simp add: add.assoc)
    with less.hyps [OF _ r] b(1,2) l show ?thesis by (simp add: iterate_next [of "copyin_step proc", OF step])
  qed
qed

text \<open>State \<open>t\<close> is \<open>s\<close> with \<open>bs\<close> stored in the memory of \<open>proc\<close> from \<open>va\<close> on.\<close>

definition stored :: "'z paging_scheme \<Rightarrow> u32 \<Rightarrow> u32 \<Rightarrow> u8 list \<Rightarrow> 'z paging_scheme \<Rightarrow> bool" where
  "stored s proc va bs t \<longleftrightarrow>
     (\<exists>m. t = s\<lparr>mem8 := m\<rparr>) \<and> vm_ok t \<and> (\<forall>proc' < NUM_IDS. \<forall>va'. lookup t proc' va' = lookup s proc' va') \<and>
     (\<forall>proc' va'. user_addr proc' va' \<and> lookup s proc' va' \<noteq> 0 \<longrightarrow> user_byte t proc' va' =
        (if proc' = proc \<and> unat (va' - va) < length bs then bs ! unat (va' - va) else user_byte s proc' va'))"

lemma stored_Nil: "vm_ok s \<Longrightarrow> stored s proc va [] s"
  unfolding stored_def by (intro conjI exI [of _ "mem8 s"]) simp_all

lemma stored_append:
  assumes "stored s proc va bs t" "stored t proc (va + of_nat (length bs)) cs u" "length bs + length cs < 2 ^ 32"
  shows "stored s proc va (bs @ cs) u"
proof -
  obtain m m' where t: "t = s\<lparr>mem8 := m\<rparr>" "u = t\<lparr>mem8 := m'\<rparr>" using assms by (auto simp: stored_def)
  have lk: "lookup t proc' va' = lookup s proc' va'" "lookup u proc' va' = lookup s proc' va'" if "proc' < NUM_IDS" for proc' va'
    using assms(1,2) that by (simp_all add: stored_def)
  have "user_byte u proc' va' =
      (if proc' = proc \<and> unat (va' - va) < length (bs @ cs) then (bs @ cs) ! unat (va' - va) else user_byte s proc' va')"
    if a: "user_addr proc' va'" "lookup s proc' va' \<noteq> 0" for proc' va'
  proof -
    have b: "user_byte t proc' va' = (if proc' = proc \<and> unat (va' - va) < length bs then bs ! unat (va' - va) else user_byte s proc' va')"
      using assms(1) a by (simp add: stored_def)
    have c: "user_byte u proc' va' = (if proc' = proc \<and> unat (va' - va - of_nat (length bs)) < length cs
        then cs ! unat (va' - va - of_nat (length bs)) else user_byte t proc' va')"
      using assms(2) a lk(1) [OF user_slot_bounds(1) [OF a(1)]] by (simp add: stored_def diff_diff_eq)
    have d: "unat (va' - va - of_nat (length bs)) =
        (if length bs \<le> unat (va' - va) then unat (va' - va) - length bs else unat (va' - va) + 2 ^ 32 - length bs)"
    proof -
      have "unat (x - of_nat (length bs)) = (if length bs \<le> unat x then unat x - length bs else unat x + 2 ^ 32 - length bs)"
        for x :: u32 using assms(3) by (simp add: unat_sub_if' unat_of_nat)
      then show ?thesis .
    qed
    show ?thesis unfolding c d b using assms(3) by (auto simp: nth_append)
  qed
  moreover have "\<exists>m. u = s\<lparr>mem8 := m\<rparr>" using t by auto
  moreover have "vm_ok u" using assms(2) by (simp add: stored_def)
  ultimately show ?thesis unfolding stored_def using lk(2) by blast
qed

lemma stored_frame:
  assumes "vm_ok s" "user_addr proc va" "lookup s proc va \<noteq> 0" "unat (va mod 4096) + length bs \<le> 4096"
  shows "stored s proc va bs (s\<lparr>mem8 := write_bytes (mem8 s) (lookup s proc va div 4096 * 4096 + va mod 4096) bs\<rparr>)"
  unfolding stored_def
  using frame_write_vm_ok [OF assms refl] frame_write_lookup [OF assms refl] frame_write_byte [OF assms refl] by blast

lemma copyout_loop:
  assumes "vm_ok s" "resident s proc uva (unat len)" "unat len \<le> length src"
  shows "\<exists>t. iterate (copyout_step proc) (uva, len, c, src) s = Inr (c + len, t) \<and> stored s proc uva (take (unat len) src) t"
  using assms
proof (induction "unat len" arbitrary: uva len c src s rule: less_induct)
  case less
  show ?case
  proof (cases "len = 0")
    case True
    then show ?thesis using less.prems(1) by (subst iterate_unfold) (simp add: copyout_step_def exec stored_Nil)
  next
    case False
    let ?pa = "lookup s proc uva div 4096 * 4096 + uva mod 4096"
    define sz where "sz = chunk ?pa len"
    note b = chunk_bounds [OF False sz_def]
    have pos: "0 < unat len" using b by simp
    define t where "t = s\<lparr>mem8 := write_bytes (mem8 s) ?pa (take (unat sz) src)\<rparr>"
    have p: "proc < NUM_IDS" using less.prems by (simp add: resident_def)
    have a: "user_addr proc uva" "lookup s proc uva \<noteq> 0" "lookup s proc uva AND PTE_P \<noteq> 0"
      using resident_addr [OF less.prems(2) pos] by simp_all
    have st: "stored s proc uva (take (unat sz) src) t"
      unfolding t_def by (rule stored_frame [OF less.prems(1) a(1,2)]) (use b less.prems(3) in simp)
    have step: "copyout_step proc (uva, len, c, src) s = Inr (Inl (uva + sz, len - sz, c + sz, drop (unat sz) src), t)"
      using False a(3) b(1) less.prems(3) p by (simp add: copyout_step_def exec user_pa_present Let_def sz_def t_def)
    have l: "unat (len - sz) = unat len - unat sz" using b(1) by (simp add: unat_sub word_le_nat_alt)
    have lk: "lookup t proc va = lookup s proc va" for va using st p by (simp add: stored_def)
    have "resident s proc (uva + sz) (unat (len - sz))"
      using resident_next [OF less.prems(2) b(1)] by (simp add: l)
    then have r: "resident t proc (uva + sz) (unat (len - sz))" by (simp add: resident_def lk)
    have "vm_ok t" using st by (simp add: stored_def)
    moreover have "unat (len - sz) \<le> length (drop (unat sz) src)" using l less.prems(3) by simp
    ultimately obtain u where
      u: "iterate (copyout_step proc) (uva + sz, len - sz, c + sz, drop (unat sz) src) t = Inr (c + len, u)"
        "stored t proc (uva + sz) (take (unat len - unat sz) (drop (unat sz) src)) u"
      using less.hyps [OF _ _ r, of "drop (unat sz) src" "c + sz"] b(1,2) l by auto
    have "take (unat sz) src @ take (unat len - unat sz) (drop (unat sz) src) = take (unat len) src"
      using b(1) by (metis le_add_diff_inverse take_add)
    moreover have "length (take (unat sz) src) = unat sz" using b(1) less.prems(3) by simp
    ultimately have "stored s proc uva (take (unat len) src) u"
      using stored_append [OF st, of "take (unat len - unat sz) (drop (unat sz) src)" u] u(2) b(1)
        unsigned_less [of len, where ?'a = nat] less.prems(3) by simp
    with u(1) show ?thesis by (simp add: iterate_next [of "copyout_step proc", OF step])
  qed
qed

section \<open>Properties\<close>

lemma write_bytes_1: "write_bytes m x [y] = m(x := y)"
proof
  fix a
  show "write_bytes m x [y] a = (m(x := y)) a"
    by (cases "a = x") (simp_all add: write_bytes_def unat_eq_zero)
qed

lemma copy_checks:
  assumes "resident s proc uva (unat len)" "0 < unat len"
  shows "VM_USERLO \<le> uva" "uva + len \<le> VM_USERHI"
proof -
  have "unat (uva + len) = unat uva + unat len"
    using assms(1) by (simp add: resident_def unat_word_ariths)
  with assms(1) show "VM_USERLO \<le> uva" "uva + len \<le> VM_USERHI" by (simp_all add: resident_def word_le_nat_alt)
qed

text \<open>Process 3 with one page, at address \<open>0x40001000\<close>.\<close>

definition sample_user :: paging where
  "sample_user = boot_paging\<lparr>
     PDirPool := (\<lambda>p i. if user_slot p i then if p = 3 \<and> i = 256 then 0x40000007 else 0 else 0x200000 + i * 4096 + 7),
     mem8 := store_word (\<lambda>_. 0) 0x40000004 0x40002007\<rparr>"

lemma sample_user_fields [simp]:
  "IDPTbl sample_user = 0x200000" "NUM_PAGES sample_user = 262148" "mem8 sample_user = store_word (\<lambda>_. 0) 0x40000004 0x40002007"
  "PDirPool sample_user p i = (if user_slot p i then if p = 3 \<and> i = 256 then 0x40000007 else 0 else 0x200000 + i * 4096 + 7)"
  "AT sample_user p = \<lparr>perm = if p < 262144 then 1 else 2, allocated = if p = 262145 then 0 else 1\<rparr>"
  "CONTAINER sample_user = CONTAINER sample_container" "pt_lk sample_user = lock_init_val"
  by (simp_all add: sample_user_def boot_paging_def container.defs paging.defs sample_container_def sample_mat_def mat.defs)

lemma sample_user_mat: "mat_ok sample_user" "quota_ok sample_user"
proof -
  show "mat_ok sample_user"
    by (simp add: mat_ok_def cpu_ok_def sample_user_def boot_paging_def container.defs paging.defs sample_container_def
        sample_mat_def boot_mat_defs)
  show "quota_ok sample_user" using sample_container_ok(2) by (simp add: quota_ok_def)
qed

lemma sample_user_pte:
  assumes "j < 1024"
  shows "pte sample_user 3 256 j = (if j = 1 then 0x40002007 else 0)"
proof -
  have t: "tbl sample_user 3 256 = 0x40000" by (simp add: tbl_def user_slot_def)
  have "0x40000 * 4096 + j * 4 = 0x40000004 \<longleftrightarrow> j = (1 :: u32)"
    using page_addr_inj [of "0x40000" j "0x40000" 1] assms by simp
  moreover have "aligned (0x40000 * 4096 + j * 4)" by (rule aligned_page_addr) (use assms in simp_all)
  moreover have "aligned 0x40000004" by (simp add: aligned_def)
  moreover have "load_word (\<lambda>_. 0) a = 0" for a by (simp add: load_word_def)
  ultimately show ?thesis unfolding pte_def t by (cases "j = 1") (simp_all add: load_store_other)
qed

lemma sample_user_slots:
  "slot_page sample_user x =
    (if x = Tbl 3 256 then Some 0x40000 else if x = Frm 3 256 1 then Some 0x40002 else None)"
proof (cases x)
  case (Tbl p i)
  then show ?thesis by (auto simp: user_slot_def tbl_def)
next
  case (Frm p i j)
  show ?thesis
  proof (cases "p = 3 \<and> i = 256 \<and> j < 1024")
    case True
    with Frm sample_user_pte [of j] show ?thesis by (cases "j = 1") (simp_all add: user_slot_def)
  next
    case False
    with Frm show ?thesis by auto
  qed
qed

lemma sample_user_ok: "vm_ok sample_user"
proof -
  have "slots_ok sample_user"
    unfolding slots_ok_def sample_user_slots by (auto simp: norm_page_def split: if_splits)
  moreover have "kern_ok sample_user"
    unfolding kern_ok_def by (intro conjI exI [of _ "0x200"]) auto
  ultimately show ?thesis using sample_user_mat by (simp add: vm_ok_def) (auto simp: norm_page_def not_less split: if_splits intro: order.strict_trans)
qed

lemma sample_user_resident: "resident sample_user 3 0x40001FFE 2"
proof -
  have "lookup sample_user 3 (0x40001FFE + of_nat i) = 0x40002007" if "i < 2" for i
  proof -
    have "lookup sample_user 3 (0x40001FFE + of_nat i) = lookup sample_user 3 0x40001FFE"
      by (rule lookup_same_page [OF same_page(1)]) (use that in simp)
    also have "\<dots> = 0x40002007" using sample_user_pte [of 1] by (simp add: lookup_def user_slot_def)
    finally show ?thesis .
  qed
  then show ?thesis by (simp add: resident_def)
qed

text \<open>
  C20. Copying out and in again: for a range of user memory whose pages are present, \<open>pt_copyout\<close>
  stores all the bytes and \<open>pt_copyin\<close> then reads back exactly these. No other byte of the
  process and no byte of any other process changes, and the page structures stay well formed.
\<close>

theorem copyout_copyin:
  assumes "vm_ok s" "resident s proc uva (length bs)" "length bs = unat len" "0 < unat len" "kva + len \<le> VM_USERHI"
  shows "\<exists>t. pt_copyout bs kva proc uva len s = Inr (len, t) \<and> vm_ok t \<and>
    pt_copyin proc uva kva len t = Inr ((len, bs), t) \<and>
    (\<forall>proc' va'. user_addr proc' va' \<and> lookup s proc' va' \<noteq> 0 \<and> \<not> (proc' = proc \<and> unat (va' - uva) < length bs) \<longrightarrow>
       user_byte t proc' va' = user_byte s proc' va')"
proof -
  have r: "resident s proc uva (unat len)" using assms(2,3) by simp
  note ck = copy_checks [OF r assms(4)]
  obtain t where t: "iterate (copyout_step proc) (uva, len, 0, bs) s = Inr (0 + len, t)" "stored s proc uva (take (unat len) bs) t"
    using copyout_loop [OF assms(1) r, of bs 0] assms(3) by auto
  have st: "stored s proc uva bs t" using t(2) assms(3) by simp
  then have vm: "vm_ok t" by (simp add: stored_def)
  have p: "proc < NUM_IDS" using r by (simp add: resident_def)
  have rt: "resident t proc uva (unat len)" using r st p by (simp add: resident_def stored_def)
  have "user_byte t proc (uva + of_nat i) = bs ! i" if "i < unat len" for i
    using st resident_addr(1,3) [OF r that] that assms(3) unsigned_less [of len, where ?'a = nat]
    by (simp add: stored_def unat_of_nat)
  then have "map (\<lambda>i. user_byte t proc (uva + of_nat i)) [0..<unat len] = bs"
    by (intro nth_equalityI) (simp_all add: assms(3))
  then have "pt_copyin proc uva kva len t = Inr ((len, bs), t)"
    using copyin_loop [OF rt, of 0 "[]"] ck leD [OF assms(5)] by (simp add: pt_copyin_def exec)
  moreover have "pt_copyout bs kva proc uva len s = Inr (len, t)"
    using t(1) ck leD [OF assms(5)] by (simp add: pt_copyout_def exec)
  ultimately show ?thesis using vm st by (intro exI [of _ t]) (auto simp: stored_def)
qed

theorem copyout_copyin_witness:
  "\<exists>t. pt_copyout [7, 8] 0x300000 3 0x40001FFE 2 sample_user = Inr (2, t) \<and>
    pt_copyin 3 0x40001FFE 0x300000 2 t = Inr ((2, [7, 8]), t)"
  using copyout_copyin [OF sample_user_ok, of 3 "0x40001FFE" "[7, 8]" 2 "0x300000"]
    sample_user_resident [unfolded numeral_2_eq_2] by auto

text \<open>
  C21. What the range check of the copies misses. The sum of address and length is a 32-bit sum,
  so a range that starts above the user area and wraps around passes: with the kernel memory
  identity mapped, two bytes copied out to \<open>0xFFFFFFFF\<close> end at the last and at the first byte of
  physical memory, both outside the user area.
\<close>

theorem copyout_wraps:
  assumes "vm_ok s" "proc < NUM_IDS" "lookup s proc 0xFFFFFFFF = 0xFFFFF103" "lookup s proc 0 = 0x103" "kva + 2 \<le> VM_USERHI"
  shows "\<exists>t. pt_copyout [a, b] kva proc 0xFFFFFFFF 2 s = Inr (2, t) \<and> mem8 t = (mem8 s)(0xFFFFFFFF := a, 0 := b) \<and>
    \<not> user_addr proc 0xFFFFFFFF \<and> \<not> user_addr proc 0"
proof -
  define t where "t = s\<lparr>mem8 := (mem8 s)(0xFFFFFFFF := a)\<rparr>"
  have c: "chunk 0xFFFFFFFF 2 = 1" "chunk 0 1 = 1" by (simp_all add: chunk_def)
  have s1: "copyout_step proc (0xFFFFFFFF, 2, 0, [a, b]) s = Inr (Inl (0, 1, 1, [b]), t)"
    using assms(2,3) by (simp add: copyout_step_def exec user_pa_present Let_def c write_bytes_1 t_def)
  have "\<not> user_slot proc (0 div 4194304)" by (simp add: user_slot_def)
  then have T: "tbl s proc 0 < VM_USERLO_PI" using kern_tbl [OF assms(1,2), of 0] by simp
  have "tbl s proc 0 * 4096 + 0 * 4 + of_nat k \<noteq> 0xFFFFFFFF" if "k < 4" for k
  proof -
    have "unat (tbl s proc 0) < 0x40000" using T by (simp add: word_less_nat_alt)
    then have "unat (tbl s proc 0 * 4096 + of_nat k) < 0x40000000" using that by (simp add: unat_word_ariths unat_of_nat)
    then show ?thesis by auto
  qed
  then have "lookup t proc 0 = lookup s proc 0"
    unfolding lookup_def pte_def tbl_def t_def
    by (simp add: tbl_def) (intro impI load_word_cong, simp)
  then have s2: "copyout_step proc (0, 1, 1, [b]) t = Inr (Inl (1, 0, 2, []), t\<lparr>mem8 := (mem8 t)(0 := b)\<rparr>)"
    using assms(2,4) by (simp add: copyout_step_def exec user_pa_present Let_def c write_bytes_1)
  have "copyout_step proc (1, 0, 2, []) u = Inr (Inr 2, u)" for u :: "'a paging_scheme"
    by (simp add: copyout_step_def exec)
  then have "iterate (copyout_step proc) (0xFFFFFFFF, 2, 0, [a, b]) s = Inr (2, t\<lparr>mem8 := (mem8 t)(0 := b)\<rparr>)"
    by (simp add: iterate_next [of "copyout_step proc", OF s1] iterate_next [of "copyout_step proc", OF s2]
        iterate_done [of "copyout_step proc"])
  with leD [OF assms(5)] show ?thesis by (simp add: pt_copyout_def t_def user_slot_def)
qed

theorem copyout_wraps_witness:
  "\<exists>s t. vm_ok (s :: paging) \<and> pt_copyout [1, 2] 0x300000 5 0xFFFFFFFF 2 s = Inr (2, t) \<and> mem8 t 0 = 2"
proof -
  obtain s :: paging where s: "vm_ok s" "lookup s 5 0xFFFFFFFF = 0xFFFFF103" "lookup s 5 0 = 0x103"
  proof (rule paging_init_exec [OF boot_paging_ok])
    fix s' :: paging assume ok: "paging_ok s'"
      and idm: "\<And>proc i j. proc < NUM_IDS \<Longrightarrow> i < 1024 \<Longrightarrow> j < 1024 \<Longrightarrow> proc = 0 \<or> i < 256 \<or> 960 \<le> i \<Longrightarrow>
         PDirPool s' proc i \<noteq> 0 \<and> pte s' proc i j = (i * 1024 + j) * 4096 + id_perm i"
    show thesis
      by (rule that [of s']) (use ok idm [of 5 1023 1023] idm [of 5 0 0] in \<open>simp_all add: paging_ok_def lookup_def id_perm_def\<close>)
  qed
  from copyout_wraps [OF s(1) _ s(2,3), of "0x300000" 1 2] show ?thesis using s(1) by auto
qed

text \<open>
  C22. What a copy does when the process has no page left: \<open>pt_copyout\<close> ignores that \<open>alloc_page\<close>
  failed, takes the absent entry for page 0 and writes the byte to the first page of physical
  memory, reporting success.
\<close>

theorem copyout_alloc_failure:
  assumes "paging_ok s" "user_addr proc va" "lookup s proc va = 0" "VM_USERLO \<le> va" "va + 1 \<le> VM_USERHI" "kva + 1 \<le> VM_USERHI"
    and "alloc_page proc va 7 s = Inr (MagicNumber, s')"
  shows "pt_copyout [b] kva proc va 1 s = Inr (1, s'\<lparr>mem8 := (mem8 s')(va mod 4096 := b)\<rparr>)"
proof -
  have p: "proc < NUM_IDS" using assms(2) by (rule user_slot_bounds)
  have "same_map s s'" using alloc_page_exec [OF assms(1,2), of 7] assms(7) by simp
  then have e: "lookup s' proc va = 0" using p assms(3) by (simp add: same_map_def)
  have seven: "PTE_P OR PTE_U OR PTE_W = 7" by simp
  have pa: "user_pa proc va s = Inr (va mod 4096, s')"
    using p assms(3,7) e by (simp add: user_pa_def exec seven)
  have c: "chunk (va mod 4096) 1 = 1"
    using chunk_bounds(1,2) [of 1 "chunk (va mod 4096) 1" 0 va] by (simp add: word_unat_eq_iff)
  have "copyout_step proc (va, 1, 0, [b]) s = Inr (Inl (va + 1, 0, 1, []), s'\<lparr>mem8 := (mem8 s')(va mod 4096 := b)\<rparr>)"
    by (simp add: copyout_step_def exec pa Let_def c write_bytes_1)
  moreover have "copyout_step proc (va + 1, 0, 1, []) u = Inr (Inr 1, u)" for u :: "'a paging_scheme"
    by (simp add: copyout_step_def exec)
  ultimately show ?thesis using assms(4,5) leD [OF assms(6)]
    by (simp add: pt_copyout_def exec iterate_next [of "copyout_step proc"] iterate_done [of "copyout_step proc"])
qed

theorem copyout_alloc_failure_witness:
  "\<exists>s'. pt_copyout [9] 0x300000 3 0x40005008 1 sample_user = Inr (1, s') \<and> mem8 s' 8 = 9"
proof -
  have ok: "paging_ok sample_user" using sample_user_ok by (simp add: paging_ok_def)
  have u: "user_addr 3 0x40005008" by (simp add: user_slot_def)
  have l: "lookup sample_user 3 0x40005008 = 0" using sample_user_pte [of 5] by (simp add: lookup_def)
  have cpu: "cpu_ok sample_user" using sample_user_mat(1) by (simp add: mat_ok_def)
  have "alloc_page 3 0x40005008 7 sample_user = Inr (MagicNumber, sample_user)"
    using cpu by (simp add: alloc_page_def exec container_alloc_def pt_lk_same)
  from copyout_alloc_failure [OF ok u l _ _ _ this, of "0x300000" 9] show ?thesis by simp
qed

end
