(* ===== verification/Linked_List.thy ===== *)
theory Linked_List
  imports Main
begin

text \<open>
  Doubly linked lists given by their link functions: the message queue and the list of disk
  buffers are represented this way.
\<close>

text \<open>\<open>chain pr nx p xs n\<close>: \<open>xs\<close> are linked in this order, between \<open>p\<close> and \<open>n\<close>.\<close>

fun chain :: "('a \<Rightarrow> 'a) \<Rightarrow> ('a \<Rightarrow> 'a) \<Rightarrow> 'a \<Rightarrow> 'a list \<Rightarrow> 'a \<Rightarrow> bool" where
  "chain pr nx p [] n \<longleftrightarrow> True"
| "chain pr nx p (x # xs) n \<longleftrightarrow> pr x = p \<and> nx x = (if xs = [] then n else hd xs) \<and> chain pr nx x xs n"

lemma chain_append:
  "chain pr nx p (xs @ ys) n \<longleftrightarrow>
     chain pr nx p xs (if ys = [] then n else hd ys) \<and> chain pr nx (if xs = [] then p else last xs) ys n"
  by (induction xs arbitrary: p) auto

lemma chain_cong:
  "(\<And>x. x \<in> set xs \<Longrightarrow> pr' x = pr x \<and> nx' x = nx x) \<Longrightarrow> chain pr' nx' p xs n = chain pr nx p xs n"
  by (induction xs arbitrary: p) auto

lemma chain_last_next:
  assumes "chain pr nx p xs n" "xs \<noteq> []" "distinct xs" "nx' (last xs) = n'"
    and "\<And>x. x \<in> set xs \<Longrightarrow> pr' x = pr x" "\<And>x. x \<in> set xs \<Longrightarrow> x \<noteq> last xs \<Longrightarrow> nx' x = nx x"
  shows "chain pr' nx' p xs n'"
proof -
  obtain ys y where xs: "xs = ys @ [y]" using assms(2) by (metis rev_exhaust)
  with assms have "chain pr nx p ys y" "pr y = (if ys = [] then p else last ys)" "y \<notin> set ys"
    by (auto simp: chain_append)
  moreover from this(3) have "chain pr' nx' p ys y = chain pr nx p ys y"
    using assms(5,6) xs by (intro chain_cong) auto
  ultimately show ?thesis using assms(4,5) xs by (simp add: chain_append)
qed

lemma chain_first_prev:
  assumes "chain pr nx p xs n" "xs \<noteq> []" "distinct xs" "pr' (hd xs) = p'"
    and "\<And>x. x \<in> set xs \<Longrightarrow> nx' x = nx x" "\<And>x. x \<in> set xs \<Longrightarrow> x \<noteq> hd xs \<Longrightarrow> pr' x = pr x"
  shows "chain pr' nx' p' xs n"
proof (cases xs)
  case (Cons y ys)
  with assms have "chain pr nx y ys n" "y \<notin> set ys" by auto
  moreover have "chain pr' nx' y ys n = chain pr nx y ys n"
    using assms(3,5,6) Cons by (intro chain_cong) auto
  ultimately show ?thesis using assms Cons by simp
qed (use assms in simp)

text \<open>Appending an element.\<close>

lemma chain_snoc:
  assumes "chain pr nx p xs n" "distinct xs" "x \<notin> set xs"
    and "pr' x = (if xs = [] then p else last xs)" "nx' x = n" "xs \<noteq> [] \<Longrightarrow> nx' (last xs) = x"
    and "\<And>y. y \<in> set xs \<Longrightarrow> pr' y = pr y" "\<And>y. y \<in> set xs \<Longrightarrow> y \<noteq> last xs \<Longrightarrow> nx' y = nx y"
  shows "chain pr' nx' p (xs @ [x]) n"
proof (cases "xs = []")
  case False
  have "chain pr' nx' p xs x"
    by (rule chain_last_next [OF assms(1) False assms(2)]) (use False assms(6-8) in auto)
  with False assms(4,5) show ?thesis by (simp add: chain_append)
qed (use assms in simp)

text \<open>Taking an element out.\<close>

lemma chain_remove:
  assumes "chain pr nx p (as @ x # bs) n" "distinct (as @ x # bs)"
    and "as \<noteq> [] \<Longrightarrow> nx' (last as) = (if bs = [] then n else hd bs)"
    and "bs \<noteq> [] \<Longrightarrow> pr' (hd bs) = (if as = [] then p else last as)"
    and "\<And>y. y \<in> set as \<Longrightarrow> y \<noteq> last as \<Longrightarrow> nx' y = nx y" "\<And>y. y \<in> set bs \<Longrightarrow> nx' y = nx y"
    and "\<And>y. y \<in> set bs \<Longrightarrow> y \<noteq> hd bs \<Longrightarrow> pr' y = pr y" "\<And>y. y \<in> set as \<Longrightarrow> pr' y = pr y"
  shows "chain pr' nx' p (as @ bs) n"
proof -
  have c: "chain pr nx p as x" "chain pr nx x bs n" using assms(1) by (simp_all add: chain_append)
  have "chain pr' nx' p as (if bs = [] then n else hd bs)"
  proof (cases "as = []")
    case False
    show ?thesis
      by (rule chain_last_next [OF c(1) False]) (use assms(2,3,5,8) False in auto)
  qed simp
  moreover have "chain pr' nx' (if as = [] then p else last as) bs n"
  proof (cases "bs = []")
    case False
    show ?thesis
      by (rule chain_first_prev [OF c(2) False]) (use assms(2,4,6,7) False in auto)
  qed simp
  ultimately show ?thesis by (simp add: chain_append)
qed

text \<open>The links of the neighbours of an element.\<close>

lemma chain_links:
  assumes "chain pr nx p (as @ x # bs) n"
  shows "pr x = (if as = [] then p else last as)" "nx x = (if bs = [] then n else hd bs)"
  using assms by (simp_all add: chain_append)

lemma chain_suffix: "chain pr nx p (as @ bs) n \<Longrightarrow> chain pr nx (if as = [] then p else last as) bs n"
  by (simp add: chain_append)

end
