(* ===== verification/Trap_Frame.thy ===== *)
theory Trap_Frame
  imports Kernel_Prelude
begin

text \<open>
  The trap frame, through which a system call gets its arguments and returns its results
  (\<open>kern/lib/trap.h\<close>, \<open>kern/trap/TSyscallArg\<close>), and the numbers of the calls and errors
  (\<open>kern/lib/syscall.h\<close>). A handler receives the frame and returns it updated.
\<close>

record pushregs =
  r_edi :: u32
  r_esi :: u32
  r_ebp :: u32
  r_oesp :: u32
  r_ebx :: u32
  r_edx :: u32
  r_ecx :: u32
  r_eax :: u32

record tf_t =
  regs :: pushregs
  tf_es :: u16
  tf_ds :: u16
  tf_trapno :: u32
  tf_err :: u32
  tf_eip :: u32
  tf_cs :: u16
  tf_eflags :: u32
  tf_esp :: u32
  tf_ss :: u16

section \<open>TSyscallArg\<close>

definition syscall_get_arg1 :: "tf_t \<Rightarrow> u32" where "syscall_get_arg1 tf = r_eax (regs tf)"
definition syscall_get_arg2 :: "tf_t \<Rightarrow> u32" where "syscall_get_arg2 tf = r_ebx (regs tf)"
definition syscall_get_arg3 :: "tf_t \<Rightarrow> u32" where "syscall_get_arg3 tf = r_ecx (regs tf)"
definition syscall_get_arg4 :: "tf_t \<Rightarrow> u32" where "syscall_get_arg4 tf = r_edx (regs tf)"
definition syscall_get_arg5 :: "tf_t \<Rightarrow> u32" where "syscall_get_arg5 tf = r_esi (regs tf)"
definition syscall_get_arg6 :: "tf_t \<Rightarrow> u32" where "syscall_get_arg6 tf = r_edi (regs tf)"

definition syscall_set_errno :: "tf_t \<Rightarrow> u32 \<Rightarrow> tf_t" where
  "syscall_set_errno tf errno = tf\<lparr>regs := (regs tf)\<lparr>r_eax := errno\<rparr>\<rparr>"

definition syscall_set_retval1 :: "tf_t \<Rightarrow> u32 \<Rightarrow> tf_t" where
  "syscall_set_retval1 tf retval = tf\<lparr>regs := (regs tf)\<lparr>r_ebx := retval\<rparr>\<rparr>"

definition syscall_set_retval2 :: "tf_t \<Rightarrow> u32 \<Rightarrow> tf_t" where
  "syscall_set_retval2 tf retval = tf\<lparr>regs := (regs tf)\<lparr>r_ecx := retval\<rparr>\<rparr>"

definition syscall_set_retval3 :: "tf_t \<Rightarrow> u32 \<Rightarrow> tf_t" where
  "syscall_set_retval3 tf retval = tf\<lparr>regs := (regs tf)\<lparr>r_edx := retval\<rparr>\<rparr>"

definition syscall_set_retval4 :: "tf_t \<Rightarrow> u32 \<Rightarrow> tf_t" where
  "syscall_set_retval4 tf retval = tf\<lparr>regs := (regs tf)\<lparr>r_esi := retval\<rparr>\<rparr>"

definition syscall_set_retval5 :: "tf_t \<Rightarrow> u32 \<Rightarrow> tf_t" where
  "syscall_set_retval5 tf retval = tf\<lparr>regs := (regs tf)\<lparr>r_edi := retval\<rparr>\<rparr>"

section \<open>System call and error numbers\<close>

datatype syscall_nr = SYS_puts | SYS_spawn | SYS_yield | SYS_produce | SYS_consume | SYS_open | SYS_close | SYS_read
  | SYS_write | SYS_pipe | SYS_mkdir | SYS_chdir | SYS_link | SYS_unlink | SYS_stat | SYS_sync_send | SYS_sync_recv
  | SYS_is_dir | SYS_ls | SYS_mv | SYS_rm | SYS_pwd | SYS_cp | SYS_cat | SYS_touch | SYS_readline | SYS_sigaction
  | SYS_kill | SYS_pause | SYS_sigreturn | SYS_exit | SYS_waitpid

definition syscalls :: "syscall_nr list" where
  "syscalls = [SYS_puts, SYS_spawn, SYS_yield, SYS_produce, SYS_consume, SYS_open, SYS_close, SYS_read,
    SYS_write, SYS_pipe, SYS_mkdir, SYS_chdir, SYS_link, SYS_unlink, SYS_stat, SYS_sync_send, SYS_sync_recv,
    SYS_is_dir, SYS_ls, SYS_mv, SYS_rm, SYS_pwd, SYS_cp, SYS_cat, SYS_touch, SYS_readline, SYS_sigaction,
    SYS_kill, SYS_pause, SYS_sigreturn, SYS_exit, SYS_waitpid]"

text \<open>The call a number stands for; the enumeration starts at 0.\<close>

definition syscall_of :: "u32 \<Rightarrow> syscall_nr option" where
  "syscall_of nr = (if unat nr < length syscalls then Some (syscalls ! unat nr) else None)"

abbreviation (input) E_SUCC :: u32 where "E_SUCC \<equiv> 0"
abbreviation (input) E_MEM :: u32 where "E_MEM \<equiv> 1"
abbreviation (input) E_INVAL_CALLNR :: u32 where "E_INVAL_CALLNR \<equiv> 3"
abbreviation (input) E_INVAL_ADDR :: u32 where "E_INVAL_ADDR \<equiv> 4"
abbreviation (input) E_INVAL_PID :: u32 where "E_INVAL_PID \<equiv> 5"
abbreviation (input) E_DISK_OP :: u32 where "E_DISK_OP \<equiv> 13"
abbreviation (input) E_EXCEEDS_QUOTA :: u32 where "E_EXCEEDS_QUOTA \<equiv> 23"
abbreviation (input) E_MAX_NUM_CHILDEN_REACHED :: u32 where "E_MAX_NUM_CHILDEN_REACHED \<equiv> 24"
abbreviation (input) E_INVAL_CHILD_ID :: u32 where "E_INVAL_CHILD_ID \<equiv> 25"
abbreviation (input) E_NEXIST :: u32 where "E_NEXIST \<equiv> 26"
abbreviation (input) E_CREATE :: u32 where "E_CREATE \<equiv> 27"
abbreviation (input) E_BADF :: u32 where "E_BADF \<equiv> 29"
abbreviation (input) E_INVAL_SIGNUM :: u32 where "E_INVAL_SIGNUM \<equiv> 30"

lemma set_errno_same [simp]: "syscall_get_arg1 (syscall_set_errno tf e) = e"
  by (simp add: syscall_get_arg1_def syscall_set_errno_def)

lemma set_retval1_same [simp]: "syscall_get_arg2 (syscall_set_retval1 tf r) = r"
  by (simp add: syscall_get_arg2_def syscall_set_retval1_def)

lemma set_errno_arg2 [simp]: "syscall_get_arg2 (syscall_set_errno tf e) = syscall_get_arg2 tf"
  and set_retval1_arg1 [simp]: "syscall_get_arg1 (syscall_set_retval1 tf e) = syscall_get_arg1 tf"
  by (simp_all add: syscall_get_arg1_def syscall_get_arg2_def syscall_set_errno_def syscall_set_retval1_def)

text \<open>The frame of a system call, for examples: the number and the arguments in the registers.\<close>

definition call_frame :: "u32 \<Rightarrow> u32 \<Rightarrow> u32 \<Rightarrow> u32 \<Rightarrow> u32 \<Rightarrow> u32 \<Rightarrow> tf_t" where
  "call_frame a1 a2 a3 a4 a5 a6 =
     \<lparr>regs = \<lparr>r_edi = a6, r_esi = a5, r_ebp = 0, r_oesp = 0, r_ebx = a2, r_edx = a4, r_ecx = a3, r_eax = a1\<rparr>,
      tf_es = 0x23, tf_ds = 0x23, tf_trapno = 48, tf_err = 0, tf_eip = 0x40000000, tf_cs = 0x1B, tf_eflags = 0x200,
      tf_esp = 0xEFFFF000, tf_ss = 0x23\<rparr>"

lemma call_frame_args [simp]:
  "syscall_get_arg1 (call_frame a1 a2 a3 a4 a5 a6) = a1" "syscall_get_arg2 (call_frame a1 a2 a3 a4 a5 a6) = a2"
  "syscall_get_arg3 (call_frame a1 a2 a3 a4 a5 a6) = a3" "syscall_get_arg4 (call_frame a1 a2 a3 a4 a5 a6) = a4"
  "syscall_get_arg5 (call_frame a1 a2 a3 a4 a5 a6) = a5" "syscall_get_arg6 (call_frame a1 a2 a3 a4 a5 a6) = a6"
  by (simp_all add: call_frame_def syscall_get_arg1_def syscall_get_arg2_def syscall_get_arg3_def syscall_get_arg4_def
      syscall_get_arg5_def syscall_get_arg6_def)

end
