(* ===== verification/Ipc.thy ===== *)
theory Ipc
  imports Scheduler User_Mem Linked_List Trap_Frame
begin

text \<open>
  Synchronous messages (\<open>kern/lib/ipc.c\<close> and the two system calls of \<open>kern/trap/TSyscall\<close> that use
  it). A sender puts itself in a queue of pending messages and sleeps until the receiver has
  copied the message from its address space. \<open>env\<close> is what the other threads do while the caller
  sleeps.
\<close>

section \<open>State\<close>

record MsgBlock =
  m_prev :: u32
  m_next :: u32
  m_send_pid :: u32
  m_recv_pid :: u32
  m_length :: u32
  m_buffer_addr :: u32

record MsgQueue =
  mq_head :: u32
  mq_tail :: u32

text \<open>\<open>msg_buf_at\<close> is the address of \<open>msg_buf\<close>.\<close>

record ipc = sched +
  msgBlock :: "u32 \<Rightarrow> MsgBlock"
  msgQueue :: MsgQueue
  msg_lk :: spinlock_t
  msg_buf :: "u8 list"
  msg_buf_at :: u32

abbreviation (input) MSG_BUF_SIZE :: u32 where "MSG_BUF_SIZE \<equiv> 100"

definition get_msg :: "u32 \<Rightarrow> (MsgBlock \<Rightarrow> 'a) \<Rightarrow> ('z ipc_scheme, 'a) kop" where
  "get_msg pid f = seq (in_bounds (pid < NUM_IDS)) (gets (\<lambda>s. f (msgBlock s pid)))"

definition set_msg :: "u32 \<Rightarrow> (MsgBlock \<Rightarrow> MsgBlock) \<Rightarrow> ('z ipc_scheme, unit) kop" where
  "set_msg pid f =
     seq (in_bounds (pid < NUM_IDS)) (modify (\<lambda>s. s\<lparr>msgBlock := (msgBlock s)(pid := f (msgBlock s pid))\<rparr>))"

definition set_msgQueue :: "(MsgQueue \<Rightarrow> MsgQueue) \<Rightarrow> ('z ipc_scheme, unit) kop" where
  "set_msgQueue f = modify (\<lambda>s. s\<lparr>msgQueue := f (msgQueue s)\<rparr>)"

section \<open>ipc.c\<close>

definition ipc_init :: "('z ipc_scheme, unit) kop" where
  "ipc_init = block [spinlock_init msg_lk_update,
     for_loop 0 NUM_IDS (\<lambda>i. set_msg i (\<lambda>_.
       \<lparr>m_prev = NUM_IDS, m_next = NUM_IDS, m_send_pid = i, m_recv_pid = NUM_IDS, m_length = 0, m_buffer_addr = 0\<rparr>)),
     set_msgQueue (\<lambda>q. q\<lparr>mq_head := NUM_IDS, mq_tail := NUM_IDS\<rparr>)]"

definition ipc_copy_step :: "u32 \<Rightarrow> u32 \<Rightarrow> u32 \<times> u32 \<times> u32 \<Rightarrow> ('z ipc_scheme, u32 \<times> u32 \<times> u32 + unit) kop" where
  "ipc_copy_step dest_pid source_pid v =
     (case v of (dest_user_addr, source_user_addr, left) \<Rightarrow>
      if 0 <s left then
        let len = (if left <s MSG_BUF_SIZE then left else MSG_BUF_SIZE) in
        bind (gets msg_buf_at) (\<lambda>kva.
        bind (pt_copyin source_pid source_user_addr kva len) (\<lambda>(copied, bs).
        seq (modify (\<lambda>s. s\<lparr>msg_buf := bs @ drop (length bs) (msg_buf s)\<rparr>))
        (bind (gets msg_buf) (\<lambda>data.
        bind (pt_copyout data kva dest_pid dest_user_addr len) (\<lambda>_.
        ret (Inl (dest_user_addr + len, source_user_addr + len, left - len)))))))
      else ret (Inr ()))"

definition ipc_copy :: "u32 \<Rightarrow> u32 \<Rightarrow> u32 \<Rightarrow> u32 \<Rightarrow> u32 \<Rightarrow> ('z ipc_scheme, unit) kop" where
  "ipc_copy dest_pid dest_user_addr source_pid source_user_addr len =
     iterate (ipc_copy_step dest_pid source_pid) (dest_user_addr, source_user_addr, len)"

definition msg_enqueue :: "u32 \<Rightarrow> ('z ipc_scheme, unit) kop" where
  "msg_enqueue send_pid =
     bind (gets (\<lambda>s. mq_tail (msgQueue s))) (\<lambda>tail.
     if tail = NUM_IDS
     then block [set_msg send_pid (\<lambda>b. b\<lparr>m_prev := NUM_IDS\<rparr>), set_msg send_pid (\<lambda>b. b\<lparr>m_next := NUM_IDS\<rparr>),
       set_msgQueue (\<lambda>q. q\<lparr>mq_head := send_pid, mq_tail := send_pid\<rparr>)]
     else block [set_msg tail (\<lambda>b. b\<lparr>m_next := send_pid\<rparr>), set_msg send_pid (\<lambda>b. b\<lparr>m_prev := tail\<rparr>),
       set_msg send_pid (\<lambda>b. b\<lparr>m_next := NUM_IDS\<rparr>), set_msgQueue (\<lambda>q. q\<lparr>mq_tail := send_pid\<rparr>)])"

definition msg_remove :: "u32 \<Rightarrow> ('z ipc_scheme, unit) kop" where
  "msg_remove send_pid =
     bind (get_msg send_pid m_prev) (\<lambda>prev.
     bind (get_msg send_pid m_next) (\<lambda>next.
     seq (if prev = NUM_IDS then
            (if next = NUM_IDS then set_msgQueue (\<lambda>q. q\<lparr>mq_head := NUM_IDS, mq_tail := NUM_IDS\<rparr>)
             else block [set_msgQueue (\<lambda>q. q\<lparr>mq_head := next\<rparr>), set_msg next (\<lambda>b. b\<lparr>m_prev := NUM_IDS\<rparr>)])
          else
            (if next = NUM_IDS
             then block [set_msgQueue (\<lambda>q. q\<lparr>mq_tail := prev\<rparr>), set_msg prev (\<lambda>b. b\<lparr>m_next := NUM_IDS\<rparr>)]
             else block [set_msg prev (\<lambda>b. b\<lparr>m_next := next\<rparr>), set_msg next (\<lambda>b. b\<lparr>m_prev := prev\<rparr>)]))
     (set_msg send_pid (\<lambda>b. b\<lparr>m_prev := NUM_IDS, m_next := NUM_IDS\<rparr>))))"

definition msg_getBlockBySendID :: "u32 \<Rightarrow> ('z ipc_scheme, u32) kop" where
  "msg_getBlockBySendID send_pid =
     bind (gets (\<lambda>s. mq_head (msgQueue s)))
     (iterate (\<lambda>pid.
        if pid = NUM_IDS then ret (Inr NUM_IDS)
        else bind (get_msg pid m_send_pid) (\<lambda>x.
          if x = send_pid then ret (Inr send_pid)
          else bind (get_msg pid m_next) (\<lambda>n. ret (Inl n)))))"

text \<open>The loop of this function does not move on to the next block.\<close>

definition msg_getBlockByRecvID :: "u32 \<Rightarrow> ('z ipc_scheme, u32) kop" where
  "msg_getBlockByRecvID recv_pid =
     bind (gets (\<lambda>s. mq_head (msgQueue s)))
     (iterate (\<lambda>pid.
        if pid = NUM_IDS then ret (Inr NUM_IDS)
        else bind (get_msg pid m_recv_pid) (\<lambda>x.
          if x = recv_pid then bind (get_msg pid m_send_pid) (\<lambda>y. ret (Inr y))
          else ret (Inl pid))))"

section \<open>sys_sync_send and sys_sync_recv\<close>

definition sys_sync_send :: "('z ipc_scheme \<Rightarrow> 'z ipc_scheme) \<Rightarrow> tf_t \<Rightarrow> ('z ipc_scheme, tf_t) kop" where
  "sys_sync_send env tf =
     seq (spinlock_acquire msg_lk msg_lk_update)
     (let recv_pid = syscall_get_arg2 tf; user_addr = syscall_get_arg3 tf; len = syscall_get_arg4 tf in
      bind get_curid (\<lambda>cur_pid.
      seq (set_msg cur_pid (\<lambda>b. b\<lparr>m_recv_pid := recv_pid\<rparr>))
      (seq (set_msg cur_pid (\<lambda>b. b\<lparr>m_buffer_addr := user_addr\<rparr>))
      (seq (set_msg cur_pid (\<lambda>b. b\<lparr>m_length := len\<rparr>))
      (seq (msg_enqueue cur_pid)
      (seq (thread_wakeup (ChSendCv cur_pid))
      (seq (iterate (\<lambda>_. bind (msg_getBlockBySendID cur_pid) (\<lambda>r.
              if r \<noteq> NUM_IDS then seq (sleep_on env (ChRecvCv cur_pid) msg_lk msg_lk_update) (ret (Inl ()))
              else ret (Inr ()))) ())
      (seq (spinlock_release msg_lk_update)
      (ret (syscall_set_errno tf E_SUCC))))))))))"

definition sys_sync_recv :: "('z ipc_scheme \<Rightarrow> 'z ipc_scheme) \<Rightarrow> tf_t \<Rightarrow> ('z ipc_scheme, tf_t) kop" where
  "sys_sync_recv env tf =
     seq (spinlock_acquire msg_lk msg_lk_update)
     (let send_pid = syscall_get_arg2 tf; user_recv_addr = syscall_get_arg3 tf; recv_length = syscall_get_arg4 tf in
      bind get_curid (\<lambda>cur_pid.
      seq (iterate (\<lambda>_. bind (msg_getBlockBySendID send_pid) (\<lambda>r.
             bind (if r = NUM_IDS then ret True else bind (get_msg send_pid m_recv_pid) (\<lambda>x. ret (x \<noteq> cur_pid))) (\<lambda>wait.
             if wait then seq (sleep_on env (ChSendCv send_pid) msg_lk msg_lk_update) (ret (Inl ()))
             else ret (Inr ())))) ())
      (bind (get_msg send_pid m_buffer_addr) (\<lambda>user_send_addr.
       bind (get_msg send_pid m_length) (\<lambda>send_length.
       let copy_length = (if send_length < recv_length then send_length else recv_length) in
       seq (ipc_copy cur_pid user_recv_addr send_pid user_send_addr copy_length)
       (seq (msg_remove send_pid)
       (seq (thread_wakeup (ChRecvCv send_pid))
       (seq (spinlock_release msg_lk_update)
       (ret (syscall_set_retval1 (syscall_set_errno tf E_SUCC) copy_length))))))))))"

section \<open>The lock of this layer\<close>

interpretation msg: lock_field msg_lk msg_lk_update
proof unfold_locales
  fix f g :: "spinlock_t \<Rightarrow> spinlock_t" and s :: "'z ipc_scheme"
  show "f (msg_lk s) = g (msg_lk s) \<Longrightarrow> msg_lk_update f s = msg_lk_update g s"
    by (cases s) simp
qed simp_all

interpretation msgs: sleep_lock msg_lk msg_lk_update
  by unfold_locales simp_all

lemma msg_lock_exec [exec]:
  "cpu_ok s \<Longrightarrow> msg_lk s = lock_init_val \<Longrightarrow>
   spinlock_acquire msg_lk msg_lk_update s = Inr ((), s\<lparr>msg_lk := lock_held_val (kstack_cpu_idx s)\<rparr>)"
  using msg.acquire_exec [of s] by (simp add: msg.set_lock_def lock_init_val_def)

lemma msg_unlock_exec [exec]: "spinlock_release msg_lk_update s = Inr ((), s\<lparr>msg_lk := lock_init_val\<rparr>)"
  by (simp add: msg.release_exec msg.set_lock_def)

lemma get_msg_exec [exec]: "pid < NUM_IDS \<Longrightarrow> get_msg pid f s = Inr (f (msgBlock s pid), s)"
  by (simp add: get_msg_def exec)

lemma set_msg_exec [exec]:
  "pid < NUM_IDS \<Longrightarrow> set_msg pid f s = Inr ((), s\<lparr>msgBlock := (msgBlock s)(pid := f (msgBlock s pid))\<rparr>)"
  by (simp add: set_msg_def exec)

lemma set_msgQueue_exec [exec]: "set_msgQueue f s = Inr ((), s\<lparr>msgQueue := f (msgQueue s)\<rparr>)"
  by (simp add: set_msgQueue_def exec)

section \<open>The queue of pending messages\<close>

definition msg_rep :: "'z ipc_scheme \<Rightarrow> u32 list \<Rightarrow> bool" where
  "msg_rep s xs \<longleftrightarrow>
     (\<forall>p \<in> set xs. p < NUM_IDS) \<and> distinct xs \<and> (\<forall>p < NUM_IDS. m_send_pid (msgBlock s p) = p) \<and>
     mq_head (msgQueue s) = (if xs = [] then NUM_IDS else hd xs) \<and>
     mq_tail (msgQueue s) = (if xs = [] then NUM_IDS else last xs) \<and>
     chain (\<lambda>p. m_prev (msgBlock s p)) (\<lambda>p. m_next (msgBlock s p)) NUM_IDS xs NUM_IDS"

text \<open>Only links differ.\<close>

definition same_msgs :: "(u32 \<Rightarrow> MsgBlock) \<Rightarrow> (u32 \<Rightarrow> MsgBlock) \<Rightarrow> bool" where
  "same_msgs B B' \<longleftrightarrow> (\<forall>p. m_send_pid (B' p) = m_send_pid (B p) \<and> m_recv_pid (B' p) = m_recv_pid (B p) \<and>
     m_length (B' p) = m_length (B p) \<and> m_buffer_addr (B' p) = m_buffer_addr (B p))"

lemma msg_enqueue_exec:
  assumes "msg_rep s xs" "p < NUM_IDS" "p \<notin> set xs"
  obtains B q where "msg_enqueue p s = Inr ((), s\<lparr>msgBlock := B, msgQueue := q\<rparr>)"
    "msg_rep (s\<lparr>msgBlock := B, msgQueue := q\<rparr>) (xs @ [p])" "same_msgs (msgBlock s) B"
proof (cases "xs = []")
  case True
  show thesis
    by (rule that [where B = "(msgBlock s)(p := (msgBlock s p)\<lparr>m_prev := NUM_IDS, m_next := NUM_IDS\<rparr>)"
          and q = "(msgQueue s)\<lparr>mq_head := p, mq_tail := p\<rparr>"])
      (use True assms in \<open>simp_all add: msg_rep_def msg_enqueue_def exec same_msgs_def\<close>)
next
  case False
  let ?l = "last xs"
  let ?B = "(msgBlock s)(?l := (msgBlock s ?l)\<lparr>m_next := p\<rparr>, p := (msgBlock s p)\<lparr>m_prev := ?l, m_next := NUM_IDS\<rparr>)"
  have r: "\<forall>p \<in> set xs. p < NUM_IDS" "distinct xs" "mq_tail (msgQueue s) = ?l"
    "chain (\<lambda>p. m_prev (msgBlock s p)) (\<lambda>p. m_next (msgBlock s p)) NUM_IDS xs NUM_IDS"
    using assms(1) False by (simp_all add: msg_rep_def)
  have "NUM_IDS \<notin> set xs" using r(1) by auto
  then have l: "?l < NUM_IDS" "?l \<noteq> NUM_IDS" "?l \<noteq> p" using r(1) assms(3) last_in_set [OF False] by metis+
  have "chain (\<lambda>p. m_prev (?B p)) (\<lambda>p. m_next (?B p)) NUM_IDS (xs @ [p]) NUM_IDS"
    by (rule chain_snoc [OF r(4,2) assms(3)]) (use False assms(3) l in auto)
  then have "msg_rep (s\<lparr>msgBlock := ?B, msgQueue := (msgQueue s)\<lparr>mq_tail := p\<rparr>\<rparr>) (xs @ [p])"
    using assms False l by (auto simp: msg_rep_def)
  then show thesis
    by (rule that [rotated]) (use r(3) l assms(2) in \<open>simp_all add: msg_enqueue_def exec same_msgs_def\<close>)
qed

lemma msg_remove_run:
  assumes "m_prev (msgBlock s p) = a" "m_next (msgBlock s p) = b" "p < NUM_IDS"
    "a \<noteq> NUM_IDS \<Longrightarrow> a < NUM_IDS" "b \<noteq> NUM_IDS \<Longrightarrow> b < NUM_IDS"
  shows "msg_remove p s = Inr ((), s\<lparr>
     msgBlock := (let C = (if a = NUM_IDS then msgBlock s else (msgBlock s)(a := (msgBlock s a)\<lparr>m_next := b\<rparr>));
        D = (if b = NUM_IDS then C else C(b := (C b)\<lparr>m_prev := a\<rparr>)) in D(p := (D p)\<lparr>m_prev := NUM_IDS, m_next := NUM_IDS\<rparr>)),
     msgQueue := \<lparr>mq_head = if a = NUM_IDS then b else mq_head (msgQueue s), mq_tail = if b = NUM_IDS then a else mq_tail (msgQueue s)\<rparr>\<rparr>)"
  using assms by (cases "a = NUM_IDS"; cases "b = NUM_IDS") (simp_all add: msg_remove_def exec Let_def)

lemma msg_remove_exec:
  assumes "msg_rep s xs" "p \<in> set xs"
  obtains B q where "msg_remove p s = Inr ((), s\<lparr>msgBlock := B, msgQueue := q\<rparr>)"
    "msg_rep (s\<lparr>msgBlock := B, msgQueue := q\<rparr>) (remove1 p xs)" "same_msgs (msgBlock s) B"
proof -
  obtain as bs where xs: "xs = as @ p # bs" "p \<notin> set as" using split_list_first [OF assms(2)] by blast
  then have rm: "remove1 p xs = as @ bs" by (simp add: remove1_append)
  have r: "\<forall>p \<in> set xs. p < NUM_IDS" "distinct xs"
    "chain (\<lambda>p. m_prev (msgBlock s p)) (\<lambda>p. m_next (msgBlock s p)) NUM_IDS (as @ p # bs) NUM_IDS"
    using assms(1) xs by (simp_all add: msg_rep_def)
  note lk = chain_links [OF r(3)]
  let ?n = "if bs = [] then NUM_IDS else hd bs" and ?p = "if as = [] then NUM_IDS else last as"
  have nn: "NUM_IDS \<notin> set as" "NUM_IDS \<notin> set bs" using r(1) xs by auto
  have b: "as \<noteq> [] \<Longrightarrow> last as < NUM_IDS \<and> last as \<noteq> NUM_IDS \<and> last as \<noteq> p \<and> last as \<in> set as"
    "bs \<noteq> [] \<Longrightarrow> hd bs < NUM_IDS \<and> hd bs \<noteq> NUM_IDS \<and> hd bs \<noteq> p \<and> hd bs \<in> set bs" "p < NUM_IDS"
  proof -
    assume "as \<noteq> []"
    then have "last as \<in> set as" by simp
    with nn r(1) xs show "last as < NUM_IDS \<and> last as \<noteq> NUM_IDS \<and> last as \<noteq> p \<and> last as \<in> set as" by (metis Un_iff set_append)
  next
    assume "bs \<noteq> []"
    then have "hd bs \<in> set bs" by simp
    with nn r(1,2) xs show "hd bs < NUM_IDS \<and> hd bs \<noteq> NUM_IDS \<and> hd bs \<noteq> p \<and> hd bs \<in> set bs" by force
  qed (use r(1) xs in simp)
  define B where "B = (\<lambda>y. (msgBlock s y)\<lparr>
     m_next := if y = p then NUM_IDS else if as \<noteq> [] \<and> y = last as then ?n else m_next (msgBlock s y),
     m_prev := if y = p then NUM_IDS else if bs \<noteq> [] \<and> y = hd bs then ?p else m_prev (msgBlock s y)\<rparr>)"
  define q where "q = \<lparr>mq_head = if as = [] then ?n else mq_head (msgQueue s),
     mq_tail = if bs = [] then ?p else mq_tail (msgQueue s)\<rparr>"
  have dis: "set as \<inter> set bs = {}" using r(2) xs by simp
  have ne: "as \<noteq> [] \<Longrightarrow> last as \<notin> set bs" "bs \<noteq> [] \<Longrightarrow> hd bs \<notin> set as"
    using dis last_in_set [of as] hd_in_set [of bs] by (metis disjoint_iff)+
  show thesis
  proof (rule that [where B = B and q = q])
    show "msg_remove p s = Inr ((), s\<lparr>msgBlock := B, msgQueue := q\<rparr>)"
    proof -
      have "msg_remove p s = Inr ((), s\<lparr>msgBlock := (let C = (if as = [] then msgBlock s else (msgBlock s)(last as := (msgBlock s (last as))\<lparr>m_next := ?n\<rparr>));
          D = (if bs = [] then C else C(hd bs := (C (hd bs))\<lparr>m_prev := ?p\<rparr>)) in D(p := (D p)\<lparr>m_prev := NUM_IDS, m_next := NUM_IDS\<rparr>)), msgQueue := q\<rparr>)"
        using msg_remove_run [OF lk(1) lk(2) b(3)] b(1,2) unfolding q_def by (cases "as = []"; cases "bs = []") simp_all
      also have "(let C = (if as = [] then msgBlock s else (msgBlock s)(last as := (msgBlock s (last as))\<lparr>m_next := ?n\<rparr>));
          D = (if bs = [] then C else C(hd bs := (C (hd bs))\<lparr>m_prev := ?p\<rparr>)) in D(p := (D p)\<lparr>m_prev := NUM_IDS, m_next := NUM_IDS\<rparr>)) = B"
        by (rule ext) (use b ne in \<open>auto simp: B_def Let_def\<close>)
      finally show ?thesis .
    qed
    have "chain (\<lambda>p. m_prev (B p)) (\<lambda>p. m_next (B p)) NUM_IDS (as @ bs) NUM_IDS"
      by (rule chain_remove [OF r(3) r(2) [unfolded xs(1)]]) (use r(2) xs b ne in \<open>auto simp: B_def\<close>)
    moreover have "mq_head (msgQueue s) = hd xs" "mq_tail (msgQueue s) = last xs"
      using assms(1) xs by (simp_all add: msg_rep_def)
    ultimately show "msg_rep (s\<lparr>msgBlock := B, msgQueue := q\<rparr>) (remove1 p xs)"
      using assms(1) xs r(1,2) unfolding rm by (simp add: msg_rep_def q_def) (simp add: B_def)
    show "same_msgs (msgBlock s) B" by (simp add: same_msgs_def B_def)
  qed
qed

lemma msg_search_exec:
  assumes "msg_rep s xs"
  shows "msg_getBlockBySendID p s = Inr (if p \<in> set xs then p else NUM_IDS, s)"
proof -
  let ?f = "\<lambda>pid. if pid = NUM_IDS then ret (Inr NUM_IDS)
        else bind (get_msg pid m_send_pid) (\<lambda>x.
          if x = p then ret (Inr p) else bind (get_msg pid m_next) (\<lambda>n. ret (Inl n)))"
  have send: "\<forall>q < NUM_IDS. m_send_pid (msgBlock s q) = q" using assms by (simp add: msg_rep_def)
  have "iterate ?f (if ys = [] then NUM_IDS else hd ys) s = Inr (if p \<in> set ys then p else NUM_IDS, s)"
    if "chain (\<lambda>p. m_prev (msgBlock s p)) (\<lambda>p. m_next (msgBlock s p)) q ys NUM_IDS" "\<forall>p \<in> set ys. p < NUM_IDS" for q ys
    using that
  proof (induction ys arbitrary: q)
    case Nil
    then show ?case by (subst iterate_unfold) (simp add: exec)
  next
    case (Cons y ys)
    have y: "y < NUM_IDS" "y \<noteq> NUM_IDS" using Cons.prems(2) by auto
    have "iterate ?f y s = (if y = p then Inr (p, s) else iterate ?f (if ys = [] then NUM_IDS else hd ys) s)"
      using y send Cons.prems(1) by (subst iterate_unfold) (simp add: exec)
    with Cons.IH [of y] Cons.prems show ?case by auto
  qed
  from this [of NUM_IDS xs] assms show ?thesis
    by (simp add: msg_getBlockBySendID_def exec msg_rep_def)
qed

section \<open>Copying a message\<close>

lemma vm_ok_msg [simp]:
  "vm_ok (s\<lparr>msg_buf := b\<rparr>) = vm_ok s" "lookup (s\<lparr>msg_buf := b\<rparr>) p va = lookup s p va"
  "user_byte (s\<lparr>msg_buf := b\<rparr>) p va = user_byte s p va" "resident (s\<lparr>msg_buf := b\<rparr>) p va n = resident s p va n"
  by (rule vm_ok_cong lookup_cong; simp)+

lemma stored_msg:
  "stored (s\<lparr>msg_buf := b\<rparr>) p va bs t \<Longrightarrow> \<exists>m. t = s\<lparr>mem8 := m, msg_buf := b\<rparr> \<and> stored s p va bs (s\<lparr>mem8 := m\<rparr>)"
proof -
  assume st: "stored (s\<lparr>msg_buf := b\<rparr>) p va bs t"
  then obtain m where t: "t = (s\<lparr>msg_buf := b\<rparr>)\<lparr>mem8 := m\<rparr>" by (auto simp: stored_def)
  then have t': "t = (s\<lparr>mem8 := m\<rparr>)\<lparr>msg_buf := b\<rparr>" by simp
  have "stored s p va bs (s\<lparr>mem8 := m\<rparr>)"
    using st unfolding t' stored_def vm_ok_msg by (intro conjI exI [of _ m]) simp_all
  with t' show ?thesis by blast
qed

text \<open>\<open>len\<close> bytes of the memory of a process.\<close>

definition user_bytes :: "'z paging_scheme \<Rightarrow> u32 \<Rightarrow> u32 \<Rightarrow> nat \<Rightarrow> u8 list" where
  "user_bytes s proc va n = map (\<lambda>i. user_byte s proc (va + of_nat i)) [0..<n]"

lemma length_user_bytes [simp]: "length (user_bytes s proc va n) = n"
  by (simp add: user_bytes_def)

lemma user_bytes_split: "k \<le> n \<Longrightarrow> user_bytes s proc va n = user_bytes s proc va k @ user_bytes s proc (va + of_nat k) (n - k)"
  unfolding user_bytes_def by (simp add: map_upt_append [of k n] add.assoc)

text \<open>One round copies up to a buffer full.\<close>

lemma ipc_copy_round:
  assumes "vm_ok s" "resident s dst dva (unat len)" "resident s src sva (unat len)" "0 < unat len" "unat len \<le> 100"
    "length (msg_buf s) = 100" "unat (msg_buf_at s) + 100 \<le> 0xF0000000"
  obtains m b where "(bind (gets msg_buf_at) (\<lambda>kva.
        bind (pt_copyin src sva kva len) (\<lambda>(copied, bs).
        seq (modify (\<lambda>s. s\<lparr>msg_buf := bs @ drop (length bs) (msg_buf s)\<rparr>))
        (bind (gets msg_buf) (\<lambda>data.
        bind (pt_copyout data kva dst dva len) (\<lambda>_. ret v)))))) s = Inr (v, s\<lparr>mem8 := m, msg_buf := b\<rparr>)"
    "length b = 100" "stored s dst dva (user_bytes s src sva (unat len)) (s\<lparr>mem8 := m\<rparr>)"
proof -
  let ?bs = "user_bytes s src sva (unat len)"
  define b where "b = ?bs @ drop (unat len) (msg_buf s)"
  have b: "length b = 100" "take (unat len) b = ?bs" using assms(5,6) by (simp_all add: b_def)
  have "unat (msg_buf_at s + len) = unat (msg_buf_at s) + unat len"
    using assms(5,7) by (simp add: unat_word_ariths)
  then have kva: "\<not> VM_USERHI < msg_buf_at s + len" using assms(5,7) by (simp add: word_less_nat_alt)
  have ci: "pt_copyin src sva (msg_buf_at s) len s = Inr ((len, ?bs), s)"
    using copyin_loop [OF assms(3), of 0 "[]"] copy_checks [OF assms(3,4)] kva
    by (simp add: pt_copyin_def exec user_bytes_def)
  obtain t where t: "iterate (copyout_step dst) (dva, len, 0, b) (s\<lparr>msg_buf := b\<rparr>) = Inr (0 + len, t)"
    "stored (s\<lparr>msg_buf := b\<rparr>) dst dva (take (unat len) b) t"
    using copyout_loop [of "s\<lparr>msg_buf := b\<rparr>" dst dva len b 0] assms(1,2,5) b(1) by auto
  then have co: "pt_copyout b (msg_buf_at s) dst dva len (s\<lparr>msg_buf := b\<rparr>) = Inr (len, t)"
    using copy_checks [OF assms(2,4)] kva by (simp add: pt_copyout_def exec)
  from stored_msg [OF t(2)] b(2) obtain m where m: "t = s\<lparr>mem8 := m, msg_buf := b\<rparr>" "stored s dst dva ?bs (s\<lparr>mem8 := m\<rparr>)"
    by auto
  show thesis
    by (rule that [OF _ b(1) m(2)]) (simp add: exec ci co m(1) b_def [symmetric])
qed

lemma resident_prefix: "resident s proc va n \<Longrightarrow> k \<le> n \<Longrightarrow> resident s proc va k"
  by (auto simp: resident_def)

lemma ipc_copy_loop:
  assumes "vm_ok s" "resident s dst dva (unat len)" "resident s src sva (unat len)" "dst \<noteq> src" "unat len < 2 ^ 31"
    "length (msg_buf s) = 100" "unat (msg_buf_at s) + 100 \<le> 0xF0000000"
  shows "\<exists>m b. iterate (ipc_copy_step dst src) (dva, sva, len) s = Inr ((), s\<lparr>mem8 := m, msg_buf := b\<rparr>) \<and>
    stored s dst dva (user_bytes s src sva (unat len)) (s\<lparr>mem8 := m\<rparr>)"
  using assms
proof (induction "unat len" arbitrary: dva sva len s rule: less_induct)
  case less
  note prems = less.prems
  have pos: "0 <s len \<longleftrightarrow> len \<noteq> 0" if "unat len < 2 ^ 31" for len :: u32
    using sless_small [of 0 len] that by (simp add: word_greater_zero_iff)
  show ?case
  proof (cases "len = 0")
    case True
    then have "iterate (ipc_copy_step dst src) (dva, sva, len) s = Inr ((), s\<lparr>mem8 := mem8 s, msg_buf := msg_buf s\<rparr>)"
      by (subst iterate_unfold) (simp add: ipc_copy_step_def exec)
    with True stored_Nil [OF prems(1)] show ?thesis by (intro exI [of _ "mem8 s"] exI [of _ "msg_buf s"]) (simp add: user_bytes_def)
  next
    case False
    define sz where "sz = (if len <s MSG_BUF_SIZE then len else MSG_BUF_SIZE)"
    have "len <s MSG_BUF_SIZE \<longleftrightarrow> unat len < 100"
      using sless_small [of len 100] prems(5) by (simp add: word_less_nat_alt)
    then have sz: "unat sz \<le> unat len" "0 < unat sz" "unat sz \<le> 100"
      using False by (simp_all add: sz_def unat_gt_0)
    have r: "resident s dst dva (unat sz)" "resident s src sva (unat sz)"
      using resident_prefix [OF prems(2) sz(1)] resident_prefix [OF prems(3) sz(1)] .
    obtain m b where mb: "(bind (gets msg_buf_at) (\<lambda>kva.
        bind (pt_copyin src sva kva sz) (\<lambda>(copied, bs).
        seq (modify (\<lambda>s. s\<lparr>msg_buf := bs @ drop (length bs) (msg_buf s)\<rparr>))
        (bind (gets msg_buf) (\<lambda>data.
        bind (pt_copyout data kva dst dva sz) (\<lambda>_. ret (Inl (dva + sz, sva + sz, len - sz) :: _ + unit))))))) s =
        Inr (Inl (dva + sz, sva + sz, len - sz), s\<lparr>mem8 := m, msg_buf := b\<rparr>)"
      "length b = 100" "stored s dst dva (user_bytes s src sva (unat sz)) (s\<lparr>mem8 := m\<rparr>)"
      by (rule ipc_copy_round [OF prems(1) r sz(2,3) prems(6,7)])
    define t where "t = s\<lparr>mem8 := m, msg_buf := b\<rparr>"
    have t: "t = (s\<lparr>mem8 := m\<rparr>)\<lparr>msg_buf := b\<rparr>" by (simp add: t_def)
    have l: "unat (len - sz) = unat len - unat sz" using sz(1) by (simp add: unat_sub word_le_nat_alt)
    have step: "ipc_copy_step dst src (dva, sva, len) s = Inr (Inl (dva + sz, sva + sz, len - sz), t)"
      using pos [OF prems(5)] False mb(1) by (simp add: ipc_copy_step_def Let_def sz_def [symmetric] t_def)
    have p: "dst < NUM_IDS" "src < NUM_IDS" using prems(2,3) by (simp_all add: resident_def)
    have lk: "lookup t q va = lookup s q va" if "q < NUM_IDS" for q va
      using mb(3) that by (simp add: t stored_def)
    have rt: "resident t dst (dva + sz) (unat (len - sz))" "resident t src (sva + sz) (unat (len - sz))"
      using resident_next [OF prems(2) sz(1)] resident_next [OF prems(3) sz(1)] lk p by (simp_all add: resident_def l)
    have "vm_ok t" using mb(3) by (simp add: t stored_def)
    moreover have "unat (len - sz) < 2 ^ 31" "length (msg_buf t) = 100" "unat (msg_buf_at t) + 100 \<le> 0xF0000000"
      using l prems(5,7) mb(2) by (simp_all add: t_def)
    ultimately obtain m' b' where
      u: "iterate (ipc_copy_step dst src) (dva + sz, sva + sz, len - sz) t = Inr ((), t\<lparr>mem8 := m', msg_buf := b'\<rparr>)"
        "stored t dst (dva + sz) (user_bytes t src (sva + sz) (unat (len - sz))) (t\<lparr>mem8 := m'\<rparr>)"
      using less.hyps [OF _ _ rt prems(4)] sz l by auto
    have "user_byte t src (sva + sz + of_nat i) = user_byte s src (sva + sz + of_nat i)" if "i < unat (len - sz)" for i
    proof -
      have "user_addr src (sva + sz + of_nat i)" "lookup s src (sva + sz + of_nat i) \<noteq> 0"
        using resident_addr(1,3) [OF rt(2) that] lk [OF p(2)] by simp_all
      then show ?thesis using mb(3) prems(4) by (simp add: t stored_def)
    qed
    then have ub: "user_bytes t src (sva + sz) (unat (len - sz)) = user_bytes s src (sva + sz) (unat (len - sz))"
      by (simp add: user_bytes_def)
    from stored_msg [OF u(2) [unfolded t ub [unfolded t]]] obtain m'' where
      m: "(s\<lparr>mem8 := m, msg_buf := b\<rparr>)\<lparr>mem8 := m'\<rparr> = s\<lparr>mem8 := m'', msg_buf := b\<rparr>"
        "stored (s\<lparr>mem8 := m\<rparr>) dst (dva + sz) (user_bytes s src (sva + sz) (unat (len - sz))) (s\<lparr>mem8 := m''\<rparr>)"
      by auto
    from arg_cong [OF m(1), of mem8] have "m'' = m'" by simp
    with m(2) stored_append [OF mb(3), of "user_bytes s src (sva + sz) (unat (len - sz))" "s\<lparr>mem8 := m'\<rparr>"]
    have "stored s dst dva (user_bytes s src sva (unat len)) (s\<lparr>mem8 := m'\<rparr>)"
      using sz(1) l unsigned_less [of len, where ?'a = nat] user_bytes_split [OF sz(1), of s src sva] by simp
    with u(1) show ?thesis by (intro exI [of _ m'] exI [of _ b']) (simp add: iterate_next [of "ipc_copy_step dst src", OF step] t_def)
  qed
qed

section \<open>Properties\<close>

text \<open>A message of process 5 for the running process 1; 5 sleeps until it is taken.\<close>

definition sample_ipc :: ipc where
  "sample_ipc = sched.extend
     (sample_sched\<lparr>TCBPool := (TCBPool sample_sched)(5 := blank_tcb\<lparr>tstate := TSTATE_SLEEP, tchannel := ChRecvCv 5\<rparr>),
        AT := (\<lambda>i. \<lparr>perm = if i < 262144 then 1 else 2, allocated = 1\<rparr>),
        PDirPool := (\<lambda>p i. if user_slot p i then if p = 5 \<and> i = 256 then 0x40000007 else if p = 1 \<and> i = 256 then 0x40003007 else 0
           else 0x200000 + i * 4096 + 7),
        mem8 := store_word (store_word (\<lambda>_. 0) 0x40000004 0x40002007) 0x40003004 0x40001007\<rparr>)
     (ipc.fields (\<lambda>p. \<lparr>m_prev = NUM_IDS, m_next = NUM_IDS, m_send_pid = p, m_recv_pid = 1, m_length = 3, m_buffer_addr = 0x40001000\<rparr>)
        \<lparr>mq_head = 5, mq_tail = 5\<rparr> lock_init_val (replicate 100 0) 0x300000)"

lemmas sample_ipc_defs = sample_ipc_def sched.defs ipc.defs sample_sched_def sample_tqueues_def paging.defs tqueues.defs
  boot_paging_def container.defs sample_container_def sample_mat_def mat.defs

lemma sample_ipc_fields [simp]:
  "IDPTbl sample_ipc = 0x200000" "NUM_PAGES sample_ipc = 262148"
  "mem8 sample_ipc = store_word (store_word (\<lambda>_. 0) 0x40000004 0x40002007) 0x40003004 0x40001007"
  "PDirPool sample_ipc p i = (if user_slot p i then if p = 5 \<and> i = 256 then 0x40000007 else if p = 1 \<and> i = 256 then 0x40003007 else 0
     else 0x200000 + i * 4096 + 7)"
  "AT sample_ipc p = \<lparr>perm = if p < 262144 then 1 else 2, allocated = 1\<rparr>"
  "CONTAINER sample_ipc = CONTAINER sample_container" "kstack_cpu_idx sample_ipc = 0" "CURID sample_ipc c = 1"
  "msg_lk sample_ipc = lock_init_val" "msg_buf sample_ipc = replicate 100 0" "msg_buf_at sample_ipc = 0x300000"
  "msgQueue sample_ipc = \<lparr>mq_head = 5, mq_tail = 5\<rparr>"
  "msgBlock sample_ipc p =
     \<lparr>m_prev = NUM_IDS, m_next = NUM_IDS, m_send_pid = p, m_recv_pid = 1, m_length = 3, m_buffer_addr = 0x40001000\<rparr>"
  by (simp_all add: sample_ipc_defs Let_def boot_mat_defs)

lemma sample_ipc_pte:
  assumes "j < 1024"
  shows "pte sample_ipc 5 256 j = (if j = 1 then 0x40002007 else 0)" "pte sample_ipc 1 256 j = (if j = 1 then 0x40001007 else 0)"
proof -
  have t: "tbl sample_ipc 5 256 = 0x40000" "tbl sample_ipc 1 256 = 0x40003" by (simp_all add: tbl_def user_slot_def)
  have e: "0x40000 * 4096 + j * 4 = 0x40000004 \<longleftrightarrow> j = (1 :: u32)" "0x40003 * 4096 + j * 4 = 0x40003004 \<longleftrightarrow> j = (1 :: u32)"
    "0x40000 * 4096 + j * 4 \<noteq> 0x40003004" "0x40003 * 4096 + j * 4 \<noteq> 0x40000004"
    using page_addr_inj [of "0x40000" j "0x40000" 1] page_addr_inj [of "0x40003" j "0x40003" 1]
      page_addr_inj [of "0x40000" j "0x40003" 1] page_addr_inj [of "0x40003" j "0x40000" 1] assms by simp_all
  have "aligned (0x40000 * 4096 + j * 4)" "aligned (0x40003 * 4096 + j * 4)" by (rule aligned_page_addr; use assms in simp)+
  moreover have "aligned 0x40000004" "aligned 0x40003004" by (simp_all add: aligned_def)
  moreover have "load_word (\<lambda>_. 0) a = 0" for a by (simp add: load_word_def)
  ultimately show "pte sample_ipc 5 256 j = (if j = 1 then 0x40002007 else 0)" "pte sample_ipc 1 256 j = (if j = 1 then 0x40001007 else 0)"
    unfolding pte_def t using e by (cases "j = 1"; simp add: load_store_other)+
qed

lemma sample_ipc_slots:
  "slot_page sample_ipc x =
    (if x = Tbl 5 256 then Some 0x40000 else if x = Frm 5 256 1 then Some 0x40002
     else if x = Tbl 1 256 then Some 0x40003 else if x = Frm 1 256 1 then Some 0x40001 else None)"
proof (cases x)
  case (Tbl p i)
  then show ?thesis by (auto simp: user_slot_def tbl_def)
next
  case (Frm p i j)
  show ?thesis
  proof (cases "(p = 5 \<or> p = 1) \<and> i = 256 \<and> j < 1024")
    case True
    with Frm sample_ipc_pte [of j] show ?thesis by (cases "j = 1") (auto simp: user_slot_def)
  next
    case False
    with Frm show ?thesis by auto
  qed
qed

lemma sample_ipc_ok: "vm_ok sample_ipc" "sched_ok sample_ipc [2, 3, 4]" "msg_rep sample_ipc [5]"
proof -
  have m: "mat_ok sample_ipc"
    by (simp add: mat_ok_def cpu_ok_def sample_ipc_defs Let_def boot_mat_defs)
  have "quota_ok sample_ipc" using sample_container_ok(2) by (simp add: quota_ok_def)
  moreover have "slots_ok sample_ipc"
    unfolding slots_ok_def sample_ipc_slots by (auto simp: norm_page_def split: if_splits)
  moreover have "kern_ok sample_ipc"
    unfolding kern_ok_def by (intro conjI exI [of _ "0x200"]) auto
  ultimately show "vm_ok sample_ipc"
    using m by (simp add: vm_ok_def) (auto simp: norm_page_def not_less split: if_splits intro: order.strict_trans)
  have "queue_rep sample_ipc NUM_IDS [2, 3, 4]"
    by (simp add: sample_ipc_defs Let_def queue_rep_def blank_tcb_def)
  moreover have "cpu_ok sample_ipc" using m by (simp add: mat_ok_def)
  ultimately show "sched_ok sample_ipc [2, 3, 4]"
    by (simp add: sched_ok_def) (simp add: sample_ipc_defs Let_def blank_tcb_def)
  show "msg_rep sample_ipc [5]" by (simp add: msg_rep_def)
qed

lemma sample_ipc_resident: "resident sample_ipc 5 0x40001000 3" "resident sample_ipc 1 0x40001000 3"
proof -
  have "lookup sample_ipc 5 (0x40001000 + of_nat i) = 0x40002007" "lookup sample_ipc 1 (0x40001000 + of_nat i) = 0x40001007" if "i < 3" for i
  proof -
    have "lookup sample_ipc p (0x40001000 + of_nat i) = lookup sample_ipc p 0x40001000" for p
      by (rule lookup_same_page [OF same_page(1)]) (use that in simp)
    moreover have "lookup sample_ipc 5 0x40001000 = 0x40002007" "lookup sample_ipc 1 0x40001000 = 0x40001007"
      using sample_ipc_pte [of 1] by (simp_all add: lookup_def user_slot_def)
    ultimately show "lookup sample_ipc 5 (0x40001000 + of_nat i) = 0x40002007" "lookup sample_ipc 1 (0x40001000 + of_nat i) = 0x40001007"
      by simp_all
  qed
  then show "resident sample_ipc 5 0x40001000 3" "resident sample_ipc 1 0x40001000 3" by (simp_all add: resident_def)
qed

text \<open>
  C23. The linked blocks implement a list of senders: \<open>msg_enqueue\<close> appends a sender that is not
  in it, \<open>msg_remove\<close> takes one out wherever it is, both without touching what the messages
  say, and \<open>msg_getBlockBySendID\<close> answers the sender if it has a message pending and \<open>NUM_IDS\<close>
  otherwise.
\<close>

theorem msg_queue_refines_list:
  assumes "msg_rep s xs" "p < NUM_IDS"
  shows "(p \<notin> set xs \<longrightarrow> (\<exists>t. msg_enqueue p s = Inr ((), t) \<and> msg_rep t (xs @ [p]) \<and> same_msgs (msgBlock s) (msgBlock t))) \<and>
    (p \<in> set xs \<longrightarrow> (\<exists>t. msg_remove p s = Inr ((), t) \<and> msg_rep t (remove1 p xs) \<and> same_msgs (msgBlock s) (msgBlock t))) \<and>
    msg_getBlockBySendID p s = Inr (if p \<in> set xs then p else NUM_IDS, s)"
proof (intro conjI impI)
  assume n: "p \<notin> set xs"
  show "\<exists>t. msg_enqueue p s = Inr ((), t) \<and> msg_rep t (xs @ [p]) \<and> same_msgs (msgBlock s) (msgBlock t)"
    by (rule msg_enqueue_exec [OF assms n]) auto
next
  assume i: "p \<in> set xs"
  show "\<exists>t. msg_remove p s = Inr ((), t) \<and> msg_rep t (remove1 p xs) \<and> same_msgs (msgBlock s) (msgBlock t)"
    by (rule msg_remove_exec [OF assms(1) i]) auto
qed (rule msg_search_exec [OF assms(1)])

theorem msg_queue_refines_list_witness:
  "msg_rep sample_ipc [5] \<and> (\<exists>t. msg_enqueue 2 sample_ipc = Inr ((), t) \<and> msg_rep t [5, 2]) \<and>
   (\<exists>t. msg_remove 5 sample_ipc = Inr ((), t) \<and> msg_rep t []) \<and> msg_getBlockBySendID 5 sample_ipc = Inr (5, sample_ipc)"
  using msg_queue_refines_list [OF sample_ipc_ok(3), of 2] msg_queue_refines_list [OF sample_ipc_ok(3), of 5] sample_ipc_ok(3) by auto

text \<open>
  C24. Searching by receiver does not work: the loop of \<open>msg_getBlockByRecvID\<close> never leaves the
  first block, so with a message for another receiver at the head of the queue it runs for ever,
  with the lock held, whatever else is pending.
\<close>

theorem msg_getBlockByRecvID_spins:
  assumes "msg_rep s (q # qs)" "m_recv_pid (msgBlock s q) \<noteq> p"
  shows "msg_getBlockByRecvID p s = Inl Spin"
proof -
  have q: "q < NUM_IDS" "q \<noteq> NUM_IDS" "mq_head (msgQueue s) = q" using assms(1) by (auto simp: msg_rep_def)
  have "iterate (\<lambda>pid. if pid = NUM_IDS then ret (Inr NUM_IDS)
        else bind (get_msg pid m_recv_pid) (\<lambda>x.
          if x = p then bind (get_msg pid m_send_pid) (\<lambda>y. ret (Inr y)) else ret (Inl pid))) q s = Inl Spin"
    by (rule iterate_spins [where I = "\<lambda>a t. a = q \<and> t = s"]) (use q assms(2) in \<open>auto simp: exec\<close>)
  then show ?thesis by (simp add: msg_getBlockByRecvID_def exec q(3))
qed

theorem msg_getBlockByRecvID_spins_witness: "msg_getBlockByRecvID 3 sample_ipc = Inl Spin"
  by (rule msg_getBlockByRecvID_spins [OF sample_ipc_ok(3)]) simp

lemma sched_ok_msg [simp]:
  "sched_ok (s\<lparr>msg_lk := l\<rparr>) xs = sched_ok s xs"
  "sched_ok (s\<lparr>msg_lk := l, mem8 := m, msg_buf := b, msgBlock := B, msgQueue := q\<rparr>) xs = sched_ok s xs"
  by (rule sched_ok_cong; simp)+

text \<open>
  C25. Receiving: when a message from \<open>p\<close> for the running process is pending and the pages of both
  buffers are present, \<open>sys_sync_recv\<close> does not block. It stores in the buffer of the receiver the
  bytes in the buffer of the sender, as many as the shorter of the two lengths says, however many
  rounds of the 100 byte kernel buffer that takes, and reports that number; no other byte of user
  memory changes. The message leaves the queue, the lock is free again, and exactly the threads
  sleeping for this message have become ready.
\<close>

theorem sync_recv_delivers:
  assumes "vm_ok s" "sched_ok s xs" "msg_lk s = lock_init_val" "msg_rep s ms"
    and p: "p \<in> set ms" "m_recv_pid (msgBlock s p) = cur s" "p \<noteq> cur s" "syscall_get_arg2 tf = p"
    and n: "n = min (m_length (msgBlock s p)) (syscall_get_arg4 tf)" "unat n < 2 ^ 31"
    and res: "resident s (cur s) (syscall_get_arg3 tf) (unat n)" "resident s p (m_buffer_addr (msgBlock s p)) (unat n)"
    and buf: "length (msg_buf s) = 100" "unat (msg_buf_at s) + 100 \<le> 0xF0000000"
  shows "\<exists>t. sys_sync_recv env tf s = Inr (syscall_set_retval1 (syscall_set_errno tf E_SUCC) n, t) \<and>
    user_bytes t (cur s) (syscall_get_arg3 tf) (unat n) = user_bytes s p (m_buffer_addr (msgBlock s p)) (unat n) \<and>
    (\<forall>proc va. user_addr proc va \<and> lookup s proc va \<noteq> 0 \<and> \<not> (proc = cur s \<and> unat (va - syscall_get_arg3 tf) < unat n) \<longrightarrow>
       user_byte t proc va = user_byte s proc va) \<and>
    msg_rep t (remove1 p ms) \<and> msg_lk t = lock_init_val \<and> vm_ok t \<and>
    sched_ok t (xs @ filter (sleeps_on s (ChRecvCv p)) (pages 1 NUM_IDS))"
proof -
  define h where "h = s\<lparr>msg_lk := lock_held_val (kstack_cpu_idx s)\<rparr>"
  have cpu: "cpu_ok s" "cpu_ok h" using sched_okD(1) [OF assms(2)] by (simp_all add: h_def cpu_ok_def)
  have pn: "p < NUM_IDS" "p \<noteq> NUM_IDS" using p(1) assms(4) by (auto simp: msg_rep_def)
  have h: "vm_ok h" "resident h (cur s) (syscall_get_arg3 tf) (unat n)" "resident h p (m_buffer_addr (msgBlock s p)) (unat n)"
    "msg_rep h ms" "length (msg_buf h) = 100" "unat (msg_buf_at h) + 100 \<le> 0xF0000000"
    using assms(1,4) res buf vm_ok_cong [of h s] lookup_cong(3) [of h s] by (simp_all add: h_def msg_rep_def)
  have hs: "msgBlock h = msgBlock s" "cur h = cur s" by (simp_all add: h_def)
  have found: "iterate (\<lambda>_. bind (msg_getBlockBySendID p) (\<lambda>r.
        bind (if r = NUM_IDS then ret True else bind (get_msg p m_recv_pid) (\<lambda>x. ret (x \<noteq> cur s))) (\<lambda>wait.
        if wait then seq (sleep_on env (ChSendCv p) msg_lk msg_lk_update) (ret (Inl ())) else ret (Inr ())))) () h = Inr ((), h)"
    by (rule iterate_done) (use p(1,2) pn hs in \<open>simp add: msg_search_exec [OF h(4)] exec\<close>)
  obtain m b where c: "iterate (ipc_copy_step (cur s) p) (syscall_get_arg3 tf, m_buffer_addr (msgBlock s p), n) h =
      Inr ((), h\<lparr>mem8 := m, msg_buf := b\<rparr>)"
    "stored h (cur s) (syscall_get_arg3 tf) (user_bytes h p (m_buffer_addr (msgBlock s p)) (unat n)) (h\<lparr>mem8 := m\<rparr>)"
    using ipc_copy_loop [OF h(1-3) _ n(2) h(5,6)] p(3) by auto
  define c1 where "c1 = h\<lparr>mem8 := m, msg_buf := b\<rparr>"
  have "msg_rep c1 ms" using h(4) by (simp add: c1_def msg_rep_def)
  then obtain B q where r: "msg_remove p c1 = Inr ((), c1\<lparr>msgBlock := B, msgQueue := q\<rparr>)"
    "msg_rep (c1\<lparr>msgBlock := B, msgQueue := q\<rparr>) (remove1 p ms)"
    using msg_remove_exec [OF _ p(1)] by metis
  define c2 where "c2 = c1\<lparr>msgBlock := B, msgQueue := q\<rparr>"
  have "sched_ok c2 xs" using assms(2) by (simp add: c2_def c1_def h_def)
  moreover have ws: "sleeps_on c2 = sleeps_on s" by (intro ext) (simp add: sleeps_on_def c2_def c1_def h_def)
  ultimately obtain T Q where w: "thread_wakeup (ChRecvCv p) c2 = Inr ((), c2\<lparr>TCBPool := T, TQueuePool := Q\<rparr>)"
    "sched_ok (c2\<lparr>TCBPool := T, TQueuePool := Q\<rparr>) (xs @ filter (sleeps_on s (ChRecvCv p)) (pages 1 NUM_IDS))"
    by (metis thread_wakeup_exec)
  define t where "t = c2\<lparr>TCBPool := T, TQueuePool := Q, msg_lk := lock_init_val\<rparr>"
  have n': "(if m_length (msgBlock s p) < syscall_get_arg4 tf then m_length (msgBlock s p) else syscall_get_arg4 tf) = n"
    by (auto simp: n(1) min_def)
  have run: "sys_sync_recv env tf s = Inr (syscall_set_retval1 (syscall_set_errno tf E_SUCC) n, t)"
    using cpu assms(3) pn p(4) found c(1) r(1) w(1) hs
    by (simp add: sys_sync_recv_def exec Let_def h_def [symmetric] t_def n' ipc_copy_def c1_def [symmetric] c2_def [symmetric])
  let ?m = "h\<lparr>mem8 := m\<rparr>" and ?ra = "syscall_get_arg3 tf"
  have tm: "vm_ok t = vm_ok ?m" "user_byte t proc va = user_byte ?m proc va"
    "user_byte h proc va = user_byte s proc va" "lookup h proc va = lookup s proc va" for proc va
    by (rule vm_ok_cong lookup_cong; simp add: t_def c2_def c1_def h_def)+
  have st: "user_byte t proc va = (if proc = cur s \<and> unat (va - ?ra) < unat n
      then user_bytes s p (m_buffer_addr (msgBlock s p)) (unat n) ! unat (va - ?ra) else user_byte s proc va)"
    if "user_addr proc va" "lookup s proc va \<noteq> 0" for proc va
    using c(2) that by (simp add: stored_def tm user_bytes_def)
  have "user_byte t (cur s) (?ra + of_nat i) = user_byte s p (m_buffer_addr (msgBlock s p) + of_nat i)" if "i < unat n" for i
    using st [OF resident_addr(1,3) [OF res(1) that]] that unsigned_less [of n, where ?'a = nat]
    by (simp add: unat_of_nat user_bytes_def)
  then have "user_bytes t (cur s) ?ra (unat n) = user_bytes s p (m_buffer_addr (msgBlock s p)) (unat n)"
    by (simp add: user_bytes_def)
  moreover have "vm_ok t" using c(2) by (simp add: tm stored_def)
  moreover have "msg_rep t (remove1 p ms)" "msg_lk t = lock_init_val" using r(2) by (simp_all add: t_def c2_def msg_rep_def)
  moreover have "sched_ok t (xs @ filter (sleeps_on s (ChRecvCv p)) (pages 1 NUM_IDS))" using w(2) by (simp add: t_def)
  ultimately show ?thesis using run st by auto
qed

theorem sync_recv_delivers_witness:
  "\<exists>t. sys_sync_recv id (call_frame 0 5 0x40001000 100 0 0) sample_ipc =
      Inr (syscall_set_retval1 (syscall_set_errno (call_frame 0 5 0x40001000 100 0 0) E_SUCC) 3, t) \<and>
    user_bytes t 1 0x40001000 3 = user_bytes sample_ipc 5 0x40001000 3 \<and> msg_rep t []"
proof -
  let ?tf = "call_frame 0 5 0x40001000 100 0 0"
  have a: "msg_lk sample_ipc = lock_init_val" "(5 :: u32) \<in> set [5]" "m_recv_pid (msgBlock sample_ipc 5) = cur sample_ipc" "5 \<noteq> cur sample_ipc"
    "syscall_get_arg2 ?tf = 5" "3 = min (m_length (msgBlock sample_ipc 5)) (syscall_get_arg4 ?tf)" "unat (3 :: u32) < 2 ^ 31"
    "length (msg_buf sample_ipc) = 100" "unat (msg_buf_at sample_ipc) + 100 \<le> 0xF0000000"
    by (simp_all add: min_def)
  have r: "resident sample_ipc (cur sample_ipc) (syscall_get_arg3 ?tf) (unat (3 :: u32))"
    "resident sample_ipc 5 (m_buffer_addr (msgBlock sample_ipc 5)) (unat (3 :: u32))"
    using sample_ipc_resident by simp_all
  from sync_recv_delivers [OF sample_ipc_ok(1,2) a(1) sample_ipc_ok(3) a(2-7) r a(8,9), of id] obtain t where
    "sys_sync_recv id ?tf sample_ipc = Inr (syscall_set_retval1 (syscall_set_errno ?tf E_SUCC) 3, t)"
    "user_bytes t (cur sample_ipc) (syscall_get_arg3 ?tf) (unat (3 :: u32)) =
       user_bytes sample_ipc 5 (m_buffer_addr (msgBlock sample_ipc 5)) (unat (3 :: u32))"
    "msg_rep t (remove1 5 [5])" by blast
  then show ?thesis by (intro exI [of _ t]) simp
qed

end
