(* ===== verification/Io_Ports.thy ===== *)
theory Io_Ports
  imports Ipc
begin

text \<open>
  Port input and output and the interrupt controllers: \<open>kern/dev/pic.c\<close>, \<open>kern/dev/ioapic.c\<close>,
  \<open>kern/dev/timer.c\<close> and the enabling part of \<open>kern/dev/intr.c\<close>.

  A port is seen from the side of the processor: \<open>io_out\<close> is what has been written, the latest
  value first, \<open>io_in\<close> the values the device behind a port is going to answer. The registers of an
  I/O APIC are addressed by its base address and a register number. \<open>intr_on\<close> is the interrupt flag of
  the processor.
\<close>

section \<open>State\<close>

record io = ipc +
  io_out :: "(u16 \<times> u8) list"
  io_in :: "u16 \<Rightarrow> nat \<Rightarrow> u8"
  irqmask :: u16
  pic_inited :: bool
  ioapics :: "u32 \<Rightarrow> u32"
  ioapicid :: "u32 \<Rightarrow> u8"
  gsi :: "u32 \<Rightarrow> u32"
  ioapic_num :: u32
  ioapic_regs :: "u32 \<Rightarrow> u32 \<Rightarrow> u32"
  ncpu :: u32
  cpu_lapicid :: "u32 \<Rightarrow> u8"
  using_apic :: bool
  intr_on :: bool

definition outb :: "u16 \<Rightarrow> u8 \<Rightarrow> ('z io_scheme, unit) kop" where
  "outb p v = modify (\<lambda>s. s\<lparr>io_out := (p, v) # io_out s\<rparr>)"

definition inb :: "u16 \<Rightarrow> ('z io_scheme, u8) kop" where
  "inb p = bind (gets (\<lambda>s. io_in s p 0)) (\<lambda>v.
     seq (modify (\<lambda>s. s\<lparr>io_in := (io_in s)(p := \<lambda>n. io_in s p (Suc n))\<rparr>)) (ret v))"

text \<open>The value last written to a port.\<close>

definition port_val :: "'z io_scheme \<Rightarrow> u16 \<Rightarrow> u8" where
  "port_val s p = (case map_of (io_out s) p of None \<Rightarrow> 0 | Some v \<Rightarrow> v)"

section \<open>The 8259A controllers: pic.c\<close>

abbreviation (input) IO_PIC1 :: u16 where "IO_PIC1 \<equiv> 0x20"
abbreviation (input) IO_PIC2 :: u16 where "IO_PIC2 \<equiv> 0xA0"
abbreviation (input) T_IRQ0 :: u8 where "T_IRQ0 \<equiv> 32"
abbreviation (input) IRQ_IDE1 :: u32 where "IRQ_IDE1 \<equiv> 14"

definition pic_init :: "('z io_scheme, unit) kop" where
  "pic_init = bind (gets pic_inited) (\<lambda>inited.
     if inited then ret ()
     else block [modify (\<lambda>s. s\<lparr>pic_inited := True\<rparr>),
       outb (IO_PIC1 + 1) 0xff, outb (IO_PIC2 + 1) 0xff,
       outb IO_PIC1 0x11, outb (IO_PIC1 + 1) T_IRQ0, outb (IO_PIC1 + 1) 4, outb (IO_PIC1 + 1) 1,
       outb IO_PIC2 0x11, outb (IO_PIC2 + 1) (T_IRQ0 + 8), outb (IO_PIC2 + 1) 2, outb (IO_PIC2 + 1) 1,
       outb IO_PIC1 0x68, outb IO_PIC1 0x0a, outb IO_PIC2 0x68, outb IO_PIC2 0x0a,
       outb (IO_PIC1 + 1) 0xFF, outb (IO_PIC2 + 1) 0xFF])"

definition pic_setmask :: "u16 \<Rightarrow> ('z io_scheme, unit) kop" where
  "pic_setmask msk = block [modify (\<lambda>s. s\<lparr>irqmask := msk\<rparr>),
     outb (IO_PIC1 + 1) (ucast msk), outb (IO_PIC2 + 1) (ucast (drop_bit 8 msk))]"

definition pic_enable :: "u32 \<Rightarrow> ('z io_scheme, unit) kop" where
  "pic_enable irq = bind (gets irqmask) (\<lambda>m. pic_setmask (m AND NOT (push_bit (unat irq) 1)))"

definition pic_eoi :: "('z io_scheme, unit) kop" where
  "pic_eoi = block [outb IO_PIC1 0x20, outb IO_PIC2 0x20]"

definition pic_reset :: "('z io_scheme, unit) kop" where
  "pic_reset = block [
       outb (IO_PIC1 + 1) 0x00, outb (IO_PIC2 + 1) 0x00,
       outb IO_PIC1 0x11, outb (IO_PIC1 + 1) T_IRQ0, outb (IO_PIC1 + 1) 4, outb (IO_PIC1 + 1) 3,
       outb IO_PIC2 0x11, outb (IO_PIC2 + 1) (T_IRQ0 + 8), outb (IO_PIC2 + 1) 2, outb (IO_PIC2 + 1) 1,
       outb IO_PIC1 0x68, outb IO_PIC1 0x0a, outb IO_PIC2 0x68, outb IO_PIC2 0x0a]"

section \<open>The interval timer: timer.c\<close>

text \<open>The count for 100 interrupts in a second.\<close>

definition LATCH :: u32 where
  "LATCH = (1193182 + 100 div 2) div 100"

definition timer_hw_init :: "('z io_scheme, unit) kop" where
  "timer_hw_init = block [outb 0x43 (0x00 OR 0x04 OR 0x30), outb 0x40 (ucast LATCH), outb 0x40 (ucast (drop_bit 8 LATCH))]"

section \<open>The I/O APIC: ioapic.c\<close>

abbreviation (input) MAX_IOAPIC :: u32 where "MAX_IOAPIC \<equiv> 16"
abbreviation (input) IOAPIC_ID :: u32 where "IOAPIC_ID \<equiv> 0"
abbreviation (input) IOAPIC_VER :: u32 where "IOAPIC_VER \<equiv> 1"
abbreviation (input) IOAPIC_TABLE :: u32 where "IOAPIC_TABLE \<equiv> 0x10"
abbreviation (input) IOAPIC_INT_DISABLED :: u32 where "IOAPIC_INT_DISABLED \<equiv> 0x10000"

definition ioapic_read :: "u32 \<Rightarrow> u32 \<Rightarrow> ('z io_scheme, u32) kop" where
  "ioapic_read base reg = gets (\<lambda>s. ioapic_regs s base reg)"

definition ioapic_write :: "u32 \<Rightarrow> u32 \<Rightarrow> u32 \<Rightarrow> ('z io_scheme, unit) kop" where
  "ioapic_write base reg data =
     modify (\<lambda>s. s\<lparr>ioapic_regs := (ioapic_regs s)(base := (ioapic_regs s base)(reg := data))\<rparr>)"

definition ioapic_register :: "u32 \<Rightarrow> u8 \<Rightarrow> u32 \<Rightarrow> ('z io_scheme, unit) kop" where
  "ioapic_register addr apic g = bind (gets ioapic_num) (\<lambda>n.
     if MAX_IOAPIC <=s n then ret ()
     else block [
       modify (\<lambda>s. s\<lparr>ioapics := (ioapics s)(n := addr)\<rparr>),
       modify (\<lambda>s. s\<lparr>ioapicid := (ioapicid s)(n := apic)\<rparr>),
       modify (\<lambda>s. s\<lparr>gsi := (gsi s)(n := g)\<rparr>),
       modify (\<lambda>s. s\<lparr>ioapic_num := n + 1\<rparr>)])"

definition ioapic_init1 :: "u32 \<Rightarrow> ('z io_scheme, unit) kop" where
  "ioapic_init1 i =
     seq (in_bounds (i < MAX_IOAPIC))
     (bind (gets (\<lambda>s. ioapics s i)) (\<lambda>ioapic.
      if ioapic = 0 then panic ''ioapic != NULL'' else
      bind (ioapic_read ioapic IOAPIC_ID) (\<lambda>v.
      bind (gets (\<lambda>s. ioapicid s i)) (\<lambda>own.
      seq (when_true ((ucast (drop_bit 24 v) :: u8) = 0) (ioapic_write ioapic IOAPIC_ID (push_bit 24 (ucast own))))
      (bind (ioapic_read ioapic IOAPIC_VER) (\<lambda>w.
       let maxintr = drop_bit 16 w AND 0xFF in
       for_loop 0 (maxintr + 1) (\<lambda>j. block [
         ioapic_write ioapic (IOAPIC_TABLE + 2 * j) (IOAPIC_INT_DISABLED OR (ucast T_IRQ0 + j)),
         ioapic_write ioapic (IOAPIC_TABLE + 2 * j + 1) 0])))))))"

definition ioapic_init :: "('z io_scheme, unit) kop" where
  "ioapic_init = bind (gets ioapic_num) (\<lambda>n. for_loop 0 n ioapic_init1)"

definition ioapic_enable :: "u8 \<Rightarrow> u8 \<Rightarrow> bool \<Rightarrow> bool \<Rightarrow> ('z io_scheme, unit) kop" where
  "ioapic_enable irq apic trigger_mode polarity =
     bind (gets ioapic_num) (\<lambda>n.
     iterate (\<lambda>i.
       if i <s n then
         bind (gets (\<lambda>s. (ioapics s i, gsi s i))) (\<lambda>(ioapic, g).
         bind (ioapic_read ioapic IOAPIC_VER) (\<lambda>w.
         let maxintr = drop_bit 16 w AND 0xFF in
         if g <=s ucast irq \<and> ucast irq <=s g + maxintr then
           seq (ioapic_write ioapic (IOAPIC_TABLE + 2 * (ucast irq - g))
                 (push_bit 15 (of_bool trigger_mode) OR push_bit 13 (of_bool polarity) OR (ucast T_IRQ0 + ucast irq)))
           (seq (ioapic_write ioapic (IOAPIC_TABLE + 2 * (ucast irq - g) + 1) (push_bit 24 (ucast apic)))
           (ret (Inr ())))
         else ret (Inl (i + 1))))
       else panic ''Cannot enable IRQ on IOAPIC.'') 0)"

definition ioapic_number :: "('z io_scheme, u32) kop" where
  "ioapic_number = gets ioapic_num"

definition ioapic_get :: "u32 \<Rightarrow> ('z io_scheme, u32 option) kop" where
  "ioapic_get idx = bind (gets ioapic_num) (\<lambda>n. if idx \<ge> n then ret None else gets (\<lambda>s. Some (ioapics s idx)))"

section \<open>Enabling an interrupt line: intr.c\<close>

definition intr_enable :: "u8 \<Rightarrow> u32 \<Rightarrow> ('z io_scheme, unit) kop" where
  "intr_enable irq cpunum =
     bind (gets ncpu) (\<lambda>n.
     if \<not> (cpunum = 0xff \<or> 0 <=s cpunum \<and> cpunum < n) then panic ''cpunum == 0xff || (0 <= cpunum && cpunum < pcpu_ncpu())''
     else if 24 \<le> irq then ret ()
     else bind (gets using_apic) (\<lambda>apic.
       if apic then
         bind (gets (\<lambda>s. cpu_lapicid s cpunum)) (\<lambda>l. ioapic_enable irq (if cpunum = 0xff then 0xff else l) False False)
       else if \<not> irq < 16 then panic ''irq < 16''
       else pic_enable (ucast irq)))"

definition intr_enable_lapicid :: "u8 \<Rightarrow> u32 \<Rightarrow> ('z io_scheme, unit) kop" where
  "intr_enable_lapicid irq lapic_id =
     (if 24 < irq then ret ()
      else bind (gets using_apic) (\<lambda>apic.
        if apic then ioapic_enable irq (if lapic_id = 0xff then 0xff else ucast lapic_id) False False
        else if \<not> irq < 16 then panic ''irq < 16''
        else pic_enable (ucast irq)))"

definition intr_local_enable :: "('z io_scheme, unit) kop" where
  "intr_local_enable = modify (\<lambda>s. s\<lparr>intr_on := True\<rparr>)"

definition intr_local_disable :: "('z io_scheme, unit) kop" where
  "intr_local_disable = modify (\<lambda>s. s\<lparr>intr_on := False\<rparr>)"

section \<open>Execution\<close>

lemma outb_exec [exec]: "outb p v s = Inr ((), s\<lparr>io_out := (p, v) # io_out s\<rparr>)"
  by (simp add: outb_def exec)

lemma inb_exec [exec]: "inb p s = Inr (io_in s p 0, s\<lparr>io_in := (io_in s)(p := \<lambda>n. io_in s p (Suc n))\<rparr>)"
  by (simp add: inb_def exec)

end
