(* ===== verification/Printfmt.thy ===== *)
theory Printfmt
  imports Kernel_Prelude
begin

text \<open>
  Formatted output: \<open>kern/lib/printfmt.c\<close>, its copy \<open>user/lib/printfmt.c\<close>, and the functions of
  \<open>user/lib\<close> that read numbers back. A C string is the list of its characters before the
  terminating zero. The variable arguments are 32-bit words; a string argument is given by what
  the pointer points to, \<open>None\<close> for a null pointer. Reading an argument that was not passed is
  undefined behaviour, the value \<open>None\<close> of the formatting functions.
\<close>

section \<open>Numbers\<close>

datatype va = VWord u32 | VStr "string option"

definition digit_char :: "nat \<Rightarrow> char" where
  "digit_char d = ''0123456789abcdef'' ! d"

text \<open>The base is 8, 10 or 16 in all calls; the test for it only makes the recursion total.\<close>

function printnum :: "nat \<Rightarrow> nat \<Rightarrow> int \<Rightarrow> char \<Rightarrow> string" where
  "printnum num base width padc =
     (if base \<le> num \<and> 1 < base then printnum (num div base) base (width - 1) padc
      else replicate (nat (width - 1)) padc) @ [digit_char (num mod base)]"
  by pat_completeness auto
termination
  by (relation "measure (\<lambda>(n, _). n)") auto

declare printnum.simps [simp del]

fun getuint :: "nat \<Rightarrow> va list \<Rightarrow> (nat \<times> va list) option" where
  "getuint lflag (VWord lo # r) =
     (if 2 \<le> lflag then case r of VWord hi # r' \<Rightarrow> Some (unat lo + 2 ^ 32 * unat hi, r') | _ \<Rightarrow> None
      else Some (unat lo, r))"
| "getuint lflag _ = None"

fun getint :: "nat \<Rightarrow> va list \<Rightarrow> (int \<times> va list) option" where
  "getint lflag (VWord lo # r) =
     (if 2 \<le> lflag then
        case r of VWord hi # r' \<Rightarrow> Some (uint lo + 2 ^ 32 * sint hi, r') | _ \<Rightarrow> None
      else Some (sint lo, r))"
| "getint lflag _ = None"

section \<open>Format strings\<close>

record fmt_flags =
  f_padc :: char
  f_width :: int
  f_precision :: int
  f_lflag :: nat
  f_altflag :: bool

definition fmt_init :: fmt_flags where
  "fmt_init = \<lparr>f_padc = CHR '' '', f_width = -1, f_precision = -1, f_lflag = 0, f_altflag = False\<rparr>"

definition digit_val :: "char \<Rightarrow> int" where
  "digit_val c = of_char c - 48"

definition is_digit :: "char \<Rightarrow> bool" where
  "is_digit c \<longleftrightarrow> 0 \<le> digit_val c \<and> digit_val c \<le> 9"

definition process_precision :: "int \<Rightarrow> fmt_flags \<Rightarrow> fmt_flags" where
  "process_precision n f =
     (if f_width f < 0 then f\<lparr>f_width := n, f_precision := -1\<rparr> else f\<lparr>f_precision := n\<rparr>)"

text \<open>The output of a string conversion: padding, at most \<open>precision\<close> characters, padding.\<close>

definition shown :: "string \<Rightarrow> int \<Rightarrow> string" where
  "shown p precision = (if precision < 0 then p else take (nat precision) p)"

definition print_string :: "fmt_flags \<Rightarrow> string option \<Rightarrow> string" where
  "print_string f arg =
     (let p = (case arg of None \<Rightarrow> ''(null)'' | Some q \<Rightarrow> q);
          cs = shown p (f_precision f);
          left = 0 < f_width f \<and> f_padc f \<noteq> CHR ''-'';
          w1 = (if left then f_width f - int (length cs) else f_width f);
          w2 = (if left then min w1 0 else w1) - int (length cs) in
      (if left then replicate (nat w1) (f_padc f) else []) @
      map (\<lambda>c. if f_altflag f \<and> (of_char c < (32 :: nat) \<or> 126 < (of_char c :: nat)) then CHR ''?'' else c) cs @
      replicate (nat w2) (CHR '' ''))"

text \<open>
  One conversion: what it prints and the arguments left, that an argument is missing, or that the
  character is none. \<open>octal\<close> is whether octal numbers are supported, true for the kernel, while
  the user library is compiled without them.
\<close>

datatype conv = Printed string "va list" | Missing | Unknown

definition number :: "fmt_flags \<Rightarrow> string \<Rightarrow> nat \<Rightarrow> (nat \<times> va list) option \<Rightarrow> conv" where
  "number f pre base r =
     (case r of None \<Rightarrow> Missing | Some (num, ap) \<Rightarrow> Printed (pre @ printnum num base (f_width f) (f_padc f)) ap)"

definition conversion :: "bool \<Rightarrow> fmt_flags \<Rightarrow> char \<Rightarrow> va list \<Rightarrow> conv" where
  "conversion octal f ch ap =
     (if ch = CHR ''c'' then (case ap of VWord w # ap' \<Rightarrow> Printed [char_of (unat w)] ap' | _ \<Rightarrow> Missing)
      else if ch = CHR ''s'' then (case ap of VStr p # ap' \<Rightarrow> Printed (print_string f p) ap' | _ \<Rightarrow> Missing)
      else if ch = CHR ''d'' then
        (case getint (f_lflag f) ap of None \<Rightarrow> Missing
         | Some (num, ap') \<Rightarrow>
             if num < 0 then number f ''-'' 10 (Some (nat (- num), ap')) else number f [] 10 (Some (nat num, ap')))
      else if ch = CHR ''u'' then number f [] 10 (getuint (f_lflag f) ap)
      else if ch = CHR ''o'' then (if octal then number f [] 8 (getuint (f_lflag f) ap) else Printed ''XXX'' ap)
      else if ch = CHR ''p'' then number f ''0x'' 16 (getuint 0 ap)
      else if ch = CHR ''x'' then number f [] 16 (getuint (f_lflag f) ap)
      else if ch = CHR ''%'' then Printed ''%'' ap
      else Unknown)"

text \<open>A character that changes the flags; \<open>*\<close> and the width are treated where they occur.\<close>

definition set_flag :: "char \<Rightarrow> fmt_flags \<Rightarrow> fmt_flags option" where
  "set_flag ch f =
     (if ch = CHR ''-'' then Some (f\<lparr>f_padc := CHR ''-''\<rparr>)
      else if ch = CHR ''0'' then Some (f\<lparr>f_padc := CHR ''0''\<rparr>)
      else if ch = CHR ''.'' then Some (if f_width f < 0 then f\<lparr>f_width := 0\<rparr> else f)
      else if ch = CHR ''#'' then Some (f\<lparr>f_altflag := True\<rparr>)
      else if ch = CHR ''l'' then Some (f\<lparr>f_lflag := f_lflag f + 1\<rparr>)
      else None)"

definition emit :: "string \<Rightarrow> string option \<Rightarrow> string option" where
  "emit s r = map_option (append s) r"

lemma length_takeWhile_dropWhile: "length (takeWhile P xs) + length (dropWhile P xs) = length xs"
  by (metis length_append takeWhile_dropWhile_id)

text \<open>
  The outer loop of \<open>vprintfmt\<close> and the switch reached by \<open>reswitch\<close>; \<open>dn\<close> holds the characters
  read since the percent sign, the last one first. An unknown conversion prints the percent sign
  and goes back to the character after it.
\<close>

function (sequential) format :: "bool \<Rightarrow> string \<Rightarrow> va list \<Rightarrow> string option"
  and escape :: "bool \<Rightarrow> fmt_flags \<Rightarrow> string \<Rightarrow> string \<Rightarrow> va list \<Rightarrow> string option" where
  "format octal [] ap = Some []"
| "format octal (ch # fmt) ap =
     (if ch \<noteq> CHR ''%'' then emit [ch] (format octal fmt ap) else escape octal fmt_init [] fmt ap)"
| "escape octal f dn [] ap = emit ''%'' (format octal (rev dn) ap)"
| "escape octal f dn (ch # fmt) ap =
     (case set_flag ch f of
        Some f' \<Rightarrow> escape octal f' (ch # dn) fmt ap
      | None \<Rightarrow>
          if is_digit ch then
            escape octal (process_precision (foldl (\<lambda>n d. n * 10 + digit_val d) 0 (ch # takeWhile is_digit fmt)) f)
              (rev (takeWhile is_digit fmt) @ ch # dn) (dropWhile is_digit fmt) ap
          else if ch = CHR ''*'' then
            (case ap of VWord w # ap' \<Rightarrow> escape octal (process_precision (sint w) f) (ch # dn) fmt ap' | _ \<Rightarrow> None)
          else
            (case conversion octal f ch ap of
               Printed s ap' \<Rightarrow> emit s (format octal fmt ap')
             | Missing \<Rightarrow> None
             | Unknown \<Rightarrow> emit ''%'' (format octal (rev dn @ ch # fmt) ap)))"
  by pat_completeness auto
termination
  by (relation "measures [\<lambda>x. case x of Inl (_, fmt, _) \<Rightarrow> length fmt | Inr (_, _, dn, fmt, _) \<Rightarrow> length dn + length fmt,
        \<lambda>x. case x of Inl _ \<Rightarrow> 0 | Inr (_, _, _, fmt, _) \<Rightarrow> Suc (length fmt)]")
    (auto simp: length_takeWhile_dropWhile length_dropWhile_le le_imp_less_Suc)

definition kern_vprintfmt :: "string \<Rightarrow> va list \<Rightarrow> string option" where
  "kern_vprintfmt = format True"

definition user_vprintfmt :: "string \<Rightarrow> va list \<Rightarrow> string option" where
  "user_vprintfmt = format False"

section \<open>Output into a buffer and to the console: user/lib\<close>

text \<open>
  The characters stored so far, how many more fit (\<open>None\<close>: the end of the buffer is the end of
  the address space), and how many were printed.
\<close>

record sprintbuf =
  sb_buf :: string
  sb_room :: "nat option"
  sb_cnt :: nat

definition sprintputch :: "char \<Rightarrow> sprintbuf \<Rightarrow> sprintbuf" where
  "sprintputch ch b =
     (let b = b\<lparr>sb_cnt := sb_cnt b + 1\<rparr> in
      case sb_room b of
        None \<Rightarrow> b\<lparr>sb_buf := sb_buf b @ [ch]\<rparr>
      | Some n \<Rightarrow> if 0 < n then b\<lparr>sb_buf := sb_buf b @ [ch], sb_room := Some (n - 1)\<rparr> else b)"

text \<open>The contents written, with the final zero, and the count returned.\<close>

definition vsprintf :: "string \<Rightarrow> va list \<Rightarrow> (string \<times> nat) option" where
  "vsprintf fmt ap = map_option (\<lambda>out.
     let b = fold sprintputch out \<lparr>sb_buf = [], sb_room = None, sb_cnt = 0\<rparr> in
     (sb_buf b @ [CHR 0x00], sb_cnt b)) (user_vprintfmt fmt ap)"

definition vsnprintf :: "int \<Rightarrow> string \<Rightarrow> va list \<Rightarrow> (string \<times> nat) option" where
  "vsnprintf n fmt ap = map_option (\<lambda>out.
     let b = fold sprintputch out \<lparr>sb_buf = [], sb_room = Some (nat (n - 1)), sb_cnt = 0\<rparr> in
     (sb_buf b @ [CHR 0x00], sb_cnt b)) (user_vprintfmt fmt ap)"

text \<open>
  Output through a fixed buffer: it is flushed when it has one free byte left, and at the end.
  \<open>flushed\<close> lists the strings handed to \<open>puts\<close>.
\<close>

record printbuf =
  pb_buf :: string
  pb_cnt :: nat
  flushed :: "string list"

definition putch :: "nat \<Rightarrow> char \<Rightarrow> printbuf \<Rightarrow> printbuf" where
  "putch max_buf ch b =
     (let b = b\<lparr>pb_buf := pb_buf b @ [ch]\<rparr>;
          b = (if length (pb_buf b) = max_buf - 1 then b\<lparr>flushed := flushed b @ [pb_buf b], pb_buf := []\<rparr> else b)
      in b\<lparr>pb_cnt := pb_cnt b + 1\<rparr>)"

abbreviation (input) MAX_BUF :: nat where "MAX_BUF \<equiv> 4096"

definition vcprintf :: "string \<Rightarrow> va list \<Rightarrow> (string list \<times> nat) option" where
  "vcprintf fmt ap = map_option (\<lambda>out.
     let b = fold (putch MAX_BUF) out \<lparr>pb_buf = [], pb_cnt = 0, flushed = []\<rparr> in
     (flushed b @ [pb_buf b], pb_cnt b)) (user_vprintfmt fmt ap)"

section \<open>Reading numbers: strtol and atoi\<close>

definition strtol_digit :: "char \<Rightarrow> nat option" where
  "strtol_digit c =
     (let n = (of_char c :: nat) in
      if 48 \<le> n \<and> n \<le> 57 then Some (n - 48)
      else if 97 \<le> n \<and> n \<le> 122 then Some (n - 97 + 10)
      else if 65 \<le> n \<and> n \<le> 90 then Some (n - 65 + 10)
      else None)"

fun strtol_loop :: "nat \<Rightarrow> u32 \<Rightarrow> string \<Rightarrow> u32 \<times> string" where
  "strtol_loop base val [] = (val, [])"
| "strtol_loop base val (c # s) =
     (case strtol_digit c of
        None \<Rightarrow> (val, c # s)
      | Some dig \<Rightarrow> if base \<le> dig then (val, c # s) else strtol_loop base (val * of_nat base + of_nat dig) s)"

text \<open>The value, a 32-bit \<open>long\<close> that may wrap around, and what is left of the string.\<close>

definition strtol :: "string \<Rightarrow> nat \<Rightarrow> u32 \<times> string" where
  "strtol s base =
     (let s = dropWhile (\<lambda>c. c = CHR '' '' \<or> c = CHR 0x09) s;
          (neg, s) = (case s of c # r \<Rightarrow> if c = CHR ''+'' then (False, r) else if c = CHR ''-'' then (True, r) else (False, s)
                      | [] \<Rightarrow> (False, s));
          (base, s) =
            (if (base = 0 \<or> base = 16) \<and> take 2 s = ''0x'' then (16, drop 2 s)
             else if base = 0 \<and> take 1 s = ''0'' then (8, drop 1 s)
             else if base = 0 then (10, s) else (base, s));
          (val, s) = strtol_loop base 0 s
      in (if neg then - val else val, s))"

text \<open>The number of characters read and the value; \<open>None\<close> when there is no digit.\<close>

definition atoi :: "string \<Rightarrow> (nat \<times> u32) option" where
  "atoi buf =
     (let (loc, negative) = (case buf of c # _ \<Rightarrow> if c = CHR ''+'' then (1, False) else if c = CHR ''-'' then (1, True) else (0, False)
                             | [] \<Rightarrow> (0, False));
          ds = takeWhile is_digit (drop loc buf);
          acc = foldl (\<lambda>a d. a * 10 + of_int (digit_val d)) 0 ds
      in if ds = [] then None else Some (loc + length ds, if negative then - acc else acc))"

section \<open>Properties\<close>

lemma format_agree:
  "CHR ''o'' \<notin> set fmt \<Longrightarrow> format b fmt ap = format b' fmt ap"
  "CHR ''o'' \<notin> set dn \<Longrightarrow> CHR ''o'' \<notin> set fmt \<Longrightarrow> escape b f dn fmt ap = escape b' f dn fmt ap"
proof (induction b fmt ap and b f dn fmt ap rule: format_escape.induct)
  case (4 octal f dn ch fmt ap)
  have d: "CHR ''o'' \<notin> set (takeWhile is_digit fmt)" "CHR ''o'' \<notin> set (dropWhile is_digit fmt)"
    using "4.prems"(2) by (auto dest: set_takeWhileD set_dropWhileD)
  have "conversion octal f ch ap = conversion b' f ch ap" using "4.prems"(2) by (auto simp: conversion_def)
  note conv = this
  have o: "CHR ''o'' \<noteq> ch" "CHR ''o'' \<notin> set fmt" "CHR ''o'' \<notin> set dn" using "4.prems" by auto
  show ?case
  proof (cases "set_flag ch f")
    case (Some f')
    then show ?thesis using "4.IH"(5) [OF Some] o by simp
  next
    case None
    consider "is_digit ch" | "\<not> is_digit ch" "ch = CHR ''*''" | "\<not> is_digit ch" "ch \<noteq> CHR ''*''" by blast
    then show ?thesis
    proof cases
      case 1
      then show ?thesis using "4.IH"(1) [OF None] None o d by simp
    next
      case 2
      then show ?thesis using "4.IH"(2) [OF None] None o by (simp split: list.split va.split)
    next
      case 3
      then show ?thesis using "4.IH"(3,4) [OF None] None o conv by (simp split: conv.split)
    qed
  qed
qed simp_all



text \<open>The digits without padding.\<close>

definition digits :: "nat \<Rightarrow> nat \<Rightarrow> string" where
  "digits n b = printnum n b 0 (CHR '' '')"

lemma digits_rec: "digits n b = (if b \<le> n \<and> 1 < b then digits (n div b) b else []) @ [digit_char (n mod b)]"
proof -
  have less: "printnum m b w c = printnum m b w' c'" if "w \<le> 1" "w' \<le> 1" for m w w' c c'
    using that
  proof (induction m b w c arbitrary: w' rule: printnum.induct)
    case (1 num base width padc)
    have "base \<le> num \<and> 1 < base \<Longrightarrow> printnum (num div base) base (width - 1) padc = printnum (num div base) base (w' - 1) c'"
      by (rule "1.IH") (use "1.prems" in simp_all)
    with "1.prems" show ?case unfolding printnum.simps [of num base width] printnum.simps [of num base w'] by simp
  qed
  have "printnum (n div b) b (- 1) (CHR '' '') = printnum (n div b) b 0 (CHR '' '')" by (rule less) simp_all
  then show ?thesis unfolding digits_def printnum.simps [of n] by simp
qed

lemma printnum_digits: "printnum n b w c = replicate (nat (w - int (length (digits n b)))) c @ digits n b"
proof (induction n b w c rule: printnum.induct)
  case (1 n b w c)
  then show ?case by (simp add: printnum.simps [of n b] digits_rec [of n b] algebra_simps)
qed

lemma digit_char_cases:
  assumes "d < 16"
  shows "strtol_digit (digit_char d) = Some d" "digit_char d \<in> set ''0123456789abcdef''"
proof -
  have "list_all (\<lambda>d. strtol_digit (digit_char d) = Some d) [0..<16]" by code_simp
  with assms show "strtol_digit (digit_char d) = Some d" by (simp add: list_all_iff)
  show "digit_char d \<in> set ''0123456789abcdef''" unfolding digit_char_def by (rule nth_mem) (use assms in simp)
qed

lemma set_digits:
  assumes "1 < b" "b \<le> 16"
  shows "set (digits n b) \<subseteq> set ''0123456789abcdef''"
proof (induction n rule: less_induct)
  case (less n)
  have "n mod b < 16" using assms by (simp add: less_le_trans [OF mod_less_divisor])
  then have d: "digit_char (n mod b) \<in> set ''0123456789abcdef''" by (rule digit_char_cases(2))
  show ?case
  proof (cases "b \<le> n")
    case True
    then have "n div b < n" using assms(1) by simp
    from less.IH [OF this] d True assms(1) show ?thesis by (subst digits_rec) simp
  next
    case False
    with d show ?thesis by (subst digits_rec) simp
  qed
qed

lemma strtol_loop_digits:
  assumes "1 < b" "b \<le> 16"
  shows "strtol_loop b 0 (digits n b @ r) = strtol_loop b (of_nat n) r"
proof (induction n arbitrary: r rule: less_induct)
  case (less n)
  have m: "n mod b < b" "n mod b < 16" using assms by (simp_all add: less_le_trans [OF mod_less_divisor])
  then have m': "\<not> b \<le> n mod b" by simp
  have "n div b * b + n mod b = n" by simp
  then have e: "of_nat (n div b) * of_nat b + of_nat (n mod b) = (of_nat n :: u32)"
    by (metis of_nat_add of_nat_mult)
  show ?case
  proof (cases "b \<le> n")
    case True
    then have "n div b < n" using assms(1) by simp
    from less.IH [OF this] True assms(1) m(2) e m' show ?thesis
      by (subst digits_rec) (simp add: digit_char_cases(1))
  next
    case False
    with m e assms(1) show ?thesis by (subst digits_rec) (simp add: digit_char_cases(1))
  qed
qed

lemma strtol_loop_zeros: "0 < b \<Longrightarrow> strtol_loop b 0 (replicate k (CHR ''0'') @ r) = strtol_loop b 0 r"
  by (induction k) (simp_all add: strtol_digit_def)

lemma strtol_no_sign:
  assumes "set s \<subseteq> set ''0123456789abcdef''" "1 < b" and ws: "set ws \<subseteq> {CHR '' ''}"
  shows "strtol (ws @ s) b = strtol_loop b 0 s"
proof -
  have n: "CHR '' '' \<notin> set s" "CHR 0x09 \<notin> set s" "CHR ''+'' \<notin> set s" "CHR ''-'' \<notin> set s" "CHR ''x'' \<notin> set s"
    using assms(1) by auto
  have "dropWhile (\<lambda>c. c = CHR '' '' \<or> c = CHR 0x09) (ws @ s) = dropWhile (\<lambda>c. c = CHR '' '' \<or> c = CHR 0x09) s"
    using ws by (auto intro: dropWhile_append2)
  also have "\<dots> = s" using n by (cases s) auto
  finally have d: "dropWhile (\<lambda>c. c = CHR '' '' \<or> c = CHR 0x09) (ws @ s) = s" .
  have "take 2 s \<noteq> ''0x''"
  proof
    assume "take 2 s = ''0x''"
    then have "CHR ''x'' \<in> set (take 2 s)" by simp
    then have "CHR ''x'' \<in> set s" by (rule in_set_takeD)
    with n show False by simp
  qed
  moreover have "(case s of c # r \<Rightarrow> if c = CHR ''+'' then (False, r) else if c = CHR ''-'' then (True, r) else (False, s)
      | [] \<Rightarrow> (False, s)) = (False, s)"
    using n by (cases s) auto
  ultimately show ?thesis using assms(2) unfolding strtol_def d Let_def by (simp split: prod.split)
qed

text \<open>
  C27. Numbers survive printing: what \<open>printnum\<close> prints in base 8, 10 or 16, with any width and
  padded by blanks or zeros, \<open>strtol\<close> reads back completely and as the same 32-bit value.
\<close>

theorem printnum_strtol:
  assumes "base \<in> {8, 10, 16}" "padc = CHR '' '' \<or> padc = CHR ''0''"
  shows "strtol (printnum n base width padc) base = (of_nat n, [])"
proof -
  have b: "1 < base" "base \<le> 16" "0 < base" using assms(1) by auto
  obtain k where k: "printnum n base width padc = replicate k padc @ digits n base" using printnum_digits by blast
  show ?thesis
  proof (cases "padc = CHR '' ''")
    case True
    have "strtol (replicate k padc @ digits n base) base = strtol_loop base 0 (digits n base)"
      by (rule strtol_no_sign [OF set_digits [OF b(1,2)] b(1)]) (use True in auto)
    with strtol_loop_digits [OF b(1,2), of n "[]"] show ?thesis by (simp add: k)
  next
    case False
    with assms(2) have p: "padc = CHR ''0''" by simp
    have "strtol ([] @ (replicate k padc @ digits n base)) base = strtol_loop base 0 (replicate k padc @ digits n base)"
      by (rule strtol_no_sign [OF _ b(1)]) (use p set_digits [OF b(1,2), of n] in auto)
    with strtol_loop_digits [OF b(1,2), of n "[]"] show ?thesis unfolding k by (simp add: p strtol_loop_zeros [OF b(3)])
  qed
qed

theorem printnum_strtol_witness: "strtol (printnum 48879 16 8 (CHR ''0'')) 16 = (48879, [])"
  using printnum_strtol [of 16 "CHR ''0''" 48879 8] by simp

lemma sprintputch_fold:
  "fold sprintputch out \<lparr>sb_buf = b, sb_room = Some n, sb_cnt = c\<rparr> =
    \<lparr>sb_buf = b @ take n out, sb_room = Some (n - length out), sb_cnt = c + length out\<rparr>"
  by (induction out arbitrary: b n c) (simp_all add: sprintputch_def Let_def take_Cons split: nat.split)

lemma putch_fold:
  assumes "length b < m - 1" "\<forall>x \<in> set fl. length x = m - 1"
  shows "\<exists>b' fl'. fold (putch m) out \<lparr>pb_buf = b, pb_cnt = c, flushed = fl\<rparr> = \<lparr>pb_buf = b', pb_cnt = c + length out, flushed = fl'\<rparr> \<and>
    concat fl' @ b' = concat fl @ b @ out \<and> length b' < m - 1 \<and> (\<forall>x \<in> set fl'. length x = m - 1)"
  using assms
proof (induction out arbitrary: b c fl)
  case (Cons x out)
  show ?case
  proof (cases "length b + 1 = m - 1")
    case True
    then have "\<exists>b' fl'. fold (putch m) out \<lparr>pb_buf = [], pb_cnt = c + 1, flushed = fl @ [b @ [x]]\<rparr> =
        \<lparr>pb_buf = b', pb_cnt = c + 1 + length out, flushed = fl'\<rparr> \<and>
        concat fl' @ b' = concat (fl @ [b @ [x]]) @ [] @ out \<and> length b' < m - 1 \<and> (\<forall>x \<in> set fl'. length x = m - 1)"
      using Cons.prems by (intro Cons.IH) auto
    with True show ?thesis by (simp add: putch_def [of m x])
  next
    case False
    then have "\<exists>b' fl'. fold (putch m) out \<lparr>pb_buf = b @ [x], pb_cnt = c + 1, flushed = fl\<rparr> =
        \<lparr>pb_buf = b', pb_cnt = c + 1 + length out, flushed = fl'\<rparr> \<and>
        concat fl' @ b' = concat fl @ (b @ [x]) @ out \<and> length b' < m - 1 \<and> (\<forall>x \<in> set fl'. length x = m - 1)"
      using Cons.prems by (intro Cons.IH) auto
    with False show ?thesis by (simp add: putch_def [of m x])
  qed
qed auto

text \<open>
  C28. Buffers are respected: \<open>vsnprintf\<close> given \<open>n > 0\<close> writes at most \<open>n\<close> bytes, the first
  \<open>n - 1\<close> characters of the full output and a zero, and returns the length of the full output;
  \<open>vcprintf\<close> hands the output to \<open>puts\<close> in pieces of at most \<open>MAX_BUF - 1\<close> characters whose
  concatenation is the output, and returns its length.
\<close>

theorem printf_buffers:
  assumes "user_vprintfmt fmt ap = Some out"
  shows "(0 < n \<longrightarrow> vsnprintf n fmt ap = Some (take (nat n - 1) out @ [CHR 0x00], length out) \<and>
      int (length (take (nat n - 1) out @ [CHR 0x00])) \<le> n) \<and>
    (\<exists>pieces. vcprintf fmt ap = Some (pieces, length out) \<and> concat pieces = out \<and> (\<forall>p \<in> set pieces. length p \<le> MAX_BUF - 1))"
proof (intro conjI impI)
  assume "0 < n"
  then have e: "nat (n - 1) = nat n - 1" by simp
  show "vsnprintf n fmt ap = Some (take (nat n - 1) out @ [CHR 0x00], length out)"
    by (simp add: vsnprintf_def assms sprintputch_fold Let_def e)
  show "int (length (take (nat n - 1) out @ [CHR 0x00])) \<le> n" using \<open>0 < n\<close> by simp
next
  from putch_fold [of "[]" MAX_BUF "[]" out 0] obtain b' fl' where
    "fold (putch MAX_BUF) out \<lparr>pb_buf = [], pb_cnt = 0, flushed = []\<rparr> = \<lparr>pb_buf = b', pb_cnt = length out, flushed = fl'\<rparr>"
    "concat fl' @ b' = out" "length b' < MAX_BUF - 1" "\<forall>x \<in> set fl'. length x = MAX_BUF - 1" by auto
  then show "\<exists>pieces. vcprintf fmt ap = Some (pieces, length out) \<and> concat pieces = out \<and> (\<forall>p \<in> set pieces. length p \<le> MAX_BUF - 1)"
    by (intro exI [of _ "fl' @ [b']"]) (auto simp: vcprintf_def assms Let_def)
qed

theorem printf_buffers_witness: "vsnprintf 3 ''abcd'' [] = Some (''ab'' @ [CHR 0x00], 4)"
proof -
  have "user_vprintfmt ''abcd'' [] = Some ''abcd''" by (simp add: user_vprintfmt_def emit_def)
  from printf_buffers [OF this, of 3] show ?thesis by simp
qed

end
