(* ===== verification/Console.thy ===== *)
theory Console
  imports Io_Ports Printfmt
begin

text \<open>
  The console: the serial line (\<open>kern/dev/serial.c\<close>), the text screen (\<open>kern/dev/video.c\<close>), the
  keyboard (\<open>kern/dev/keyboard.c\<close>), the input buffer and line editing (\<open>kern/dev/console.c\<close>) and
  formatted output to it (\<open>kern/lib/dprintf.c\<close>).
\<close>

section \<open>State\<close>

text \<open>
  \<open>text_mem\<close> is the text memory, cells of a character and an attribute, by base address and
  index; \<open>cga_present\<close> tells whether there is memory at the address of the colour adapter. The
  cells a terminal with no buffer yet writes to are at base 0.
\<close>

record console = io +
  serial_exists :: bool
  addr_6845 :: u16
  crt_buf :: u32
  crt_pos :: u16
  active_console :: u32
  text_mem :: "u32 \<Rightarrow> u32 \<Rightarrow> u16"
  cga_present :: bool
  kbd_shift :: u32
  cons_buf :: "u32 \<Rightarrow> u8"
  cons_rpos :: u32
  cons_wpos :: u32
  cons_lk :: spinlock_t
  linebuf :: "u32 \<Rightarrow> u8"
  serial_lk :: spinlock_t

section \<open>serial.c\<close>

abbreviation (input) COM1 :: u16 where "COM1 \<equiv> 0x3F8"
abbreviation (input) COM_LSR :: u16 where "COM_LSR \<equiv> 5"

definition delay :: "('z console_scheme, unit) kop" where
  "delay = block [seq (inb 0x84) (ret ()), seq (inb 0x84) (ret ()), seq (inb 0x84) (ret ()), seq (inb 0x84) (ret ())]"

text \<open>\<open>None\<close> stands for the answer -1, that there is no data.\<close>

definition serial_proc_data :: "('z console_scheme, u8 option) kop" where
  "serial_proc_data = bind (inb (COM1 + COM_LSR)) (\<lambda>st.
     if st AND 1 = 0 then ret None else bind (inb COM1) (\<lambda>c. ret (Some c)))"

definition serial_reformatnewline :: "u8 \<Rightarrow> u16 \<Rightarrow> ('z console_scheme, bool) kop" where
  "serial_reformatnewline c p =
     (if c = 10 then seq (outb p 13) (seq (outb p 10) (ret True)) else ret False)"

definition serial_putc :: "u8 \<Rightarrow> ('z console_scheme, unit) kop" where
  "serial_putc c = bind (gets serial_exists) (\<lambda>ex.
     if \<not> ex then ret ()
     else seq (iterate (\<lambda>i :: u32. bind (inb (COM1 + COM_LSR)) (\<lambda>st.
            if st AND 0x20 = 0 \<and> i <s 12800 then seq delay (ret (Inl (i + 1))) else ret (Inr ()))) 0)
       (bind (serial_reformatnewline c COM1) (\<lambda>nl. if nl then ret () else outb COM1 c)))"

definition serial_init :: "('z console_scheme, unit) kop" where
  "serial_init = block [
     outb (COM1 + 1) 0, outb (COM1 + 3) 0x80, outb COM1 1, outb (COM1 + 1) 0, outb (COM1 + 3) 3,
     outb (COM1 + 2) 0xc7, outb (COM1 + 4) 0x0b,
     modify (\<lambda>s. s\<lparr>serial_exists := True\<rparr>),
     seq (inb (COM1 + 2)) (ret ()), seq (inb COM1) (ret ())]"

section \<open>video.c\<close>

abbreviation (input) CRT_COLS :: u16 where "CRT_COLS \<equiv> 80"
abbreviation (input) CRT_SIZE :: u16 where "CRT_SIZE \<equiv> 2000"
abbreviation (input) CGA_BUF :: u32 where "CGA_BUF \<equiv> 0xB8000"
abbreviation (input) MONO_BUF :: u32 where "MONO_BUF \<equiv> 0xB0000"

definition set_cell :: "u32 \<Rightarrow> u32 \<Rightarrow> u16 \<Rightarrow> 'z console_scheme \<Rightarrow> 'z console_scheme" where
  "set_cell base i v s = s\<lparr>text_mem := (text_mem s)(base := (text_mem s base)(i := v))\<rparr>"

definition put_cell :: "u16 \<Rightarrow> u16 \<Rightarrow> ('z console_scheme, unit) kop" where
  "put_cell i v = modify (\<lambda>s. set_cell (crt_buf s) (ucast i) v s)"

definition video_char :: "u32 \<Rightarrow> ('z console_scheme, unit) kop" where
  "video_char c =
     bind (gets crt_pos) (\<lambda>pos.
     if c AND 0xff = 8 then
       when_true (0 < pos) (block [modify (\<lambda>s. s\<lparr>crt_pos := pos - 1\<rparr>), put_cell (pos - 1) (ucast ((c AND NOT 0xff) OR 32))])
     else if c AND 0xff = 10 then modify (\<lambda>s. s\<lparr>crt_pos := (pos + CRT_COLS) - (pos + CRT_COLS) mod CRT_COLS\<rparr>)
     else if c AND 0xff = 13 then modify (\<lambda>s. s\<lparr>crt_pos := pos - pos mod CRT_COLS\<rparr>)
     else block [put_cell pos (ucast c), modify (\<lambda>s. s\<lparr>crt_pos := pos + 1\<rparr>)])"

definition scroll :: "('z console_scheme, unit) kop" where
  "scroll = bind (gets crt_pos) (\<lambda>pos.
     when_true (CRT_SIZE \<le> pos) (block [
       modify (\<lambda>s. s\<lparr>text_mem := (text_mem s)(crt_buf s := (\<lambda>i.
         if i < 1920 then text_mem s (crt_buf s) (i + 80) else if i < 2000 then 0x0720 else text_mem s (crt_buf s) i))\<rparr>),
       modify (\<lambda>s. s\<lparr>crt_pos := pos - CRT_COLS\<rparr>)]))"

definition move_cursor :: "('z console_scheme, unit) kop" where
  "move_cursor = bind (gets addr_6845) (\<lambda>a. bind (gets crt_pos) (\<lambda>pos. block [
     outb a 14, outb (a + 1) (ucast (drop_bit 8 pos)), outb a 15, outb (a + 1) (ucast pos)]))"

definition video_putc :: "u32 \<Rightarrow> ('z console_scheme, unit) kop" where
  "video_putc c =
     (let attr = (\<lambda>c. if c AND NOT 0xFF = 0 then c OR 0x0700 else c);
          blank = block [video_char (attr 32), scroll, move_cursor] in
      if attr c AND 0xff = 9 then block [blank, blank, blank, blank, blank, scroll, move_cursor]
      else block [video_char (attr c), scroll, move_cursor])"

definition video_set_cursor :: "u32 \<Rightarrow> u32 \<Rightarrow> ('z console_scheme, unit) kop" where
  "video_set_cursor x y = modify (\<lambda>s. s\<lparr>crt_pos := ucast (x * 80 + y)\<rparr>)"

definition video_clear_screen :: "('z console_scheme, unit) kop" where
  "video_clear_screen = for_loop 0 2000 (\<lambda>i. modify (\<lambda>s. set_cell (crt_buf s) i 32 s))"

section \<open>Output: cons_putc and dprintf\<close>

definition cons_putc :: "u8 \<Rightarrow> ('z console_scheme, unit) kop" where
  "cons_putc c = block [serial_putc c, video_putc (scast c)]"

abbreviation (input) CONSOLE_BUFFER_SIZE :: u32 where "CONSOLE_BUFFER_SIZE \<equiv> 512"

definition byte_of :: "char \<Rightarrow> u8" where
  "byte_of c = of_char c"

definition cputs :: "string \<Rightarrow> ('z console_scheme, unit) kop" where
  "cputs str = block (map (\<lambda>c. cons_putc (byte_of c)) (takeWhile (\<lambda>c. c \<noteq> CHR 0x00) str))"

definition vdprintf :: "string \<Rightarrow> va list \<Rightarrow> ('z console_scheme, u32) kop" where
  "vdprintf fmt ap =
     seq (spinlock_acquire serial_lk serial_lk_update)
     (case kern_vprintfmt fmt ap of
        None \<Rightarrow> stop_with OutOfBounds
      | Some out \<Rightarrow>
          let b = fold (putch (unat CONSOLE_BUFFER_SIZE)) out \<lparr>pb_buf = [], pb_cnt = 0, flushed = []\<rparr> in
          seq (block (map cputs (flushed b)))
          (seq (cputs (pb_buf b))
          (seq (spinlock_release serial_lk_update)
          (ret (of_nat (pb_cnt b))))))"

definition video_init :: "('z console_scheme, unit) kop" where
  "video_init =
     bind (gets (\<lambda>s. text_mem s CGA_BUF 0)) (\<lambda>was.
     seq (modify (\<lambda>s. if cga_present s then set_cell CGA_BUF 0 0xA55A s else s))
     (bind (gets (\<lambda>s. text_mem s CGA_BUF 0)) (\<lambda>now.
      bind (if now \<noteq> 0xA55A then
              seq (modify (\<lambda>s. s\<lparr>addr_6845 := 0x3B4\<rparr>))
              (seq (vdprintf (''addr_6845:%x'' @ [CHR 0x0A]) [VWord 0x3B4]) (ret MONO_BUF))
            else
              seq (modify (set_cell CGA_BUF 0 was))
              (seq (modify (\<lambda>s. s\<lparr>addr_6845 := 0x3D4\<rparr>))
              (seq (vdprintf (''addr_6845:%x'' @ [CHR 0x0A]) [VWord 0x3D4]) (ret CGA_BUF)))) (\<lambda>cp.
      bind (gets addr_6845) (\<lambda>a.
      seq (outb a 14) (bind (inb (a + 1)) (\<lambda>hi.
      seq (outb a 15) (bind (inb (a + 1)) (\<lambda>lo.
      modify (\<lambda>s. s\<lparr>crt_buf := cp, crt_pos := push_bit 8 (ucast hi) OR ucast lo, active_console := 0\<rparr>))))))))))"

section \<open>Input: console.c\<close>

definition cons_store :: "u8 \<Rightarrow> ('z console_scheme, unit) kop" where
  "cons_store c =
     bind (gets cons_wpos) (\<lambda>w.
     seq (in_bounds (w < CONSOLE_BUFFER_SIZE))
     (modify (\<lambda>s. s\<lparr>cons_buf := (cons_buf s)(w := c), cons_wpos := if w + 1 = CONSOLE_BUFFER_SIZE then 0 else w + 1\<rparr>)))"

definition cons_intr :: "('z console_scheme, u8 option) kop \<Rightarrow> ('z console_scheme, unit) kop" where
  "cons_intr proc =
     block [spinlock_acquire cons_lk cons_lk_update,
       iterate (\<lambda>_. bind proc (\<lambda>c. case c of
           None \<Rightarrow> ret (Inr ())
         | Some c \<Rightarrow> if c = 0 then ret (Inl ()) else seq (cons_store c) (ret (Inl ())))) (),
       spinlock_release cons_lk_update]"

definition serial_intr :: "('z console_scheme, unit) kop" where
  "serial_intr = bind (gets serial_exists) (\<lambda>ex. when_true ex (cons_intr serial_proc_data))"

definition serial_intenable :: "('z console_scheme, unit) kop" where
  "serial_intenable = bind (gets serial_exists) (\<lambda>ex. when_true ex (block [outb (COM1 + 1) 1, serial_intr]))"

section \<open>keyboard.c\<close>

abbreviation (input) SHIFT :: u32 where "SHIFT \<equiv> 1"
abbreviation (input) CTL :: u32 where "CTL \<equiv> 2"
abbreviation (input) ALT :: u32 where "ALT \<equiv> 4"
abbreviation (input) CAPSLOCK :: u32 where "CAPSLOCK \<equiv> 8"
abbreviation (input) E0ESC :: u32 where "E0ESC \<equiv> 0x40"
abbreviation (input) KEY_DEL :: u8 where "KEY_DEL \<equiv> 0xE9"

definition shiftcode :: "u8 \<Rightarrow> u8" where
  "shiftcode d = (if d = 0x1D \<or> d = 0x9D then 2 else if d = 0x2A \<or> d = 0x36 then 1 else if d = 0x38 \<or> d = 0xB8 then 4 else 0)"

definition togglecode :: "u8 \<Rightarrow> u8" where
  "togglecode d = (if d = 0x3A then 8 else if d = 0x45 then 0x10 else if d = 0x46 then 0x20 else 0)"

text \<open>The keys of the keypad and the cursor block.\<close>

definition special_keys :: "(u8 \<times> u8) list" where
  "special_keys = [(0xC7, 0xE0), (0x9C, 10), (0xB5, 47), (0xC8, 0xE2), (0xC9, 0xE6), (0xCB, 0xE4), (0xCD, 0xE5), (0xCF, 0xE1),
     (0xD0, 0xE3), (0xD1, 0xE7), (0xD2, 0xE8), (0xD3, 0xE9)]"

definition key_row :: "u8 list \<Rightarrow> (u8 \<times> u8) list \<Rightarrow> u8 \<Rightarrow> u8" where
  "key_row row extra d =
     (if unat d < length row then row ! unat d else case map_of extra d of None \<Rightarrow> 0 | Some c \<Rightarrow> c)"

definition keys :: "string \<Rightarrow> u8 list" where
  "keys = map (\<lambda>c. if c = CHR 0x01 then 0 else byte_of c)"

text \<open>In the rows \<open>CHR 0x01\<close> marks a key without character (\<open>NO\<close>).\<close>

definition normalmap :: "u8 \<Rightarrow> u8" where
  "normalmap = key_row (keys (
     [CHR 0x01, CHR 0x1B] @ ''1234567890-='' @ [CHR 0x08, CHR 0x09] @
     ''qwertyuiop[]'' @ [CHR 0x0A, CHR 0x01] @ ''asdfghjkl;'' @ [CHR 0x27, CHR 0x60, CHR 0x01, CHR 0x5C] @
     ''zxcvbnm,./'' @ [CHR 0x01, CHR ''*'', CHR 0x01, CHR '' ''] @ replicate 13 (CHR 0x01) @ ''789-456+1230.'' @
     replicate 4 (CHR 0x01))) special_keys"

definition shiftmap :: "u8 \<Rightarrow> u8" where
  "shiftmap = key_row (keys (
     [CHR 0x01, CHR 0x1B] @ ''!@#$%^&*()_+'' @ [CHR 0x08, CHR 0x09] @
     ''QWERTYUIOP{}'' @ [CHR 0x0A, CHR 0x01] @ ''ASDFGHJKL:'' @ [CHR 0x22, CHR ''~'', CHR 0x01, CHR ''|''] @
     ''ZXCVBNM<>?'' @ [CHR 0x01, CHR ''*'', CHR 0x01, CHR '' ''] @ replicate 13 (CHR 0x01) @ ''789-456+1230.'' @
     replicate 4 (CHR 0x01))) special_keys"

text \<open>\<open>C(x)\<close> is \<open>x - '@'\<close>, as a byte; 0 where there is none.\<close>

definition ctlmap :: "u8 \<Rightarrow> u8" where
  "ctlmap =
     (let C = map (\<lambda>c. byte_of c - 64) in
      key_row (replicate 16 0 @ C ''QWERTYUIOP'' @ [0, 0, 13, 0] @ C ''ASDFGHJKL'' @ [0, 0, 0, 0] @ C [CHR 0x5C] @
        C ''ZXCVBNM'' @ [0, 0] @ C ''/'' @ [0, 0])
      ([(0x97, 0xE0), (0xB5, byte_of (CHR ''/'') - 64)] @ filter (\<lambda>(k, _). k \<noteq> 0xC7 \<and> k \<noteq> 0x9C \<and> k \<noteq> 0xB5) special_keys))"

definition charcode :: "u32 \<Rightarrow> u8 \<Rightarrow> u8" where
  "charcode i = (if i = 0 then normalmap else if i = 1 then shiftmap else ctlmap)"

definition caps :: "u8 \<Rightarrow> u8" where
  "caps c = (if 97 \<le> c \<and> c \<le> 122 then c - 32 else if 65 \<le> c \<and> c \<le> 90 then c + 32 else c)"

definition kbd_proc_data :: "('z console_scheme, u8 option) kop" where
  "kbd_proc_data =
     bind (inb 0x64) (\<lambda>st.
     if st AND 1 = 0 then ret None
     else bind (inb 0x60) (\<lambda>data.
       bind (gets kbd_shift) (\<lambda>sh.
       if data = 0xE0 then seq (modify (\<lambda>s. s\<lparr>kbd_shift := sh OR E0ESC\<rparr>)) (ret (Some 0))
       else if data AND 0x80 \<noteq> 0 then
         let data = (if sh AND E0ESC \<noteq> 0 then data else data AND 0x7F) in
         seq (modify (\<lambda>s. s\<lparr>kbd_shift := sh AND NOT (ucast (shiftcode data) OR E0ESC)\<rparr>)) (ret (Some 0))
       else
         let esc = (sh AND E0ESC \<noteq> 0);
             data = (if esc then data OR 0x80 else data);
             sh = (if esc then sh AND NOT E0ESC else sh);
             sh = (sh OR ucast (shiftcode data)) XOR ucast (togglecode data);
             c = charcode (sh AND (CTL OR SHIFT)) data;
             c = (if sh AND CAPSLOCK \<noteq> 0 then caps c else c) in
         seq (modify (\<lambda>s. s\<lparr>kbd_shift := sh\<rparr>))
         (seq (when_true (NOT sh AND (CTL OR ALT) = 0 \<and> c = KEY_DEL)
                (seq (vdprintf (''Rebooting!'' @ [CHR 0x0A]) []) (outb 0x92 3)))
         (ret (Some c))))))"

definition keyboard_intr :: "('z console_scheme, unit) kop" where
  "keyboard_intr = cons_intr kbd_proc_data"

section \<open>Reading characters and lines: console.c\<close>

definition cons_getc :: "('z console_scheme, u8) kop" where
  "cons_getc =
     seq serial_intr
     (seq keyboard_intr
     (seq (spinlock_acquire cons_lk cons_lk_update)
     (bind (gets cons_rpos) (\<lambda>r.
      bind (gets cons_wpos) (\<lambda>w.
      if r \<noteq> w then
        seq (in_bounds (r < CONSOLE_BUFFER_SIZE))
        (bind (gets (\<lambda>s. cons_buf s r)) (\<lambda>c.
         seq (modify (\<lambda>s. s\<lparr>cons_rpos := if r + 1 = CONSOLE_BUFFER_SIZE then 0 else r + 1\<rparr>))
         (seq (spinlock_release cons_lk_update) (ret c))))
      else seq (spinlock_release cons_lk_update) (ret 0))))))"

definition getchar :: "('z console_scheme, u8) kop" where
  "getchar = iterate (\<lambda>_. bind cons_getc (\<lambda>c. if c = 0 then ret (Inl ()) else ret (Inr c))) ()"

definition cons_init :: "('z console_scheme, unit) kop" where
  "cons_init = block [
     modify (\<lambda>s. s\<lparr>cons_buf := \<lambda>_. 0, cons_rpos := 0, cons_wpos := 0\<rparr>),
     serial_init, video_init, spinlock_init cons_lk_update]"

abbreviation (input) BUFLEN :: u32 where "BUFLEN \<equiv> 1024"

definition readline_step :: "u32 \<Rightarrow> ('z console_scheme, u32 + u32 option) kop" where
  "readline_step i =
     bind getchar (\<lambda>c.
     if c <s 0 then ret (Inr None)
     else if (c = 8 \<or> c = 0x7f) \<and> 0 <s i then seq (cons_putc 8) (ret (Inl (i - 1)))
     else if 32 <=s c \<and> i <s BUFLEN - 1 then
       seq (cons_putc c) (seq (modify (\<lambda>s. s\<lparr>linebuf := (linebuf s)(i := c)\<rparr>)) (ret (Inl (i + 1))))
     else if c = 10 \<or> c = 13 then
       seq (cons_putc 10) (seq (modify (\<lambda>s. s\<lparr>linebuf := (linebuf s)(i := 0)\<rparr>)) (ret (Inr (Some i))))
     else ret (Inl i))"

text \<open>The length of the line in \<open>linebuf\<close>; \<open>None\<close> is the null pointer returned on an error.\<close>

definition readline :: "string option \<Rightarrow> ('z console_scheme, u32 option) kop" where
  "readline prompt =
     seq (case prompt of None \<Rightarrow> ret () | Some p \<Rightarrow> seq (vdprintf ''%s'' [VStr (Some p)]) (ret ()))
     (iterate readline_step 0)"

section \<open>The locks of this layer\<close>

interpretation cons: lock_field cons_lk cons_lk_update
proof unfold_locales
  fix f g :: "spinlock_t \<Rightarrow> spinlock_t" and s :: "'z console_scheme"
  show "f (cons_lk s) = g (cons_lk s) \<Longrightarrow> cons_lk_update f s = cons_lk_update g s"
    by (cases s) simp
qed simp_all

lemma cons_lock_exec [exec]:
  "cpu_ok s \<Longrightarrow> cons_lk s = lock_init_val \<Longrightarrow>
   spinlock_acquire cons_lk cons_lk_update s = Inr ((), s\<lparr>cons_lk := lock_held_val (kstack_cpu_idx s)\<rparr>)"
  using cons.acquire_exec [of s] by (simp add: cons.set_lock_def lock_init_val_def)

lemma cons_unlock_exec [exec]: "spinlock_release cons_lk_update s = Inr ((), s\<lparr>cons_lk := lock_init_val\<rparr>)"
  by (simp add: cons.release_exec cons.set_lock_def)

section \<open>Output only concerns the devices\<close>

definition shifted :: "(u16 \<Rightarrow> nat \<Rightarrow> u8) \<Rightarrow> (u16 \<Rightarrow> nat \<Rightarrow> u8) \<Rightarrow> bool" where
  "shifted I J \<longleftrightarrow> (\<forall>p. \<exists>k. \<forall>n. J p n = I p (n + k))"

lemma shifted_refl [simp]: "shifted I I"
  unfolding shifted_def by (intro allI exI [of _ 0]) simp

lemma shifted_trans: "shifted I J \<Longrightarrow> shifted J K \<Longrightarrow> shifted I K"
  unfolding shifted_def by (metis add.assoc)

lemma shifted_inb [simp]: "shifted I (I(p := \<lambda>n. I p (Suc n)))"
proof -
  have "\<exists>k. \<forall>n. (I(p := \<lambda>n. I p (Suc n))) q n = I q (n + k)" for q
    by (cases "q = p") (auto intro: exI [of _ 0] exI [of _ 1])
  then show ?thesis by (simp add: shifted_def)
qed

text \<open>
  State \<open>t\<close> is \<open>s\<close> after some output: only ports, cursor and text memory differ, and a cursor on
  the screen stays there.
\<close>

definition outs :: "'z console_scheme \<Rightarrow> 'z console_scheme \<Rightarrow> bool" where
  "outs s t \<longleftrightarrow> t\<lparr>io_out := io_out s, io_in := io_in s, crt_pos := crt_pos s, text_mem := text_mem s\<rparr> = s \<and>
     shifted (io_in s) (io_in t) \<and> (crt_pos s < CRT_SIZE \<longrightarrow> crt_pos t < CRT_SIZE)"

lemma outs_refl [simp]: "outs s s"
  by (simp add: outs_def)

lemma outs_trans: "outs s t \<Longrightarrow> outs t u \<Longrightarrow> outs s u"
proof -
  assume st: "outs s t" and tu: "outs t u"
  have "u\<lparr>io_out := io_out s, io_in := io_in s, crt_pos := crt_pos s, text_mem := text_mem s\<rparr> =
      (u\<lparr>io_out := io_out t, io_in := io_in t, crt_pos := crt_pos t, text_mem := text_mem t\<rparr>)
        \<lparr>io_out := io_out s, io_in := io_in s, crt_pos := crt_pos s, text_mem := text_mem s\<rparr>" by simp
  also have "\<dots> = t\<lparr>io_out := io_out s, io_in := io_in s, crt_pos := crt_pos s, text_mem := text_mem s\<rparr>"
    using tu by (simp only: outs_def)
  also have "\<dots> = s" using st by (simp only: outs_def)
  finally show ?thesis using st tu shifted_trans [of "io_in s" "io_in t" "io_in u"] by (simp add: outs_def)
qed

lemma outs_inb [simp]: "outs s (s\<lparr>io_in := (io_in s)(p := \<lambda>n. io_in s p (Suc n))\<rparr>)"
  by (simp add: outs_def)

lemma outs_outb [simp]: "outs s (s\<lparr>io_out := x\<rparr>)"
  by (simp add: outs_def)

text \<open>An operation that only puts out something.\<close>

definition only_out :: "('z console_scheme, 'a) kop \<Rightarrow> bool" where
  "only_out m \<longleftrightarrow> (\<forall>s. \<exists>a t. m s = Inr (a, t) \<and> outs s t)"

lemma only_outD: "only_out m \<Longrightarrow> \<exists>a t. m s = Inr (a, t) \<and> outs s t"
  by (simp add: only_out_def)

lemma only_out_bind: "only_out m \<Longrightarrow> (\<And>a. only_out (f a)) \<Longrightarrow> only_out (bind m f)"
  unfolding only_out_def bind_def by (metis (no_types, lifting) case_prod_conv outs_trans sum.simps(6))

lemma only_out_seq: "only_out m \<Longrightarrow> only_out n \<Longrightarrow> only_out (seq m n)"
  unfolding seq_def by (rule only_out_bind)

lemma only_out_ret: "only_out (ret a)" and only_out_gets: "only_out (gets f)" and only_out_inb: "only_out (inb p)"
  and only_out_outb: "only_out (outb p v)"
  by (simp_all add: only_out_def exec)

lemma only_out_block: "(\<And>m. m \<in> set ms \<Longrightarrow> only_out m) \<Longrightarrow> only_out (block ms)"
  by (induction ms) (simp_all add: block.simps only_out_ret only_out_seq)

lemma only_out_if: "only_out m \<Longrightarrow> only_out n \<Longrightarrow> only_out (if b then m else n)"
  by simp

lemmas only_out_intros = only_out_seq only_out_bind only_out_ret only_out_gets only_out_inb only_out_outb only_out_if

lemma only_out_delay: "only_out delay"
  unfolding delay_def by (rule only_out_block) (auto intro!: only_out_intros)

lemma only_out_serial_putc: "only_out (serial_putc c :: ('z console_scheme, unit) kop)"
proof -
  define f :: "u32 \<Rightarrow> ('z console_scheme, u32 + unit) kop" where
    "f = (\<lambda>i. bind (inb (COM1 + COM_LSR)) (\<lambda>st.
       if st AND 0x20 = 0 \<and> i <s 12800 then seq delay (ret (Inl (i + 1))) else ret (Inr ())))"
  have "\<exists>b t. iterate f 0 s = Inr (b, t) \<and> outs s t" for s
  proof (rule iterate_returns [where I = "\<lambda>i t. outs s t \<and> unat i \<le> 12800" and m = "\<lambda>i _. 12800 - unat i"])
    fix i t assume i: "outs s t \<and> unat (i :: u32) \<le> 12800"
    let ?u = "t\<lparr>io_in := (io_in t)(0x3FD := \<lambda>n. io_in t 0x3FD (Suc n))\<rparr>"
    obtain d where d: "delay ?u = Inr ((), d)" "outs ?u d" using only_outD [OF only_out_delay, of ?u] by auto
    have o: "outs s ?u" "outs s d" using outs_trans [OF conjunct1 [OF i] outs_inb] outs_trans [OF _ d(2)] by blast+
    have l: "i <s 12800 \<longleftrightarrow> unat i < 12800" using sless_small [of i 12800] i by (simp add: word_less_nat_alt)
    have s: "unat i < 12800 \<Longrightarrow> unat (i + 1) = Suc (unat i)" by (simp add: unat_word_ariths)
    show "(\<exists>a' ta. f i t = Inr (Inl a', ta) \<and> (outs s ta \<and> unat a' \<le> 12800) \<and> 12800 - unat a' < 12800 - unat i) \<or>
        (\<exists>b ta. f i t = Inr (Inr b, ta) \<and> outs s ta)"
      using o d(1) s by (auto simp: exec l f_def)
  qed simp
  then have "only_out (iterate f 0)" by (simp add: only_out_def)
  then show ?thesis unfolding serial_putc_def serial_reformatnewline_def f_def by (intro only_out_intros)
qed

text \<open>Writing one character and scrolling if that left the screen.\<close>

definition char_pos :: "u32 \<Rightarrow> u16 \<Rightarrow> u16" where
  "char_pos c pos =
     (if c AND 0xff = 8 then if 0 < pos then pos - 1 else pos
      else if c AND 0xff = 10 then (pos + CRT_COLS) - (pos + CRT_COLS) mod CRT_COLS
      else if c AND 0xff = 13 then pos - pos mod CRT_COLS else pos + 1)"

lemma video_char_exec: "\<exists>M. video_char c s = Inr ((), s\<lparr>crt_pos := char_pos c (crt_pos s), text_mem := M\<rparr>)"
proof -
  let ?M = "\<lambda>i v. (text_mem s)(crt_buf s := (text_mem s (crt_buf s))(i := v))"
  consider "c AND 0xff = 8" "0 < crt_pos s" | "c AND 0xff = 8" "\<not> 0 < crt_pos s" | "c AND 0xff = 10" | "c AND 0xff = 13"
    | "c AND 0xff \<noteq> 8" "c AND 0xff \<noteq> 10" "c AND 0xff \<noteq> 13" by blast
  then show ?thesis
  proof cases
    case 1
    then show ?thesis
      by (intro exI [of _ "?M (ucast (crt_pos s - 1)) (ucast ((c AND NOT 0xff) OR 32))"])
        (simp add: video_char_def char_pos_def exec put_cell_def set_cell_def)
  next
    case 2
    then show ?thesis by (intro exI [of _ "text_mem s"]) (simp add: video_char_def char_pos_def exec)
  next
    case 3
    then show ?thesis by (intro exI [of _ "text_mem s"]) (simp add: video_char_def char_pos_def exec)
  next
    case 4
    then show ?thesis by (intro exI [of _ "text_mem s"]) (simp add: video_char_def char_pos_def exec)
  next
    case 5
    then show ?thesis
      by (intro exI [of _ "?M (ucast (crt_pos s)) (ucast c)"]) (simp add: video_char_def char_pos_def exec put_cell_def set_cell_def)
  qed
qed

lemma char_pos_bound:
  assumes "pos < CRT_SIZE"
  shows "unat (char_pos c pos) < 2080"
proof -
  have p: "unat pos < 2000" using assms by (simp add: word_less_nat_alt)
  have m: "unat (x - x mod 80) \<le> unat x" for x :: u16
    by (simp add: unat_sub word_le_nat_alt unat_mod)
  have "unat (pos + 80) = unat pos + 80" "unat (pos + 1) = unat pos + 1" using p by (simp_all add: unat_word_ariths)
  moreover have "0 < pos \<Longrightarrow> unat (pos - 1) = unat pos - 1"
    by (simp add: unat_sub word_le_nat_alt word_less_nat_alt)
  ultimately show ?thesis using p m [of "pos + 80"] m [of pos] by (auto simp: char_pos_def)
qed

lemma scroll_exec: "\<exists>M. scroll s = Inr ((), s\<lparr>crt_pos := if CRT_SIZE \<le> crt_pos s then crt_pos s - CRT_COLS else crt_pos s, text_mem := M\<rparr>)"
proof (cases "CRT_SIZE \<le> crt_pos s")
  case True
  then show ?thesis
    by (intro exI [of _ "(text_mem s)(crt_buf s := (\<lambda>i. if i < 1920 then text_mem s (crt_buf s) (i + 80)
          else if i < 2000 then 0x0720 else text_mem s (crt_buf s) i))"]) (simp add: scroll_def exec)
next
  case False
  then show ?thesis by (intro exI [of _ "text_mem s"]) (simp add: scroll_def exec)
qed

lemma outs_screen: "(crt_pos s < CRT_SIZE \<Longrightarrow> p < CRT_SIZE) \<Longrightarrow> outs s (s\<lparr>crt_pos := p, text_mem := M\<rparr>)"
  by (simp add: outs_def)

lemma only_out_scroll: "only_out scroll"
  unfolding only_out_def
proof
  fix s :: "'a console_scheme"
  from scroll_exec [of s] obtain M where
    "scroll s = Inr ((), s\<lparr>crt_pos := if CRT_SIZE \<le> crt_pos s then crt_pos s - CRT_COLS else crt_pos s, text_mem := M\<rparr>)" by blast
  moreover have "outs s (s\<lparr>crt_pos := if CRT_SIZE \<le> crt_pos s then crt_pos s - CRT_COLS else crt_pos s, text_mem := M\<rparr>)"
    by (rule outs_screen) (simp add: leD)
  ultimately show "\<exists>a t. scroll s = Inr (a, t) \<and> outs s t" by blast
qed

lemma only_out_char: "only_out (seq (video_char c) scroll)"
  unfolding only_out_def
proof
  fix s :: "'a console_scheme"
  obtain M where M: "video_char c s = Inr ((), s\<lparr>crt_pos := char_pos c (crt_pos s), text_mem := M\<rparr>)"
    using video_char_exec by blast
  let ?p = "if CRT_SIZE \<le> char_pos c (crt_pos s) then char_pos c (crt_pos s) - CRT_COLS else char_pos c (crt_pos s)"
  let ?u = "s\<lparr>crt_pos := char_pos c (crt_pos s), text_mem := M\<rparr>"
  from scroll_exec [of ?u] obtain N where
    "scroll ?u = Inr ((), ?u\<lparr>crt_pos := if CRT_SIZE \<le> crt_pos ?u then crt_pos ?u - CRT_COLS else crt_pos ?u, text_mem := N\<rparr>)"
    by blast
  then have N: "scroll ?u = Inr ((), s\<lparr>crt_pos := ?p, text_mem := N\<rparr>)" by simp
  have b: "?p < CRT_SIZE" if "crt_pos s < CRT_SIZE"
  proof (cases "CRT_SIZE \<le> char_pos c (crt_pos s)")
    case True
    then have "unat (char_pos c (crt_pos s) - 80) = unat (char_pos c (crt_pos s)) - 80"
      by (simp add: unat_sub word_le_nat_alt)
    then have "unat (char_pos c (crt_pos s) - 80) < 2000" using char_pos_bound [OF that, of c] by simp
    with True show ?thesis by (simp add: word_less_nat_alt)
  next
    case False
    then show ?thesis by simp
  qed
  have "seq (video_char c) scroll s = Inr ((), s\<lparr>crt_pos := ?p, text_mem := N\<rparr>)" using M N by (simp add: seq_exec)
  moreover have "outs s (s\<lparr>crt_pos := ?p, text_mem := N\<rparr>)" by (rule outs_screen) (rule b)
  ultimately show "\<exists>a t. seq (video_char c) scroll s = Inr (a, t) \<and> outs s t" by blast
qed

lemma only_out_move_cursor: "only_out move_cursor"
  unfolding move_cursor_def by (intro only_out_intros only_out_block) (auto intro: only_out_intros)

lemma only_out_video_putc: "only_out (video_putc c :: ('z console_scheme, unit) kop)"
proof -
  have e: "block [m, n, k] = seq (seq m n) k" for m n k :: "('z console_scheme, unit) kop"
    by (rule ext) (simp add: block.simps seq_def bind_def ret_def split: sum.split prod.split)
  have c: "only_out (block [video_char d, scroll, move_cursor] :: ('z console_scheme, unit) kop)" for d
    unfolding e by (intro only_out_seq only_out_char only_out_move_cursor)
  have "only_out (block [block [video_char d, scroll, move_cursor], block [video_char d, scroll, move_cursor],
      block [video_char d, scroll, move_cursor], block [video_char d, scroll, move_cursor],
      block [video_char d, scroll, move_cursor], scroll, move_cursor] :: ('z console_scheme, unit) kop)" for d
    by (rule only_out_block) (use c only_out_scroll only_out_move_cursor in auto)
  with c show ?thesis unfolding video_putc_def Let_def by (intro only_out_if)
qed

lemma only_out_cons_putc: "only_out (cons_putc c)"
  unfolding cons_putc_def by (rule only_out_block) (auto intro: only_out_serial_putc only_out_video_putc)

section \<open>The input buffer\<close>

text \<open>The buffer as a ring: the characters from the read position up to the write position.\<close>

definition ring :: "'z console_scheme \<Rightarrow> u8 list \<Rightarrow> bool" where
  "ring s xs \<longleftrightarrow> unat (cons_rpos s) < 512 \<and> length xs < 512 \<and> unat (cons_wpos s) = (unat (cons_rpos s) + length xs) mod 512 \<and>
     (\<forall>i < length xs. cons_buf s (of_nat ((unat (cons_rpos s) + i) mod 512)) = xs ! i)"

definition next_pos :: "u32 \<Rightarrow> u32" where
  "next_pos p = (if p + 1 = CONSOLE_BUFFER_SIZE then 0 else p + 1)"

lemma ring_index_less: "i < j \<Longrightarrow> j < 512 \<Longrightarrow> (r + i) mod 512 \<noteq> (r + j) mod (512 :: nat)"
proof
  assume ij: "i < j" "j < 512" and "(r + i) mod 512 = (r + j) mod (512 :: nat)"
  then have "(r + j) mod 512 = (r + i) mod 512" "r + i \<le> r + j" by simp_all
  then have "512 dvd (r + j) - (r + i)" by (simp only: mod_eq_dvd_iff_nat)
  then have "512 dvd j - i" by simp
  with ij show False by (simp add: nat_dvd_not_less)
qed

lemma ring_index_inj: "(r + i) mod 512 = (r + j) mod 512 \<Longrightarrow> i < 512 \<Longrightarrow> j < 512 \<Longrightarrow> i = (j :: nat)"
  using ring_index_less [of i j r] ring_index_less [of j i r] by (metis nat_neq_iff)

lemma unat_next_pos: "unat p < 512 \<Longrightarrow> unat (next_pos p) = (unat p + 1) mod 512"
proof -
  assume p: "unat p < 512"
  then have u: "unat (p + 1) = unat p + 1" by (simp add: unat_word_ariths)
  then have "p + 1 = 512 \<longleftrightarrow> unat p = 511" by (simp add: word_unat_eq_iff)
  with p u show ?thesis by (simp add: next_pos_def)
qed

lemma cons_store_exec:
  "unat (cons_wpos s) < 512 \<Longrightarrow>
   cons_store c s = Inr ((), s\<lparr>cons_buf := (cons_buf s)(cons_wpos s := c), cons_wpos := next_pos (cons_wpos s)\<rparr>)"
  by (simp add: cons_store_def exec next_pos_def word_less_nat_alt)

lemma ring_wpos: "ring s xs \<Longrightarrow> unat (cons_wpos s) < 512"
  by (simp add: ring_def)

lemma ring_store:
  assumes "ring s xs" "length xs < 511"
  shows "ring (s\<lparr>cons_buf := (cons_buf s)(cons_wpos s := c), cons_wpos := next_pos (cons_wpos s)\<rparr>) (xs @ [c])"
proof -
  let ?r = "unat (cons_rpos s)"
  have r: "?r < 512" "unat (cons_wpos s) = (?r + length xs) mod 512" using assms(1) by (simp_all add: ring_def)
  have other: "of_nat ((?r + i) mod 512) \<noteq> cons_wpos s" if "i < length xs" for i
  proof
    assume "of_nat ((?r + i) mod 512) = cons_wpos s"
    then have "unat (of_nat ((?r + i) mod 512) :: u32) = unat (cons_wpos s)" by simp
    then have "(?r + i) mod 512 = (?r + length xs) mod 512" using r(2) by (simp add: unat_of_nat)
    from ring_index_inj [OF this] that assms(2) show False by simp
  qed
  have "cons_wpos s = of_nat ((?r + length xs) mod 512)" unfolding r(2) [symmetric] by simp
  with assms r other unat_next_pos [of "cons_wpos s"] show ?thesis
    by (auto simp: ring_def nth_append less_Suc_eq mod_Suc_eq)
qed

lemma ring_full:
  assumes "ring s xs" "length xs = 511"
  shows "ring (s\<lparr>cons_buf := (cons_buf s)(cons_wpos s := c), cons_wpos := next_pos (cons_wpos s)\<rparr>) []"
  using assms unat_next_pos [of "cons_wpos s"] by (simp add: ring_def mod_Suc_eq)

lemma ring_take:
  assumes "ring s (x # xs)"
  shows "cons_rpos s \<noteq> cons_wpos s" "cons_buf s (cons_rpos s) = x" "ring (s\<lparr>cons_rpos := next_pos (cons_rpos s)\<rparr>) xs"
proof -
  let ?r = "unat (cons_rpos s)"
  have r: "?r < 512" "length xs < 511" "unat (cons_wpos s) = (?r + Suc (length xs)) mod 512"
    "\<forall>i < Suc (length xs). cons_buf s (of_nat ((?r + i) mod 512)) = (x # xs) ! i"
    using assms by (simp_all add: ring_def)
  show "cons_rpos s \<noteq> cons_wpos s"
  proof
    assume "cons_rpos s = cons_wpos s"
    then have e: "unat (cons_wpos s) = ?r" by (rule arg_cong [OF sym])
    have "(?r + 0) mod 512 = (?r + Suc (length xs)) mod 512" unfolding r(3) [symmetric] e using r(1) by simp
    from ring_index_inj [OF this] r(2) show False by simp
  qed
  show "cons_buf s (cons_rpos s) = x" using r(1) r(4) [THEN spec [of _ 0]] by simp
  have "cons_buf s (of_nat (((?r + 1) mod 512 + i) mod 512)) = xs ! i" if "i < length xs" for i
    using r(4) [THEN spec [of _ "Suc i"]] that by (simp add: mod_simps)
  then show "ring (s\<lparr>cons_rpos := next_pos (cons_rpos s)\<rparr>) xs"
    using r unat_next_pos [OF r(1)] by (simp add: ring_def mod_simps)
qed

section \<open>Reading when no new input arrives\<close>

text \<open>Serial line and keyboard report no data, the lock of the console is free.\<close>

definition quiet :: "'z console_scheme \<Rightarrow> bool" where
  "quiet s \<longleftrightarrow> (\<forall>n. io_in s 0x3FD n AND 1 = 0) \<and> (\<forall>n. io_in s 0x64 n AND 1 = 0) \<and> cpu_ok s \<and> cons_lk s = lock_init_val"

lemma cons_lk_same [simp]: "cons_lk s = lock_init_val \<Longrightarrow> s\<lparr>cons_lk := lock_init_val\<rparr> = s"
  using cons.set_lock_same [of s lock_init_val] by (simp add: cons.set_lock_def)

lemma cons_intr_none:
  assumes "quiet s" and p: "proc = serial_proc_data \<and> p = 0x3FD \<or> proc = kbd_proc_data \<and> p = 0x64"
  shows "cons_intr proc s = Inr ((), s\<lparr>io_in := (io_in s)(p := \<lambda>n. io_in s p (Suc n))\<rparr>)"
proof -
  let ?h = "s\<lparr>cons_lk := lock_held_val (kstack_cpu_idx s)\<rparr>"
  have "proc ?h = Inr (None, ?h\<lparr>io_in := (io_in s)(p := \<lambda>n. io_in s p (Suc n))\<rparr>)"
    using p assms(1) by (elim disjE) (simp_all add: serial_proc_data_def kbd_proc_data_def quiet_def exec)
  then have "iterate (\<lambda>_. bind proc (\<lambda>c. case c of None \<Rightarrow> ret (Inr ())
      | Some c \<Rightarrow> if c = 0 then ret (Inl ()) else seq (cons_store c) (ret (Inl ())))) () ?h =
    Inr ((), ?h\<lparr>io_in := (io_in s)(p := \<lambda>n. io_in s p (Suc n))\<rparr>)"
    by (intro iterate_done) (simp add: exec)
  with assms(1) show ?thesis by (simp add: cons_intr_def exec quiet_def)
qed

lemma quiet_outs:
  assumes "quiet s" "outs s t"
  shows "quiet t"
proof -
  have e: "t\<lparr>io_out := io_out s, io_in := io_in s, crt_pos := crt_pos s, text_mem := text_mem s\<rparr> = s" "shifted (io_in s) (io_in t)"
    using assms(2) by (simp_all add: outs_def)
  have "cpu_ok t = cpu_ok s" using arg_cong [OF e(1), of cpu_ok] by (simp add: cpu_ok_def)
  moreover have "cons_lk t = cons_lk s" using arg_cong [OF e(1), of cons_lk] by simp
  moreover have "\<exists>k. \<forall>n. io_in t p n = io_in s p (n + k)" for p using e(2) by (simp add: shifted_def)
  ultimately show ?thesis using assms(1) unfolding quiet_def by metis
qed

lemma outs_input:
  assumes "outs s t"
  shows "linebuf t = linebuf s" "ring t xs = ring s xs"
proof -
  have e: "t\<lparr>io_out := io_out s, io_in := io_in s, crt_pos := crt_pos s, text_mem := text_mem s\<rparr> = s"
    using assms by (simp add: outs_def)
  show "linebuf t = linebuf s" using arg_cong [OF e, of linebuf] by simp
  show "ring t xs = ring s xs"
    using arg_cong [OF e, of cons_buf] arg_cong [OF e, of cons_rpos] arg_cong [OF e, of cons_wpos] by (simp add: ring_def)
qed

lemma poll_none:
  assumes "quiet s"
  shows "\<exists>t. seq serial_intr keyboard_intr s = Inr ((), t) \<and> outs s t"
proof -
  define t where "t = (if serial_exists s then s\<lparr>io_in := (io_in s)(0x3FD := \<lambda>n. io_in s 0x3FD (Suc n))\<rparr> else s)"
  have st: "outs s t" by (simp add: t_def)
  have "serial_intr s = Inr ((), t)"
    using cons_intr_none [OF assms, of serial_proc_data "0x3FD"] by (simp add: serial_intr_def exec t_def)
  moreover have "keyboard_intr t = Inr ((), t\<lparr>io_in := (io_in t)(0x64 := \<lambda>n. io_in t 0x64 (Suc n))\<rparr>)"
    using cons_intr_none [OF quiet_outs [OF assms st], of kbd_proc_data "0x64"] by (simp add: keyboard_intr_def)
  ultimately show ?thesis using outs_trans [OF st outs_inb] by (simp add: exec)
qed

lemma cons_getc_exec:
  assumes "quiet s" "ring s (x # xs)"
  shows "\<exists>t. cons_getc s = Inr (x, t) \<and> quiet t \<and> ring t xs \<and> linebuf t = linebuf s"
proof -
  obtain u where u: "seq serial_intr keyboard_intr s = Inr ((), u)" "outs s u" using poll_none [OF assms(1)] by blast
  have q: "quiet u" "ring u (x # xs)" "linebuf u = linebuf s"
    using quiet_outs [OF assms(1) u(2)] outs_input [OF u(2)] assms(2) by simp_all
  note r = ring_take [OF q(2)]
  have "unat (cons_rpos u) < 512" using q(2) by (simp add: ring_def)
  then have b: "cons_rpos u < 512" by (simp add: word_less_nat_alt)
  let ?t = "u\<lparr>cons_rpos := next_pos (cons_rpos u)\<rparr>"
  have "cons_getc s = (case seq serial_intr keyboard_intr s of Inl e \<Rightarrow> Inl e | Inr (_, t) \<Rightarrow>
     (seq (spinlock_acquire cons_lk cons_lk_update)
     (bind (gets cons_rpos) (\<lambda>r.
      bind (gets cons_wpos) (\<lambda>w.
      if r \<noteq> w then
        seq (in_bounds (r < CONSOLE_BUFFER_SIZE))
        (bind (gets (\<lambda>s. cons_buf s r)) (\<lambda>c.
         seq (modify (\<lambda>s. s\<lparr>cons_rpos := if r + 1 = CONSOLE_BUFFER_SIZE then 0 else r + 1\<rparr>))
         (seq (spinlock_release cons_lk_update) (ret c))))
      else seq (spinlock_release cons_lk_update) (ret 0))))) t)"
    by (simp add: cons_getc_def seq_exec split: sum.split)
  also have "\<dots> = Inr (x, ?t)"
    using u(1) q(1) r(1,2) b by (simp add: exec quiet_def next_pos_def)
  finally have "cons_getc s = Inr (x, ?t)" .
  moreover have "quiet ?t" using q(1) by (simp add: quiet_def cpu_ok_def)
  ultimately show ?thesis using r(3) q(3) by simp
qed

lemma getchar_exec:
  assumes "quiet s" "ring s (x # xs)" "x \<noteq> 0"
  shows "\<exists>t. getchar s = Inr (x, t) \<and> quiet t \<and> ring t xs \<and> linebuf t = linebuf s"
proof -
  obtain t where t: "cons_getc s = Inr (x, t)" "quiet t" "ring t xs" "linebuf t = linebuf s"
    using cons_getc_exec [OF assms(1,2)] by blast
  have "getchar s = Inr (x, t)" unfolding getchar_def by (rule iterate_done) (simp add: exec t(1) assms(3))
  with t show ?thesis by blast
qed

section \<open>Line editing\<close>

text \<open>
  What a sequence of typed characters makes of a line: the line and the characters left after the
  end of line, or the characters left after one that is negative as a \<open>char\<close>.
\<close>

datatype edited = Line "u8 list" "u8 list" | ReadError "u8 list" | Unfinished

fun edit :: "u8 list \<Rightarrow> u8 list \<Rightarrow> edited" where
  "edit l [] = Unfinished"
| "edit l (c # cs) =
     (if c <s 0 then ReadError cs
      else if (c = 8 \<or> c = 0x7f) \<and> l \<noteq> [] then edit (butlast l) cs
      else if 32 <=s c \<and> length l < 1023 then edit (l @ [c]) cs
      else if c = 10 \<or> c = 13 then Line l cs
      else edit l cs)"

definition line_is :: "'z console_scheme \<Rightarrow> u8 list \<Rightarrow> bool" where
  "line_is s l \<longleftrightarrow> (\<forall>i < length l. linebuf s (of_nat i) = l ! i)"

lemma line_is_butlast: "line_is s l \<Longrightarrow> line_is s (butlast l)"
  by (simp add: line_is_def nth_butlast)

lemma line_is_snoc:
  assumes "line_is s l" "length l < 1024"
  shows "line_is (s\<lparr>linebuf := (linebuf s)(of_nat (length l) := c)\<rparr>) (l @ [c])"
proof -
  have "of_nat i \<noteq> (of_nat (length l) :: u32)" if "i < length l" for i
  proof
    assume "of_nat i = (of_nat (length l) :: u32)"
    then have "unat (of_nat i :: u32) = unat (of_nat (length l) :: u32)" by simp
    with that assms(2) show False by (simp add: unat_of_nat)
  qed
  with assms show ?thesis by (auto simp: line_is_def nth_append less_Suc_eq)
qed

lemma readline_loop:
  assumes "quiet s" "ring s cs" "0 \<notin> set cs" "line_is s l" "length l \<le> 1023"
  shows "(\<forall>line rest. edit l cs = Line line rest \<longrightarrow> (\<exists>t. iterate readline_step (of_nat (length l)) s = Inr (Some (of_nat (length line)), t) \<and>
      quiet t \<and> ring t rest \<and> line_is t (line @ [0]))) \<and>
    (\<forall>rest. edit l cs = ReadError rest \<longrightarrow> (\<exists>t. iterate readline_step (of_nat (length l)) s = Inr (None, t) \<and> quiet t \<and> ring t rest))"
  using assms
proof (induction cs arbitrary: l s)
  case (Cons c cs)
  let ?i = "of_nat (length l) :: u32"
  obtain t where t: "getchar s = Inr (c, t)" "quiet t" "ring t cs" "linebuf t = linebuf s"
    using getchar_exec [OF Cons.prems(1,2)] Cons.prems(3) by auto
  have li: "line_is t l" using Cons.prems(4) t(4) by (simp add: line_is_def)
  have z: "0 \<notin> set cs" using Cons.prems(3) by simp
  have i: "unat ?i = length l" using Cons.prems(5) by (simp add: unat_of_nat)
  have i0: "0 <s ?i \<longleftrightarrow> l \<noteq> []" using sless_small [of 0 ?i] i Cons.prems(5) by (simp add: word_less_nat_alt)
  have ib: "?i <s BUFLEN - 1 \<longleftrightarrow> length l < 1023" using sless_small [of ?i 1023] i Cons.prems(5) by (simp add: word_less_nat_alt)
  have put: "\<exists>u. cons_putc x t = Inr ((), u) \<and> quiet u \<and> ring u cs \<and> linebuf u = linebuf t" for x
  proof -
    obtain u where u: "cons_putc x t = Inr ((), u)" "outs t u" using only_outD [OF only_out_cons_putc, of x t] by auto
    with quiet_outs [OF t(2) u(2)] outs_input [OF u(2)] t(3) show ?thesis by blast
  qed
  define B P N where "B \<longleftrightarrow> (c = 8 \<or> c = 0x7f) \<and> l \<noteq> []" "P \<longleftrightarrow> 32 <=s c \<and> length l < 1023" "N \<longleftrightarrow> c = 10 \<or> c = 13"
  have ed: "edit l (c # cs) = (if c <s 0 then ReadError cs else if B then edit (butlast l) cs
      else if P then edit (l @ [c]) cs else if N then Line l cs else edit l cs)"
    by (simp add: B_P_N_def)
  have st: "readline_step ?i s = (if c <s 0 then ret (Inr None) else if B then seq (cons_putc 8) (ret (Inl (?i - 1)))
      else if P then seq (cons_putc c) (seq (modify (\<lambda>s. s\<lparr>linebuf := (linebuf s)(?i := c)\<rparr>)) (ret (Inl (?i + 1))))
      else if N then seq (cons_putc 10) (seq (modify (\<lambda>s. s\<lparr>linebuf := (linebuf s)(?i := 0)\<rparr>)) (ret (Inr (Some ?i))))
      else ret (Inl ?i)) t"
    unfolding readline_step_def bind_Inr [of getchar, OF t(1)] i0 ib B_P_N_def ..
  consider "c <s 0" | "\<not> c <s 0" B | "\<not> c <s 0" "\<not> B" P | "\<not> c <s 0" "\<not> B" "\<not> P" N
    | "\<not> c <s 0" "\<not> B" "\<not> P" "\<not> N" by blast
  then show ?case
  proof cases
    case 1
    then have "iterate readline_step ?i s = Inr (None, t)" by (intro iterate_done) (simp add: st exec)
    with 1 t show ?thesis by (simp add: ed)
  next
    case 2
    obtain u where u: "cons_putc 8 t = Inr ((), u)" "quiet u" "ring u cs" "linebuf u = linebuf t" using put by blast
    have m: "?i - 1 = of_nat (length (butlast l))" using 2 by (simp add: B_P_N_def of_nat_diff Suc_leI)
    have "iterate readline_step ?i s = iterate readline_step (of_nat (length (butlast l))) u"
      unfolding m [symmetric] by (rule iterate_next) (use 2 in \<open>simp add: st exec u(1)\<close>)
    moreover have "line_is u (butlast l)" using line_is_butlast [OF li] u(4) by (simp add: line_is_def)
    ultimately show ?thesis using 2 Cons.IH [OF u(2,3) z, of "butlast l"] Cons.prems(5) by (simp add: ed del: edit.simps)
  next
    case 3
    obtain u where u: "cons_putc c t = Inr ((), u)" "quiet u" "ring u cs" "linebuf u = linebuf t" using put by blast
    let ?v = "u\<lparr>linebuf := (linebuf u)(?i := c)\<rparr>"
    have m: "?i + 1 = of_nat (length (l @ [c]))" by simp
    have "iterate readline_step ?i s = iterate readline_step (of_nat (length (l @ [c]))) ?v"
      unfolding m [symmetric] by (rule iterate_next) (use 3 in \<open>simp add: st exec u(1)\<close>)
    moreover have v: "line_is ?v (l @ [c])" using line_is_snoc [of u l c] li u(4) 3 by (simp add: line_is_def B_P_N_def)
    moreover have w: "quiet ?v" "ring ?v cs" using u by (simp_all add: quiet_def ring_def cpu_ok_def)
    moreover have x: "length (l @ [c]) \<le> 1023" using 3 by (simp add: B_P_N_def)
    ultimately show ?thesis using 3 Cons.IH [OF w z v x] unfolding ed by (simp only: if_True if_False simp_thms)
  next
    case 4
    obtain u where u: "cons_putc 10 t = Inr ((), u)" "quiet u" "ring u cs" "linebuf u = linebuf t" using put by blast
    let ?v = "u\<lparr>linebuf := (linebuf u)(?i := 0)\<rparr>"
    have "iterate readline_step ?i s = Inr (Some ?i, ?v)"
      by (rule iterate_done) (use 4 in \<open>simp add: st exec u(1)\<close>)
    moreover have "line_is ?v (l @ [0])" using line_is_snoc [of u l 0] li u(4) Cons.prems(5) by (simp add: line_is_def)
    moreover have "quiet ?v" "ring ?v cs" using u by (simp_all add: quiet_def ring_def cpu_ok_def)
    ultimately show ?thesis using 4 unfolding ed by simp
  next
    case 5
    have "iterate readline_step ?i s = iterate readline_step ?i t"
      by (rule iterate_next) (use 5 in \<open>simp add: st exec\<close>)
    with 5 Cons.IH [OF t(2,3) z li Cons.prems(5)] show ?thesis unfolding ed by simp
  qed
qed simp

section \<open>Properties\<close>

text \<open>A console with the characters \<open>cs\<close> typed and not yet read, and nothing more to come.\<close>

definition sample_console :: "u8 list \<Rightarrow> console" where
  "sample_console cs = io.extend
     (ipc.extend sample_ipc (io.fields [] (\<lambda>_ _. 0) 0xFFFB False (\<lambda>_. 0) (\<lambda>_. 0) (\<lambda>_. 0) 0 (\<lambda>_ _. 0) 1 (\<lambda>_. 0) True True))
     (console.fields True 0x3D4 0xB8000 0 0 (\<lambda>_ _. 0) True 0 (\<lambda>i. if unat i < length cs then cs ! unat i else 0) 0 (of_nat (length cs))
        lock_init_val (\<lambda>_. 0) lock_init_val)"

lemma sample_console_ok: "length cs < 512 \<Longrightarrow> ring (sample_console cs) cs" "quiet (sample_console cs)"
proof -
  have "cpu_ok sample_ipc" using sample_ipc_ok(2) by (rule sched_okD)
  then have "cpu_ok (sample_console cs)"
    by (simp add: cpu_ok_def sample_console_def ipc.defs io.defs console.defs)
  then show "quiet (sample_console cs)"
    by (simp add: quiet_def) (simp add: sample_console_def ipc.defs io.defs console.defs)
  show "length cs < 512 \<Longrightarrow> ring (sample_console cs) cs"
    by (simp add: ring_def sample_console_def ipc.defs io.defs console.defs unat_of_nat)
qed

text \<open>
  C29. The input buffer is a queue of 511 places: storing a character appends it as long as fewer
  than 511 are pending, and reading returns them in the order they came. The code does not notice
  when the buffer is full: one more character makes the two positions equal, and everything
  pending is lost.
\<close>

theorem cons_buffer_queue:
  assumes "ring s xs"
  shows "(length xs < 511 \<longrightarrow> (\<exists>t. cons_store c s = Inr ((), t) \<and> ring t (xs @ [c]))) \<and>
    (length xs = 511 \<longrightarrow> (\<exists>t. cons_store c s = Inr ((), t) \<and> ring t [])) \<and>
    (quiet s \<and> xs \<noteq> [] \<longrightarrow> (\<exists>t. cons_getc s = Inr (hd xs, t) \<and> ring t (tl xs)))"
proof (intro conjI impI)
  note st = cons_store_exec [OF ring_wpos [OF assms], of c]
  show "\<exists>t. cons_store c s = Inr ((), t) \<and> ring t (xs @ [c])" if "length xs < 511"
    using st ring_store [OF assms that] by blast
  show "\<exists>t. cons_store c s = Inr ((), t) \<and> ring t []" if "length xs = 511"
    using st ring_full [OF assms that] by blast
  show "\<exists>t. cons_getc s = Inr (hd xs, t) \<and> ring t (tl xs)" if "quiet s \<and> xs \<noteq> []"
    using cons_getc_exec [of s "hd xs" "tl xs"] assms that by auto
qed

theorem cons_buffer_queue_witness:
  "\<exists>t. cons_store 9 (sample_console (replicate 511 7)) = Inr ((), t) \<and> ring t []"
  using cons_buffer_queue [OF sample_console_ok(1), of "replicate 511 7" 9] by simp



text \<open>
  C31. The cursor stays on the screen: whatever characters are printed, serial line ready or not,
  \<open>cputs\<close> returns and a cursor position below \<open>CRT_SIZE\<close> stays below it; nothing but ports,
  cursor and text memory changes.
\<close>

theorem cputs_cursor:
  assumes "crt_pos s < CRT_SIZE"
  shows "\<exists>t. cputs str s = Inr ((), t) \<and> crt_pos t < CRT_SIZE \<and> outs s t"
proof -
  have "only_out (cputs str :: ('a console_scheme, unit) kop)"
    unfolding cputs_def by (rule only_out_block) (use only_out_cons_putc in auto)
  then obtain t where "cputs str s = Inr ((), t)" "outs s t" using only_outD [of "cputs str" s] by auto
  with assms show ?thesis by (auto simp: outs_def)
qed

theorem cputs_cursor_witness:
  "\<exists>t. cputs ''ls'' (sample_console []) = Inr ((), t) \<and> crt_pos t < CRT_SIZE"
  using cputs_cursor [of "sample_console []" "''ls''"] by (auto simp: sample_console_def ipc.defs io.defs console.defs)

end
