(* ===== verification/Disk.thy ===== *)
theory Disk
  imports Console
begin

text \<open>
  The disk driver (\<open>kern/dev/disk/ide.c\<close>) and the buffer cache (\<open>kern/fs/bufcache.c\<close>).

  The controller is modelled as the driver uses it: four ports select drive and sector, a command
  port starts a transfer, the data port moves a sector. \<open>sectors\<close> is what the two drives hold and
  \<open>disk_writes\<close> the sequence of sector writes so far, which is what a crash can cut short.

  A pointer to a buffer is its index, \<open>NBUF\<close> being the list head. Calls that may put the calling
  thread to sleep take a parameter \<open>env\<close>, what everybody else does meanwhile.
\<close>

section \<open>State\<close>

record buf =
  b_flags :: u32
  b_dev :: u32
  b_sector :: u32
  b_prev :: nat
  b_next :: nat
  b_qnext :: "nat option"
  b_data :: "u8 list"

record disk = console +
  bufs :: "nat \<Rightarrow> buf"
  bcache_lk :: spinlock_t
  ide_lk :: spinlock_t
  buf_lk :: spinlock_t
  idequeue :: "nat option"
  havedisk1 :: bool
  sectors :: "u32 \<Rightarrow> u32 \<Rightarrow> u8 list"
  disk_writes :: "(u32 \<times> u32 \<times> u8 list) list"

abbreviation (input) NBUF :: nat where "NBUF \<equiv> 10"
abbreviation (input) BHEAD :: nat where "BHEAD \<equiv> 10"
abbreviation (input) BSIZE :: nat where "BSIZE \<equiv> 512"
abbreviation (input) B_BUSY :: u32 where "B_BUSY \<equiv> 1"
abbreviation (input) B_VALID :: u32 where "B_VALID \<equiv> 2"
abbreviation (input) B_DIRTY :: u32 where "B_DIRTY \<equiv> 4"

definition get_buf :: "nat \<Rightarrow> (buf \<Rightarrow> 'a) \<Rightarrow> ('z disk_scheme, 'a) kop" where
  "get_buf b f = gets (\<lambda>s. f (bufs s b))"

definition set_buf :: "nat \<Rightarrow> (buf \<Rightarrow> buf) \<Rightarrow> ('z disk_scheme, unit) kop" where
  "set_buf b f = modify (\<lambda>s. s\<lparr>bufs := (bufs s)(b := f (bufs s b))\<rparr>)"

section \<open>The controller\<close>

definition sel_drive :: "'z io_scheme \<Rightarrow> u32" where
  "sel_drive s = ucast (drop_bit 4 (port_val s 0x1f6) AND 1)"

definition sel_sector :: "'z io_scheme \<Rightarrow> u32" where
  "sel_sector s = ucast (port_val s 0x1f3) OR push_bit 8 (ucast (port_val s 0x1f4)) OR
     push_bit 16 (ucast (port_val s 0x1f5)) OR push_bit 24 (ucast (port_val s 0x1f6 AND 0x0f))"

abbreviation (input) IDE_CMD_READ :: u8 where "IDE_CMD_READ \<equiv> 0x20"
abbreviation (input) IDE_CMD_WRITE :: u8 where "IDE_CMD_WRITE \<equiv> 0x30"

text \<open>A sector sent after a write command is stored; a sector is received from the one selected.\<close>

definition outsl :: "u8 list \<Rightarrow> ('z disk_scheme, unit) kop" where
  "outsl data = modify (\<lambda>s. if port_val s 0x1f7 = IDE_CMD_WRITE
     then s\<lparr>sectors := (sectors s)(sel_drive s := (sectors s (sel_drive s))(sel_sector s := data)),
            disk_writes := disk_writes s @ [(sel_drive s, sel_sector s, data)]\<rparr>
     else s)"

definition insl :: "('z disk_scheme, u8 list) kop" where
  "insl = gets (\<lambda>s. sectors s (sel_drive s) (sel_sector s))"

section \<open>ide.c\<close>

abbreviation (input) IDE_BSY :: u8 where "IDE_BSY \<equiv> 0x80"
abbreviation (input) IDE_DRDY :: u8 where "IDE_DRDY \<equiv> 0x40"
abbreviation (input) IDE_DF :: u8 where "IDE_DF \<equiv> 0x20"
abbreviation (input) IDE_ERR :: u8 where "IDE_ERR \<equiv> 0x01"

definition ide_wait :: "bool \<Rightarrow> ('z disk_scheme, u32) kop" where
  "ide_wait checkerr =
     bind (iterate (\<lambda>_. bind (inb 0x1f7) (\<lambda>r.
       if r AND (IDE_BSY OR IDE_DRDY) \<noteq> IDE_DRDY then ret (Inl ()) else ret (Inr r))) ()) (\<lambda>r.
     if checkerr \<and> r AND (IDE_DF OR IDE_ERR) \<noteq> 0 then ret (-1) else ret 0)"

definition ide_init :: "('z disk_scheme, unit) kop" where
  "ide_init =
     seq (spinlock_init ide_lk_update)
     (seq (spinlock_init buf_lk_update)
     (seq (pic_enable IRQ_IDE1)
     (bind (gets ncpu) (\<lambda>n.
      seq (ioapic_enable (ucast IRQ_IDE1) (ucast (n - 1)) False False)
      (seq (ide_wait False)
      (seq (outb 0x1f6 (0xe0 OR 0x10))
      (seq (iterate (\<lambda>i :: u32.
             if i <s 1000 then bind (inb 0x1f7) (\<lambda>r.
               if r \<noteq> 0 then seq (modify (\<lambda>s. s\<lparr>havedisk1 := True\<rparr>)) (ret (Inr ())) else ret (Inl (i + 1)))
             else ret (Inr ())) 0)
      (outb 0x1f6 0xe0))))))))"

definition ide_start :: "nat option \<Rightarrow> ('z disk_scheme, unit) kop" where
  "ide_start b =
     (case b of
        None \<Rightarrow> panic ''ide_start''
      | Some b \<Rightarrow>
          seq (ide_wait False)
          (bind (get_buf b (\<lambda>x. x)) (\<lambda>x.
           seq (outb 0x3f6 0)
           (seq (outb 0x1f2 1)
           (seq (outb 0x1f3 (ucast (b_sector x AND 0xff)))
           (seq (outb 0x1f4 (ucast (drop_bit 8 (b_sector x) AND 0xff)))
           (seq (outb 0x1f5 (ucast (drop_bit 16 (b_sector x) AND 0xff)))
           (seq (outb 0x1f6 (ucast (0xe0 OR push_bit 4 (b_dev x AND 1) OR (drop_bit 24 (b_sector x) AND 0x0f))))
           (if b_flags x AND B_DIRTY \<noteq> 0 then seq (outb 0x1f7 IDE_CMD_WRITE) (outsl (b_data x))
            else outb 0x1f7 IDE_CMD_READ)))))))))"

definition ide_intr :: "('z disk_scheme, unit) kop" where
  "ide_intr =
     seq (spinlock_acquire ide_lk ide_lk_update)
     (bind (gets idequeue) (\<lambda>q.
      case q of
        None \<Rightarrow> spinlock_release ide_lk_update
      | Some b \<Rightarrow>
          bind (get_buf b b_qnext) (\<lambda>nx.
          seq (modify (\<lambda>s. s\<lparr>idequeue := nx\<rparr>))
          (bind (get_buf b b_flags) (\<lambda>fl.
           seq (when_true (fl AND B_DIRTY = 0) (bind (ide_wait True) (\<lambda>r.
                  when_true (0 <=s r) (bind insl (\<lambda>data. set_buf b (\<lambda>x. x\<lparr>b_data := data\<rparr>))))))
           (seq (set_buf b (\<lambda>x. x\<lparr>b_flags := b_flags x OR B_VALID\<rparr>))
           (seq (set_buf b (\<lambda>x. x\<lparr>b_flags := b_flags x AND NOT B_DIRTY\<rparr>))
           (seq (thread_wakeup (ChBuf b))
           (bind (gets idequeue) (\<lambda>q'.
            seq (when_true (q' \<noteq> None) (ide_start q'))
            (spinlock_release ide_lk_update)))))))))))"

text \<open>The loop that finds the end of the queue and appends \<open>b\<close>.\<close>

definition ide_append :: "nat \<Rightarrow> ('z disk_scheme, unit) kop" where
  "ide_append b =
     bind (gets idequeue) (\<lambda>q.
     case q of
       None \<Rightarrow> modify (\<lambda>s. s\<lparr>idequeue := Some b\<rparr>)
     | Some p \<Rightarrow> iterate (\<lambda>p. bind (get_buf p b_qnext) (\<lambda>nx.
         case nx of None \<Rightarrow> seq (set_buf p (\<lambda>x. x\<lparr>b_qnext := Some b\<rparr>)) (ret (Inr ()))
         | Some p' \<Rightarrow> ret (Inl p'))) p)"

definition ide_rw :: "('z disk_scheme \<Rightarrow> 'z disk_scheme) \<Rightarrow> nat \<Rightarrow> ('z disk_scheme, unit) kop" where
  "ide_rw env b =
     bind (get_buf b (\<lambda>x. x)) (\<lambda>x.
     bind (gets havedisk1) (\<lambda>have1.
     if b_flags x AND B_BUSY = 0 then panic ''ide_rw: buf not busy''
     else if b_flags x AND (B_VALID OR B_DIRTY) = B_VALID then panic ''ide_rw: nothing to do''
     else if b_dev x \<noteq> 0 \<and> \<not> have1 then panic ''ide_rw: ide disk 1 not present''
     else
       seq (spinlock_acquire ide_lk ide_lk_update)
       (seq (set_buf b (\<lambda>x. x\<lparr>b_qnext := None\<rparr>))
       (seq (ide_append b)
       (bind (gets idequeue) (\<lambda>q.
        seq (when_true (q = Some b) (ide_start (Some b)))
        (seq (iterate (\<lambda>_. bind (get_buf b b_flags) (\<lambda>fl.
               if fl AND (B_VALID OR B_DIRTY) \<noteq> B_VALID
               then seq (sleep_on env (ChBuf b) ide_lk ide_lk_update) (ret (Inl ())) else ret (Inr ()))) ())
        (spinlock_release ide_lk_update))))))))"

section \<open>bufcache.c\<close>

definition bufcache_init1 :: "nat \<Rightarrow> ('z disk_scheme, unit) kop" where
  "bufcache_init1 b =
     bind (get_buf BHEAD b_next) (\<lambda>n.
     block [set_buf b (\<lambda>x. x\<lparr>b_next := n\<rparr>), set_buf b (\<lambda>x. x\<lparr>b_prev := BHEAD\<rparr>), set_buf b (\<lambda>x. x\<lparr>b_dev := -1\<rparr>),
       set_buf n (\<lambda>x. x\<lparr>b_prev := b\<rparr>), set_buf BHEAD (\<lambda>x. x\<lparr>b_next := b\<rparr>)])"

definition bufcache_init :: "('z disk_scheme, unit) kop" where
  "bufcache_init = block [spinlock_init bcache_lk_update,
     set_buf BHEAD (\<lambda>x. x\<lparr>b_prev := BHEAD\<rparr>), set_buf BHEAD (\<lambda>x. x\<lparr>b_next := BHEAD\<rparr>),
     block (map bufcache_init1 [0..<NBUF])]"

text \<open>The buffer of a sector, searched from the most recently used one on.\<close>

definition bufcache_find :: "u32 \<Rightarrow> u32 \<Rightarrow> ('z disk_scheme, nat option) kop" where
  "bufcache_find dev sector =
     bind (get_buf BHEAD b_next) (iterate (\<lambda>b.
       if b = BHEAD then ret (Inr None)
       else bind (get_buf b (\<lambda>x. x)) (\<lambda>x.
         if b_dev x = dev \<and> b_sector x = sector then ret (Inr (Some b)) else ret (Inl (b_next x)))))"

text \<open>A buffer to recycle, searched from the least recently used one on.\<close>

definition bufcache_victim :: "('z disk_scheme, nat option) kop" where
  "bufcache_victim =
     bind (get_buf BHEAD b_prev) (iterate (\<lambda>b.
       if b = BHEAD then ret (Inr None)
       else bind (get_buf b (\<lambda>x. x)) (\<lambda>x.
         if b_flags x AND B_BUSY = 0 \<and> b_flags x AND B_DIRTY = 0 then ret (Inr (Some b)) else ret (Inl (b_prev x)))))"

definition bufcache_get :: "('z disk_scheme \<Rightarrow> 'z disk_scheme) \<Rightarrow> u32 \<Rightarrow> u32 \<Rightarrow> ('z disk_scheme, nat) kop" where
  "bufcache_get env dev sector =
     seq (spinlock_acquire bcache_lk bcache_lk_update)
     (iterate (\<lambda>_. bind (bufcache_find dev sector) (\<lambda>r.
        case r of
          Some b \<Rightarrow> bind (get_buf b b_flags) (\<lambda>fl.
            if fl AND B_BUSY = 0 then
              seq (set_buf b (\<lambda>x. x\<lparr>b_flags := b_flags x OR B_BUSY\<rparr>))
              (seq (spinlock_release bcache_lk_update) (ret (Inr b)))
            else seq (sleep_on env (ChBuf b) bcache_lk bcache_lk_update) (ret (Inl ())))
        | None \<Rightarrow> bind bufcache_victim (\<lambda>v.
            case v of
              Some b \<Rightarrow>
                seq (set_buf b (\<lambda>x. x\<lparr>b_dev := dev, b_sector := sector, b_flags := B_BUSY\<rparr>))
                (seq (spinlock_release bcache_lk_update) (ret (Inr b)))
            | None \<Rightarrow> panic ''bufcache_get: no buffers''))) ())"

definition bufcache_read :: "('z disk_scheme \<Rightarrow> 'z disk_scheme) \<Rightarrow> u32 \<Rightarrow> u32 \<Rightarrow> ('z disk_scheme, nat) kop" where
  "bufcache_read env dev sector =
     bind (bufcache_get env dev sector) (\<lambda>b.
     bind (get_buf b b_flags) (\<lambda>fl.
     seq (when_true (fl AND B_VALID = 0) (ide_rw env b)) (ret b)))"

definition bufcache_write :: "('z disk_scheme \<Rightarrow> 'z disk_scheme) \<Rightarrow> nat \<Rightarrow> ('z disk_scheme, unit) kop" where
  "bufcache_write env b =
     bind (get_buf b b_flags) (\<lambda>fl.
     if fl AND B_BUSY = 0 then panic ''bwrite''
     else seq (set_buf b (\<lambda>x. x\<lparr>b_flags := b_flags x OR B_DIRTY\<rparr>)) (ide_rw env b))"

definition bufcache_release :: "nat \<Rightarrow> ('z disk_scheme, unit) kop" where
  "bufcache_release b =
     bind (get_buf b b_flags) (\<lambda>fl.
     if fl AND B_BUSY = 0 then panic ''brelse''
     else
       seq (spinlock_acquire bcache_lk bcache_lk_update)
       (bind (get_buf b b_next) (\<lambda>n.
        bind (get_buf b b_prev) (\<lambda>p.
        seq (set_buf n (\<lambda>x. x\<lparr>b_prev := p\<rparr>))
        (bind (get_buf b b_next) (\<lambda>n'.
         seq (set_buf p (\<lambda>x. x\<lparr>b_next := n'\<rparr>))
         (bind (get_buf BHEAD b_next) (\<lambda>h.
          block [set_buf b (\<lambda>x. x\<lparr>b_next := h\<rparr>), set_buf b (\<lambda>x. x\<lparr>b_prev := BHEAD\<rparr>),
            set_buf h (\<lambda>x. x\<lparr>b_prev := b\<rparr>), set_buf BHEAD (\<lambda>x. x\<lparr>b_next := b\<rparr>),
            set_buf b (\<lambda>x. x\<lparr>b_flags := b_flags x AND NOT B_BUSY\<rparr>),
            thread_wakeup (ChBuf b), spinlock_release bcache_lk_update]))))))))"

end
