(* ===== verification/Fs_Bytes.thy ===== *)
theory Fs_Bytes
  imports Kernel_Prelude
begin

unbundle bit_operations_syntax

text \<open>
  Structures inside a disk block: a block is a list of bytes, a field is read and written at an
  offset in little endian order, as the casts of \<open>bp->data\<close> to structures do.
\<close>

definition get16 :: "u8 list \<Rightarrow> nat \<Rightarrow> u16" where
  "get16 d i = ucast (d ! i) OR push_bit 8 (ucast (d ! (i + 1)))"

definition get32 :: "u8 list \<Rightarrow> nat \<Rightarrow> u32" where
  "get32 d i = ucast (d ! i) OR push_bit 8 (ucast (d ! (i + 1))) OR push_bit 16 (ucast (d ! (i + 2))) OR push_bit 24 (ucast (d ! (i + 3)))"

definition bytes16 :: "u16 \<Rightarrow> u8 list" where
  "bytes16 w = [ucast w, ucast (drop_bit 8 w)]"

definition bytes32 :: "u32 \<Rightarrow> u8 list" where
  "bytes32 w = [ucast w, ucast (drop_bit 8 w), ucast (drop_bit 16 w), ucast (drop_bit 24 w)]"

text \<open>\<open>put i bs d\<close> stores the bytes \<open>bs\<close> in \<open>d\<close> from offset \<open>i\<close> on.\<close>

definition put :: "nat \<Rightarrow> u8 list \<Rightarrow> u8 list \<Rightarrow> u8 list" where
  "put i bs d = take i d @ bs @ drop (i + length bs) d"

definition sub :: "nat \<Rightarrow> nat \<Rightarrow> u8 list \<Rightarrow> u8 list" where
  "sub i n d = take n (drop i d)"

lemma length_bytes [simp]: "length (bytes16 w) = 2" "length (bytes32 v) = 4"
  by (simp_all add: bytes16_def bytes32_def)

lemma length_put [simp]: "i + length bs \<le> length d \<Longrightarrow> length (put i bs d) = length d"
  by (simp add: put_def)

lemma nth_put:
  "i + length bs \<le> length d \<Longrightarrow> j < length d \<Longrightarrow>
   put i bs d ! j = (if i \<le> j \<and> j < i + length bs then bs ! (j - i) else d ! j)"
  by (auto simp: put_def nth_append min_def)

lemma get16_put16: "i + 2 \<le> length d \<Longrightarrow> get16 (put i (bytes16 w) d) i = w"
  by (rule bit_word_eqI) (auto simp: get16_def nth_put bytes16_def bit_simps)

lemma get32_put32: "i + 4 \<le> length d \<Longrightarrow> get32 (put i (bytes32 w) d) i = w"
proof (rule bit_word_eqI)
  fix n assume "i + 4 \<le> length d" "n < LENGTH(32)"
  thus "bit (get32 (put i (bytes32 w) d) i) n = bit w n"
    by (cases "n < 16"; cases "n < 24") (auto simp: get32_def nth_put bytes32_def bit_simps)
qed

lemma get16_put: "i + length bs \<le> length d \<Longrightarrow> j + 2 \<le> length d \<Longrightarrow> j + 2 \<le> i \<or> i + length bs \<le> j \<Longrightarrow> get16 (put i bs d) j = get16 d j"
  by (auto simp: get16_def nth_put)

lemma get32_put: "i + length bs \<le> length d \<Longrightarrow> j + 4 \<le> length d \<Longrightarrow> j + 4 \<le> i \<or> i + length bs \<le> j \<Longrightarrow> get32 (put i bs d) j = get32 d j"
  by (auto simp: get32_def nth_put)

lemma sub_put_same: "i + length bs \<le> length d \<Longrightarrow> sub i (length bs) (put i bs d) = bs"
  by (simp add: sub_def put_def)

lemma put_put_same: "i + length bs \<le> length d \<Longrightarrow> length cs = length bs \<Longrightarrow> put i bs (put i cs d) = put i bs d"
  by (rule nth_equalityI) (auto simp: nth_put)

end
