(* ===== verification/Log.thy ===== *)
theory Log
  imports Disk Fs_Bytes
begin

text \<open>
  The write-ahead log (\<open>kern/fs/log.c\<close>) and the block bitmap (\<open>kern/fs/block.c\<close>), on the state that
  the whole file system shares.
\<close>

section \<open>State of the file system\<close>

text \<open>\<open>struct inode\<close>, \<open>struct file\<close> and \<open>struct pipe\<close>; a pointer to one is its index in its table.\<close>

record inode =
  i_dev :: u32
  i_inum :: u32
  i_ref :: u32
  i_flags :: u32
  i_type :: u16
  i_major :: u16
  i_minor :: u16
  i_nlink :: u16
  i_size :: u32
  i_addrs :: "u32 list"

datatype file_type = FD_NONE | FD_PIPE | FD_INODE | FD_CONSOLE_IN | FD_CONSOLE_OUT

record file_t =
  f_type :: file_type
  f_ref :: u32
  f_readable :: bool
  f_writable :: bool
  f_pipe :: "nat option"
  f_ip :: "nat option"
  f_off :: u32

record pipe =
  p_ref :: u32
  p_data :: "u32 \<Rightarrow> u8"
  p_nread :: u32
  p_nwrite :: u32
  p_readopen :: bool
  p_writeopen :: bool

text \<open>
  \<open>sys_buf_at\<close> is the address of \<open>sys_buf\<close>; \<open>kstack_at\<close> is the address of a local buffer on the kernel
  stack and \<open>kstack_bytes\<close> what such a buffer holds before it is written.
\<close>

record fs = disk +
  log_lk :: spinlock_t
  log_start :: u32
  log_size :: u32
  log_busy :: bool
  log_dev :: u32
  lh_n :: u32
  lh_sector :: "u32 \<Rightarrow> u32"
  icache_lk :: spinlock_t
  inodes :: "nat \<Rightarrow> inode"
  ftable_lk :: spinlock_t
  files :: "nat \<Rightarrow> file_t"
  pipe_lk :: spinlock_t
  pipes :: "nat \<Rightarrow> pipe"
  open_first :: bool
  sys_buf :: "u32 \<Rightarrow> u8 list"
  sys_buf_at :: u32
  kstack_at :: u32
  kstack_bytes :: "nat \<Rightarrow> u8"

abbreviation (input) LOGSIZE :: u32 where "LOGSIZE \<equiv> 10"
abbreviation (input) ROOTDEV :: u32 where "ROOTDEV \<equiv> 1"
abbreviation (input) ROOTINO :: u32 where "ROOTINO \<equiv> 1"
abbreviation (input) BPB :: u32 where "BPB \<equiv> 4096"
abbreviation (input) IPB :: u32 where "IPB \<equiv> 8"

definition BBLOCK :: "u32 \<Rightarrow> u32 \<Rightarrow> u32" where
  "BBLOCK b ninodes = b div BPB + ninodes div IPB + 3"

definition IBLOCK :: "u32 \<Rightarrow> u32" where
  "IBLOCK i = i div IPB + 2"

record superblock =
  sb_size :: u32
  sb_nblocks :: u32
  sb_ninodes :: u32
  sb_nlog :: u32

type_synonym 'z fenv = "'z fs_scheme \<Rightarrow> 'z fs_scheme"

text \<open>The data of a buffer, changed in place.\<close>

definition buf_put :: "nat \<Rightarrow> nat \<Rightarrow> u8 list \<Rightarrow> ('z disk_scheme, unit) kop" where
  "buf_put b i bs = set_buf b (\<lambda>x. x\<lparr>b_data := put i bs (b_data x)\<rparr>)"

definition read_superblock :: "'z fenv \<Rightarrow> u32 \<Rightarrow> ('z fs_scheme, superblock) kop" where
  "read_superblock env dev =
     bind (bufcache_read env dev 1) (\<lambda>bp.
     bind (get_buf bp b_data) (\<lambda>d.
     seq (bufcache_release bp)
     (ret \<lparr>sb_size = get32 d 0, sb_nblocks = get32 d 4, sb_ninodes = get32 d 8, sb_nlog = get32 d 12\<rparr>)))"

section \<open>log.c\<close>

definition install_trans :: "'z fenv \<Rightarrow> ('z fs_scheme, unit) kop" where
  "install_trans env = iterate (\<lambda>tail. bind (gets lh_n) (\<lambda>n.
     if tail <s n then
       bind (gets log_dev) (\<lambda>dev.
       bind (gets log_start) (\<lambda>start.
       bind (bufcache_read env dev (start + tail + 1)) (\<lambda>lbuf.
       seq (in_bounds (tail < LOGSIZE))
       (bind (gets (\<lambda>s. lh_sector s tail)) (\<lambda>sec.
        bind (bufcache_read env dev sec) (\<lambda>dbuf.
        bind (get_buf lbuf b_data) (\<lambda>d.
        seq (block [buf_put dbuf 0 d, bufcache_write env dbuf, bufcache_release lbuf, bufcache_release dbuf])
        (ret (Inl (tail + 1))))))))))
     else ret (Inr ()))) 0"

definition read_head :: "'z fenv \<Rightarrow> ('z fs_scheme, unit) kop" where
  "read_head env =
     bind (gets log_dev) (\<lambda>dev.
     bind (gets log_start) (\<lambda>start.
     bind (bufcache_read env dev start) (\<lambda>buf.
     bind (get_buf buf b_data) (\<lambda>lh.
     seq (modify (\<lambda>s. s\<lparr>lh_n := get32 lh 0\<rparr>))
     (seq (iterate (\<lambda>i. bind (gets lh_n) (\<lambda>n.
        if i <s n then
          seq (in_bounds (i < LOGSIZE))
          (seq (modify (\<lambda>s. s\<lparr>lh_sector := (lh_sector s)(i := get32 lh (4 + 4 * unat i))\<rparr>))
          (ret (Inl (i + 1))))
        else ret (Inr ()))) 0)
     (bufcache_release buf))))))"

definition write_head :: "'z fenv \<Rightarrow> ('z fs_scheme, unit) kop" where
  "write_head env =
     bind (gets log_dev) (\<lambda>dev.
     bind (gets log_start) (\<lambda>start.
     bind (bufcache_read env dev start) (\<lambda>buf.
     bind (gets lh_n) (\<lambda>n.
     seq (buf_put buf 0 (bytes32 n))
     (seq (iterate (\<lambda>i. bind (gets lh_n) (\<lambda>n.
        if i <s n then
          seq (in_bounds (i < LOGSIZE))
          (bind (gets (\<lambda>s. lh_sector s i)) (\<lambda>sec.
           seq (buf_put buf (4 + 4 * unat i) (bytes32 sec))
           (ret (Inl (i + 1)))))
        else ret (Inr ()))) 0)
     (block [bufcache_write env buf, bufcache_release buf]))))))"

definition recover_from_log :: "'z fenv \<Rightarrow> ('z fs_scheme, unit) kop" where
  "recover_from_log env = block [read_head env, install_trans env, modify (\<lambda>s. s\<lparr>lh_n := 0\<rparr>), write_head env]"

definition log_init :: "'z fenv \<Rightarrow> ('z fs_scheme, unit) kop" where
  "log_init env =
     seq (spinlock_init log_lk_update)
     (bind (read_superblock env ROOTDEV) (\<lambda>sb.
      block [modify (\<lambda>s. s\<lparr>log_start := sb_size sb - sb_nlog sb\<rparr>), modify (\<lambda>s. s\<lparr>log_size := sb_nlog sb\<rparr>),
        modify (\<lambda>s. s\<lparr>log_dev := ROOTDEV\<rparr>), recover_from_log env]))"

definition begin_trans :: "'z fenv \<Rightarrow> ('z fs_scheme, unit) kop" where
  "begin_trans env = block [spinlock_acquire log_lk log_lk_update,
     iterate (\<lambda>_. bind (gets log_busy) (\<lambda>busy.
       if busy then seq (sleep_on env ChLog log_lk log_lk_update) (ret (Inl ())) else ret (Inr ()))) (),
     modify (\<lambda>s. s\<lparr>log_busy := True\<rparr>), spinlock_release log_lk_update]"

definition commit_trans :: "'z fenv \<Rightarrow> ('z fs_scheme, unit) kop" where
  "commit_trans env =
     bind (gets lh_n) (\<lambda>n. block [
       when_true (0 <s n) (block [write_head env, install_trans env, modify (\<lambda>s. s\<lparr>lh_n := 0\<rparr>), write_head env]),
       spinlock_acquire log_lk log_lk_update, modify (\<lambda>s. s\<lparr>log_busy := False\<rparr>),
       thread_wakeup ChLog, spinlock_release log_lk_update])"

definition log_write :: "'z fenv \<Rightarrow> nat \<Rightarrow> ('z fs_scheme, unit) kop" where
  "log_write env b =
     bind (gets lh_n) (\<lambda>n.
     bind (gets log_size) (\<lambda>size.
     bind (gets log_busy) (\<lambda>busy.
     bind (get_buf b (\<lambda>x. x)) (\<lambda>x.
     if LOGSIZE <=s n \<or> size - 1 <=s n then panic ''too big a transaction''
     else if \<not> busy then panic ''write outside of trans''
     else
       bind (iterate (\<lambda>i. bind (gets lh_n) (\<lambda>n.
         if i <s n then
           seq (in_bounds (i < LOGSIZE))
           (bind (gets (\<lambda>s. lh_sector s i)) (\<lambda>sec. if sec = b_sector x then ret (Inr i) else ret (Inl (i + 1))))
         else ret (Inr i))) 0) (\<lambda>i.
       seq (in_bounds (i < LOGSIZE))
       (seq (modify (\<lambda>s. s\<lparr>lh_sector := (lh_sector s)(i := b_sector x)\<rparr>))
       (bind (gets log_start) (\<lambda>start.
        bind (bufcache_read env (b_dev x) (start + i + 1)) (\<lambda>lbuf.
        bind (get_buf b b_data) (\<lambda>d.
        seq (block [buf_put lbuf 0 d, bufcache_write env lbuf, bufcache_release lbuf])
        (bind (gets lh_n) (\<lambda>n.
         seq (when_true (i = n) (modify (\<lambda>s. s\<lparr>lh_n := lh_n s + 1\<rparr>)))
         (set_buf b (\<lambda>x. x\<lparr>b_flags := b_flags x OR B_DIRTY\<rparr>))))))))))))))"

section \<open>block.c\<close>

definition block_zero :: "'z fenv \<Rightarrow> u32 \<Rightarrow> u32 \<Rightarrow> ('z fs_scheme, unit) kop" where
  "block_zero env dev bno =
     bind (bufcache_read env dev bno) (\<lambda>bp.
     block [buf_put bp 0 (replicate BSIZE 0), log_write env bp, bufcache_release bp])"

text \<open>The inner loop of \<open>block_alloc\<close>: the first clear bit of one bitmap block, if there is one.\<close>

definition block_alloc_bits :: "'z fenv \<Rightarrow> u32 \<Rightarrow> u32 \<Rightarrow> u32 \<Rightarrow> nat \<Rightarrow> ('z fs_scheme, u32 option) kop" where
  "block_alloc_bits env dev b sz bp = iterate (\<lambda>bi.
     if bi <s BPB \<and> b + bi < sz then
       bind (get_buf bp (\<lambda>x. b_data x ! unat (bi div 8))) (\<lambda>byte.
       let m = push_bit (unat (bi mod 8)) 1 in
       if byte AND m = 0 then
         seq (block [buf_put bp (unat (bi div 8)) [byte OR m], log_write env bp, bufcache_release bp,
                     block_zero env dev (b + bi)])
         (ret (Inr (Some (b + bi))))
       else ret (Inl (bi + 1)))
     else ret (Inr None)) 0"

text \<open>Running out of blocks leaves the function without a \<open>return\<close>: the value used is undefined.\<close>

definition block_alloc :: "'z fenv \<Rightarrow> u32 \<Rightarrow> ('z fs_scheme, u32) kop" where
  "block_alloc env dev =
     bind (read_superblock env dev) (\<lambda>sb.
     iterate (\<lambda>b.
       if b < sb_size sb then
         bind (bufcache_read env dev (BBLOCK b (sb_ninodes sb))) (\<lambda>bp.
         bind (block_alloc_bits env dev b (sb_size sb) bp) (\<lambda>r.
         case r of Some bno \<Rightarrow> ret (Inr bno)
         | None \<Rightarrow> seq (bufcache_release bp) (ret (Inl (b + BPB)))))
       else stop_with OutOfBounds) 0)"

definition block_free :: "'z fenv \<Rightarrow> u32 \<Rightarrow> u32 \<Rightarrow> ('z fs_scheme, unit) kop" where
  "block_free env dev b =
     bind (read_superblock env dev) (\<lambda>sb.
     bind (bufcache_read env dev (BBLOCK b (sb_ninodes sb))) (\<lambda>bp.
     let bi = b mod BPB; m = push_bit (unat (bi mod 8)) 1 in
     bind (get_buf bp (\<lambda>x. b_data x ! unat (bi div 8))) (\<lambda>byte.
     if byte AND m = 0 then panic ''freeing free block''
     else block [buf_put bp (unat (bi div 8)) [byte AND NOT m], log_write env bp, bufcache_release bp])))"

section \<open>A concrete state\<close>

text \<open>
  An idle kernel for the examples: nothing is cached, no file or pipe is open, no transaction is in progress.
  Drive 1 is present; \<open>sec\<close> is what its sectors hold.
\<close>

definition sample_buf :: "nat \<Rightarrow> buf" where
  "sample_buf b = \<lparr>b_flags = 0, b_dev = -1, b_sector = 0, b_prev = (if b = BHEAD then 0 else b + 1),
     b_next = (if b = 0 then BHEAD else b - 1), b_qnext = None, b_data = replicate 512 0\<rparr>"

definition sample_fs :: "(u32 \<Rightarrow> u8 list) \<Rightarrow> fs" where
  "sample_fs sec = disk.extend
     (console.extend (sample_console []) (disk.fields sample_buf lock_init_val lock_init_val lock_init_val None True (\<lambda>_. sec) []))
     (fs.fields lock_init_val 900 30 False 1 0 (\<lambda>_. 0) lock_init_val
        (\<lambda>_. \<lparr>i_dev = 0, i_inum = 0, i_ref = 0, i_flags = 0, i_type = 0, i_major = 0, i_minor = 0, i_nlink = 0, i_size = 0,
          i_addrs = replicate 13 0\<rparr>)
        lock_init_val
        (\<lambda>_. \<lparr>f_type = FD_NONE, f_ref = 0, f_readable = False, f_writable = False, f_pipe = None, f_ip = None, f_off = 0\<rparr>)
        lock_init_val
        (\<lambda>_. \<lparr>p_ref = 0, p_data = (\<lambda>_. 0), p_nread = 0, p_nwrite = 0, p_readopen = False, p_writeopen = False\<rparr>)
        True (\<lambda>_. replicate 4096 0) 0x400000 0x500000 (\<lambda>_. 0))"

lemmas sample_fs_defs = sample_fs_def sample_console_def ipc.defs io.defs console.defs disk.defs fs.defs

lemma sample_fs_simps [simp]:
  "bufs (sample_fs sec) = sample_buf" "bcache_lk (sample_fs sec) = lock_init_val" "ide_lk (sample_fs sec) = lock_init_val"
  "idequeue (sample_fs sec) = None" "havedisk1 (sample_fs sec)" "sectors (sample_fs sec) = (\<lambda>_. sec)" "disk_writes (sample_fs sec) = []"
  "log_lk (sample_fs sec) = lock_init_val" "log_start (sample_fs sec) = 900" "log_size (sample_fs sec) = 30" "\<not> log_busy (sample_fs sec)"
  "log_dev (sample_fs sec) = 1" "lh_n (sample_fs sec) = 0" "pipe_lk (sample_fs sec) = lock_init_val" "ftable_lk (sample_fs sec) = lock_init_val"
  "icache_lk (sample_fs sec) = lock_init_val"
  "pipes (sample_fs sec) p = \<lparr>p_ref = 0, p_data = (\<lambda>_. 0), p_nread = 0, p_nwrite = 0, p_readopen = False, p_writeopen = False\<rparr>"
  by (simp_all add: sample_fs_defs)

lemma sample_fs_sched: "sched_ok (sample_fs sec) [2, 3, 4]"
  by (subst sched_ok_cong [of _ sample_ipc]) (use sample_ipc_ok(2) in \<open>simp_all add: sample_fs_defs\<close>)

end
