(* ===== verification/Inode.thy ===== *)
theory Inode
  imports Log
begin

text \<open>
  Inodes and their contents (\<open>kern/fs/inode.c\<close>), directories (\<open>kern/fs/dir.c\<close>) and path names
  (\<open>kern/fs/path.c\<close>). A pointer to an inode is its index in the inode cache, the null pointer \<open>None\<close>.
\<close>

abbreviation (input) NINODE :: nat where "NINODE \<equiv> 50"
abbreviation (input) NDEV :: u16 where "NDEV \<equiv> 10"
abbreviation (input) NDIRECT :: u32 where "NDIRECT \<equiv> 12"
abbreviation (input) NINDIRECT :: u32 where "NINDIRECT \<equiv> 128"
abbreviation (input) MAXFILE :: u32 where "MAXFILE \<equiv> 140"
abbreviation (input) I_BUSY :: u32 where "I_BUSY \<equiv> 1"
abbreviation (input) I_VALID :: u32 where "I_VALID \<equiv> 2"
abbreviation (input) T_DIR :: u16 where "T_DIR \<equiv> 1"
abbreviation (input) T_FILE :: u16 where "T_FILE \<equiv> 2"
abbreviation (input) T_DEV :: u16 where "T_DEV \<equiv> 3"
abbreviation (input) DIRSIZ :: nat where "DIRSIZ \<equiv> 14"

definition get_inode :: "nat \<Rightarrow> (inode \<Rightarrow> 'a) \<Rightarrow> ('z fs_scheme, 'a) kop" where
  "get_inode ip f = gets (\<lambda>s. f (inodes s ip))"

definition set_inode :: "nat \<Rightarrow> (inode \<Rightarrow> inode) \<Rightarrow> ('z fs_scheme, unit) kop" where
  "set_inode ip f = modify (\<lambda>s. s\<lparr>inodes := (inodes s)(ip := f (inodes s ip))\<rparr>)"

section \<open>The on-disk inode\<close>

definition dinode_at :: "u32 \<Rightarrow> nat" where
  "dinode_at inum = unat (inum mod IPB) * 64"

definition dinode_bytes :: "inode \<Rightarrow> u8 list" where
  "dinode_bytes x = bytes16 (i_type x) @ bytes16 (i_major x) @ bytes16 (i_minor x) @ bytes16 (i_nlink x) @
     bytes32 (i_size x) @ concat (map bytes32 (i_addrs x))"

definition load_dinode :: "u8 list \<Rightarrow> nat \<Rightarrow> inode \<Rightarrow> inode" where
  "load_dinode d o1 x = x\<lparr>i_type := get16 d o1, i_major := get16 d (o1 + 2), i_minor := get16 d (o1 + 4),
     i_nlink := get16 d (o1 + 6), i_size := get32 d (o1 + 8), i_addrs := map (\<lambda>k. get32 d (o1 + 12 + 4 * k)) [0..<13]\<rparr>"

section \<open>inode.c: the inode cache\<close>

definition inode_init :: "('z fs_scheme, unit) kop" where
  "inode_init = spinlock_init icache_lk_update"

definition inode_get :: "u32 \<Rightarrow> u32 \<Rightarrow> ('z fs_scheme, nat) kop" where
  "inode_get dev inum =
     seq (spinlock_acquire icache_lk icache_lk_update)
     (bind (gets inodes) (\<lambda>tab.
      case find (\<lambda>ip. 0 <s i_ref (tab ip) \<and> i_dev (tab ip) = dev \<and> i_inum (tab ip) = inum) [0..<NINODE] of
        Some ip \<Rightarrow>
          seq (block [set_inode ip (\<lambda>x. x\<lparr>i_ref := i_ref x + 1\<rparr>), spinlock_release icache_lk_update]) (ret ip)
      | None \<Rightarrow>
          (case find (\<lambda>ip. i_ref (tab ip) = 0) [0..<NINODE] of
             None \<Rightarrow> panic ''inode_get: no inodes''
           | Some ip \<Rightarrow>
               seq (block [set_inode ip (\<lambda>x. x\<lparr>i_dev := dev, i_inum := inum, i_ref := 1, i_flags := 0\<rparr>),
                           spinlock_release icache_lk_update])
               (ret ip))))"

definition inode_alloc :: "'z fenv \<Rightarrow> u32 \<Rightarrow> u16 \<Rightarrow> ('z fs_scheme, nat) kop" where
  "inode_alloc env dev type =
     bind (read_superblock env dev) (\<lambda>sb.
     iterate (\<lambda>inum.
       if inum < sb_ninodes sb then
         bind (bufcache_read env dev (IBLOCK inum)) (\<lambda>bp.
         bind (get_buf bp (\<lambda>x. get16 (b_data x) (dinode_at inum))) (\<lambda>ty.
         if ty = 0 then
           seq (block [buf_put bp (dinode_at inum) (replicate 64 0), buf_put bp (dinode_at inum) (bytes16 type),
                       log_write env bp, bufcache_release bp])
           (bind (inode_get dev inum) (\<lambda>ip. ret (Inr ip)))
         else seq (bufcache_release bp) (ret (Inl (inum + 1)))))
       else panic ''inode_alloc: no inodes'') 1)"

definition inode_update :: "'z fenv \<Rightarrow> nat \<Rightarrow> ('z fs_scheme, unit) kop" where
  "inode_update env ip =
     bind (get_inode ip (\<lambda>x. x)) (\<lambda>x.
     bind (bufcache_read env (i_dev x) (IBLOCK (i_inum x))) (\<lambda>bp.
     bind (get_inode ip (\<lambda>x. x)) (\<lambda>x.
     block [buf_put bp (dinode_at (i_inum x)) (dinode_bytes x), log_write env bp, bufcache_release bp])))"

definition inode_dup :: "nat \<Rightarrow> ('z fs_scheme, nat) kop" where
  "inode_dup ip =
     seq (block [spinlock_acquire icache_lk icache_lk_update, set_inode ip (\<lambda>x. x\<lparr>i_ref := i_ref x + 1\<rparr>),
                 spinlock_release icache_lk_update])
     (ret ip)"

definition inode_lock :: "'z fenv \<Rightarrow> nat option \<Rightarrow> ('z fs_scheme, unit) kop" where
  "inode_lock env ip =
     (case ip of
        None \<Rightarrow> panic ''inode_lock''
      | Some ip \<Rightarrow>
          bind (get_inode ip i_ref) (\<lambda>ref.
          if ref <s 1 then panic ''inode_lock''
          else
            seq (block [spinlock_acquire icache_lk icache_lk_update,
              iterate (\<lambda>_. bind (get_inode ip i_flags) (\<lambda>fl.
                if fl AND I_BUSY \<noteq> 0 then seq (sleep_on env (ChInode ip) icache_lk icache_lk_update) (ret (Inl ()))
                else ret (Inr ()))) (),
              set_inode ip (\<lambda>x. x\<lparr>i_flags := i_flags x OR I_BUSY\<rparr>), spinlock_release icache_lk_update])
            (bind (get_inode ip (\<lambda>x. x)) (\<lambda>x.
             when_true (i_flags x AND I_VALID = 0)
               (bind (bufcache_read env (i_dev x) (IBLOCK (i_inum x))) (\<lambda>bp.
                bind (get_buf bp b_data) (\<lambda>d.
                seq (block [set_inode ip (\<lambda>x. load_dinode d (dinode_at (i_inum x)) x), bufcache_release bp,
                            set_inode ip (\<lambda>x. x\<lparr>i_flags := i_flags x OR I_VALID\<rparr>)])
                (bind (get_inode ip i_type) (\<lambda>ty. when_true (ty = 0) (panic ''inode_lock: no type''))))))))))"

definition inode_unlock :: "nat option \<Rightarrow> ('z fs_scheme, unit) kop" where
  "inode_unlock ip =
     (case ip of
        None \<Rightarrow> panic ''inode_unlock''
      | Some ip \<Rightarrow>
          bind (get_inode ip (\<lambda>x. x)) (\<lambda>x.
          if i_flags x AND I_BUSY = 0 \<or> i_ref x <s 1 then panic ''inode_unlock''
          else block [spinlock_acquire icache_lk icache_lk_update,
            set_inode ip (\<lambda>x. x\<lparr>i_flags := i_flags x AND NOT I_BUSY\<rparr>),
            thread_wakeup (ChInode ip), spinlock_release icache_lk_update]))"

section \<open>inode.c: contents\<close>

definition bmap :: "'z fenv \<Rightarrow> nat \<Rightarrow> u32 \<Rightarrow> ('z fs_scheme, u32) kop" where
  "bmap env ip bn =
     (let addr_or_alloc = (\<lambda>k. bind (get_inode ip (\<lambda>x. i_addrs x ! k)) (\<lambda>addr.
        if addr = 0 then
          bind (get_inode ip i_dev) (\<lambda>dev.
          bind (block_alloc env dev) (\<lambda>addr.
          seq (set_inode ip (\<lambda>x. x\<lparr>i_addrs := (i_addrs x)[k := addr]\<rparr>)) (ret addr)))
        else ret addr)) in
      if bn < NDIRECT then addr_or_alloc (unat bn)
      else
        let bn = bn - NDIRECT in
        if bn < NINDIRECT then
          bind (addr_or_alloc (unat NDIRECT)) (\<lambda>addr.
          bind (get_inode ip i_dev) (\<lambda>dev.
          bind (bufcache_read env dev addr) (\<lambda>bp.
          bind (get_buf bp (\<lambda>x. get32 (b_data x) (4 * unat bn))) (\<lambda>addr.
          bind (if addr = 0 then
                  bind (block_alloc env dev) (\<lambda>addr.
                  seq (block [buf_put bp (4 * unat bn) (bytes32 addr), log_write env bp]) (ret addr))
                else ret addr) (\<lambda>addr.
          seq (bufcache_release bp) (ret addr))))))
        else panic ''bmap: out of range'')"

definition inode_trunc :: "'z fenv \<Rightarrow> nat \<Rightarrow> ('z fs_scheme, unit) kop" where
  "inode_trunc env ip =
     seq (for_loop 0 NDIRECT (\<lambda>i.
       bind (get_inode ip (\<lambda>x. i_addrs x ! unat i)) (\<lambda>addr.
       when_true (addr \<noteq> 0)
         (bind (get_inode ip i_dev) (\<lambda>dev.
          block [block_free env dev addr, set_inode ip (\<lambda>x. x\<lparr>i_addrs := (i_addrs x)[unat i := 0]\<rparr>)])))))
     (bind (get_inode ip (\<lambda>x. i_addrs x ! unat NDIRECT)) (\<lambda>ind.
      bind (get_inode ip i_dev) (\<lambda>dev.
      block [
        when_true (ind \<noteq> 0)
          (bind (bufcache_read env dev ind) (\<lambda>bp.
           block [
             for_loop 0 NINDIRECT (\<lambda>j.
               bind (get_buf bp (\<lambda>x. get32 (b_data x) (4 * unat j))) (\<lambda>addr.
               when_true (addr \<noteq> 0) (block_free env dev addr))),
             bufcache_release bp,
             block_free env dev ind,
             set_inode ip (\<lambda>x. x\<lparr>i_addrs := (i_addrs x)[unat NDIRECT := 0]\<rparr>)])),
        set_inode ip (\<lambda>x. x\<lparr>i_size := 0\<rparr>),
        inode_update env ip])))"

definition inode_put :: "'z fenv \<Rightarrow> nat \<Rightarrow> ('z fs_scheme, unit) kop" where
  "inode_put env ip =
     seq (spinlock_acquire icache_lk icache_lk_update)
     (bind (get_inode ip (\<lambda>x. x)) (\<lambda>x.
      block [
        when_true (i_ref x = 1 \<and> i_flags x AND I_VALID \<noteq> 0 \<and> i_nlink x = 0)
          (if i_flags x AND I_BUSY \<noteq> 0 then panic ''inode_put busy''
           else block [
             set_inode ip (\<lambda>x. x\<lparr>i_flags := i_flags x OR I_BUSY\<rparr>),
             spinlock_release icache_lk_update,
             inode_trunc env ip,
             set_inode ip (\<lambda>x. x\<lparr>i_type := 0\<rparr>),
             inode_update env ip,
             spinlock_acquire icache_lk icache_lk_update,
             set_inode ip (\<lambda>x. x\<lparr>i_flags := 0\<rparr>),
             thread_wakeup (ChInode ip)]),
        set_inode ip (\<lambda>x. x\<lparr>i_ref := i_ref x - 1\<rparr>),
        spinlock_release icache_lk_update]))"

definition inode_unlockput :: "'z fenv \<Rightarrow> nat \<Rightarrow> ('z fs_scheme, unit) kop" where
  "inode_unlockput env ip = block [inode_unlock (Some ip), inode_put env ip]"

record file_stat =
  st_type :: u16
  st_dev :: u32
  st_ino :: u32
  st_nlink :: u16
  st_size :: u32

definition inode_stat :: "nat \<Rightarrow> ('z fs_scheme, file_stat) kop" where
  "inode_stat ip = get_inode ip (\<lambda>x.
     \<lparr>st_type = i_type x, st_dev = i_dev x, st_ino = i_inum x, st_nlink = i_nlink x, st_size = i_size x\<rparr>)"

text \<open>
  The number of bytes the next round of \<open>inode_read\<close> and \<open>inode_write\<close> copies. The table \<open>devsw\<close> of
  device functions is a null pointer that nothing sets, so an access through it is out of bounds.
\<close>

definition block_chunk :: "u32 \<Rightarrow> u32 \<Rightarrow> u32 \<Rightarrow> u32" where
  "block_chunk n tot off = min (n - tot) (512 - off mod 512)"

text \<open>The result and the bytes stored at \<open>dst\<close>.\<close>

definition inode_read :: "'z fenv \<Rightarrow> nat \<Rightarrow> u32 \<Rightarrow> u32 \<Rightarrow> ('z fs_scheme, u32 \<times> u8 list) kop" where
  "inode_read env ip off n =
     bind (get_inode ip (\<lambda>x. x)) (\<lambda>x.
     if i_type x = T_DEV then
       if i_major x <s 0 \<or> NDEV <=s i_major x then ret (-1, []) else stop_with OutOfBounds
     else if i_size x < off \<or> off + n < off then ret (-1, [])
     else
       let n = if i_size x < off + n then i_size x - off else n in
       iterate (\<lambda>(tot, off, dst).
         if tot < n then
           bind (bmap env ip (off div 512)) (\<lambda>bno.
           bind (get_inode ip i_dev) (\<lambda>dev.
           bind (bufcache_read env dev bno) (\<lambda>bp.
           let m = block_chunk n tot off in
           bind (get_buf bp (\<lambda>x. sub (unat (off mod 512)) (unat m) (b_data x))) (\<lambda>bs.
           seq (bufcache_release bp)
           (ret (Inl (tot + m, off + m, dst @ bs)))))))
         else ret (Inr (n, dst))) (0, off, []))"

definition inode_write :: "'z fenv \<Rightarrow> nat \<Rightarrow> u8 list \<Rightarrow> u32 \<Rightarrow> u32 \<Rightarrow> ('z fs_scheme, u32) kop" where
  "inode_write env ip src off n =
     bind (get_inode ip (\<lambda>x. x)) (\<lambda>x.
     if i_type x = T_DEV then
       if i_major x <s 0 \<or> NDEV <=s i_major x then ret (-1) else stop_with OutOfBounds
     else if i_size x < off \<or> off + n < off then ret (-1)
     else if MAXFILE * 512 < off + n then ret (-1)
     else
       bind (iterate (\<lambda>(tot, off).
         if tot < n then
           bind (bmap env ip (off div 512)) (\<lambda>bno.
           bind (get_inode ip i_dev) (\<lambda>dev.
           bind (bufcache_read env dev bno) (\<lambda>bp.
           let m = block_chunk n tot off in
           seq (in_bounds (unat tot + unat m \<le> length src))
           (seq (block [buf_put bp (unat (off mod 512)) (sub (unat tot) (unat m) src), log_write env bp,
                        bufcache_release bp])
           (ret (Inl (tot + m, off + m)))))))
         else ret (Inr off)) (0, off)) (\<lambda>off.
       bind (get_inode ip i_size) (\<lambda>sz.
       seq (when_true (0 < n \<and> sz < off)
              (block [set_inode ip (\<lambda>x. x\<lparr>i_size := off\<rparr>), inode_update env ip]))
       (ret n))))"

section \<open>dir.c\<close>

text \<open>A directory entry is sixteen bytes: the inode number and the name.\<close>

definition dir_namecmp :: "u8 list \<Rightarrow> u8 list \<Rightarrow> int option" where
  "dir_namecmp s t = strncmp s t DIRSIZ"

definition dir_lookup :: "'z fenv \<Rightarrow> nat \<Rightarrow> u8 list \<Rightarrow> ('z fs_scheme, (nat \<times> u32) option) kop" where
  "dir_lookup env dp name =
     bind (get_inode dp i_type) (\<lambda>ty.
     if ty \<noteq> T_DIR then panic ''dir_lookup not DIR''
     else iterate (\<lambda>off. bind (get_inode dp i_size) (\<lambda>sz.
       if off < sz then
         bind (inode_read env dp off 16) (\<lambda>(r, de).
         if r \<noteq> 16 then panic ''wrong in dir_lookup''
         else if get16 de 0 = 0 then ret (Inl (off + 16))
         else bind (opt_bounds (dir_namecmp (sub 2 DIRSIZ de) name)) (\<lambda>c.
           if c = 0 then
             bind (get_inode dp i_dev) (\<lambda>dev.
             bind (inode_get dev (ucast (get16 de 0))) (\<lambda>ip. ret (Inr (Some (ip, off)))))
           else ret (Inl (off + 16))))
       else ret (Inr None))) 0)"

definition dir_link :: "'z fenv \<Rightarrow> nat \<Rightarrow> u8 list \<Rightarrow> u32 \<Rightarrow> ('z fs_scheme, u32) kop" where
  "dir_link env dp name inum =
     bind (dir_lookup env dp name) (\<lambda>r.
     case r of
       Some (ip, _) \<Rightarrow> seq (inode_put env ip) (ret (-1))
     | None \<Rightarrow>
         bind (iterate (\<lambda>off. bind (get_inode dp i_size) (\<lambda>sz.
           if off < sz then
             bind (inode_read env dp off 16) (\<lambda>(r, de).
             if r \<noteq> 16 then panic ''entry size read is not correct, dir_link''
             else if get16 de 0 = 0 then ret (Inr off) else ret (Inl (off + 16)))
           else ret (Inr off))) 0) (\<lambda>off.
         bind (opt_bounds (strncpy name DIRSIZ)) (\<lambda>nm.
         bind (inode_write env dp (bytes16 (ucast inum) @ nm) off 16) (\<lambda>r.
         if r \<noteq> 16 then panic ''entry size write is not corrent, dir_link'' else ret 0))))"

section \<open>path.c\<close>

text \<open>
  A path is a string with its terminator. The result of \<open>skipelem\<close> is the element and the rest of
  the path, \<open>Some None\<close> for the null pointer; \<open>None\<close> stands for a read beyond the buffer.
\<close>

definition skipelem :: "u8 list \<Rightarrow> (u8 list \<times> u8 list) option option" where
  "skipelem path =
     (case path of [] \<Rightarrow> None
      | c # _ \<Rightarrow>
          if c = 0 then Some None
          else
            let start = dropWhile (\<lambda>c. c = 47) path in
            case start of [] \<Rightarrow> None
            | c # _ \<Rightarrow>
                if c = 0 then Some None
                else
                  let elem = takeWhile (\<lambda>c. c \<noteq> 47 \<and> c \<noteq> 0) start;
                      rest = dropWhile (\<lambda>c. c \<noteq> 47 \<and> c \<noteq> 0) start;
                      len = (if DIRSIZ \<le> length elem then DIRSIZ - 1 else length elem) in
                  case strncpy start len of None \<Rightarrow> None
                  | Some name \<Rightarrow>
                      (case dropWhile (\<lambda>c. c = 47) rest of [] \<Rightarrow> None
                       | p # ps \<Rightarrow> Some (Some (name @ [0], p # ps))))"

definition namex :: "'z fenv \<Rightarrow> u8 list \<Rightarrow> bool \<Rightarrow> ('z fs_scheme, (nat \<times> u8 list) option) kop" where
  "namex env path parent =
     seq (in_bounds (path \<noteq> []))
     (bind
       (if hd path = 47 then inode_get ROOTDEV ROOTINO
        else
          bind get_curid (\<lambda>pid.
          bind (tcb_get_cwd pid) (\<lambda>cwd.
          bind (case cwd of Some cwd \<Rightarrow> ret cwd
                | None \<Rightarrow> bind (inode_get ROOTDEV ROOTINO) (\<lambda>cwd. seq (tcb_set_cwd pid (Some cwd)) (ret cwd)))
            inode_dup)))
       (\<lambda>ip. iterate (\<lambda>(ip, path, name). bind (opt_bounds (skipelem path)) (\<lambda>r.
          case r of
            None \<Rightarrow>
              if parent then seq (inode_put env ip) (ret (Inr None)) else ret (Inr (Some (ip, name)))
          | Some (name, path) \<Rightarrow>
              seq (inode_lock env (Some ip))
              (bind (get_inode ip i_type) (\<lambda>ty.
               if ty \<noteq> T_DIR then seq (inode_unlockput env ip) (ret (Inr None))
               else if parent \<and> hd path = 0 then seq (inode_unlock (Some ip)) (ret (Inr (Some (ip, name))))
               else bind (dir_lookup env ip name) (\<lambda>r.
                 case r of
                   None \<Rightarrow> seq (inode_unlockput env ip) (ret (Inr None))
                 | Some (subdir, _) \<Rightarrow> seq (inode_unlockput env ip) (ret (Inl (subdir, path, name)))))))) (ip, path, [])))"

definition namei :: "'z fenv \<Rightarrow> u8 list \<Rightarrow> ('z fs_scheme, nat option) kop" where
  "namei env path = bind (namex env path False) (\<lambda>r. ret (map_option fst r))"

definition nameiparent :: "'z fenv \<Rightarrow> u8 list \<Rightarrow> ('z fs_scheme, (nat \<times> u8 list) option) kop" where
  "nameiparent env path = namex env path True"

end
