(* ===== verification/File.thy ===== *)
theory File
  imports Inode
begin

text \<open>
  Open files, pipes and the console as a file (\<open>kern/fs/file.c\<close>). A pointer to an open file or to a
  pipe is its index in its table. A buffer that is read into is passed in and returned updated.
\<close>

abbreviation (input) NFILE :: nat where "NFILE \<equiv> 100"
abbreviation (input) NPIPE :: nat where "NPIPE \<equiv> 10"
abbreviation (input) PIPESIZE :: u32 where "PIPESIZE \<equiv> 512"

definition get_file :: "nat \<Rightarrow> (file_t \<Rightarrow> 'a) \<Rightarrow> ('z fs_scheme, 'a) kop" where
  "get_file f g = gets (\<lambda>s. g (files s f))"

definition set_file :: "nat \<Rightarrow> (file_t \<Rightarrow> file_t) \<Rightarrow> ('z fs_scheme, unit) kop" where
  "set_file f g = modify (\<lambda>s. s\<lparr>files := (files s)(f := g (files s f))\<rparr>)"

definition get_pipe :: "nat \<Rightarrow> (pipe \<Rightarrow> 'a) \<Rightarrow> ('z fs_scheme, 'a) kop" where
  "get_pipe p g = gets (\<lambda>s. g (pipes s p))"

definition set_pipe :: "nat \<Rightarrow> (pipe \<Rightarrow> pipe) \<Rightarrow> ('z fs_scheme, unit) kop" where
  "set_pipe p g = modify (\<lambda>s. s\<lparr>pipes := (pipes s)(p := g (pipes s p))\<rparr>)"

definition file_init :: "('z fs_scheme, unit) kop" where
  "file_init = block [spinlock_init ftable_lk_update, spinlock_init pipe_lk_update]"

definition file_alloc :: "('z fs_scheme, nat option) kop" where
  "file_alloc =
     seq (spinlock_acquire ftable_lk ftable_lk_update)
     (bind (gets files) (\<lambda>tab.
      case find (\<lambda>f. f_ref (tab f) = 0) [0..<NFILE] of
        Some f \<Rightarrow> seq (block [set_file f (\<lambda>x. x\<lparr>f_ref := 1\<rparr>), spinlock_release ftable_lk_update]) (ret (Some f))
      | None \<Rightarrow> seq (spinlock_release ftable_lk_update) (ret None)))"

definition file_dup :: "nat \<Rightarrow> ('z fs_scheme, nat) kop" where
  "file_dup f =
     seq (spinlock_acquire ftable_lk ftable_lk_update)
     (bind (get_file f f_ref) (\<lambda>ref.
      if ref <s 1 then panic ''file_dup''
      else seq (block [set_file f (\<lambda>x. x\<lparr>f_ref := f_ref x + 1\<rparr>), spinlock_release ftable_lk_update]) (ret f)))"

section \<open>Pipes\<close>

definition pipe_close :: "nat \<Rightarrow> bool \<Rightarrow> ('z fs_scheme, unit) kop" where
  "pipe_close p writable =
     seq (spinlock_acquire pipe_lk pipe_lk_update)
     (seq (if writable then block [set_pipe p (\<lambda>x. x\<lparr>p_writeopen := False\<rparr>), thread_wakeup (ChNread p)]
           else block [set_pipe p (\<lambda>x. x\<lparr>p_readopen := False\<rparr>), thread_wakeup (ChNwrite p)])
     (bind (get_pipe p (\<lambda>x. x)) (\<lambda>x.
      block [when_true (\<not> p_readopen x \<and> \<not> p_writeopen x) (set_pipe p (\<lambda>x. x\<lparr>p_ref := 0\<rparr>)),
        spinlock_release pipe_lk_update])))"

text \<open>The loop that waits while the pipe is full; \<open>False\<close> when the read end is closed.\<close>

definition pipe_wait_room :: "'z fenv \<Rightarrow> nat \<Rightarrow> ('z fs_scheme, bool) kop" where
  "pipe_wait_room env p = iterate (\<lambda>_. bind (get_pipe p (\<lambda>x. x)) (\<lambda>x.
     if p_nwrite x = p_nread x + PIPESIZE then
       if \<not> p_readopen x then seq (spinlock_release pipe_lk_update) (ret (Inr False))
       else seq (block [thread_wakeup (ChNread p), sleep_on env (ChNwrite p) pipe_lk pipe_lk_update]) (ret (Inl ()))
     else ret (Inr True))) ()"

definition pipe_write_step :: "'z fenv \<Rightarrow> nat \<Rightarrow> u8 list \<Rightarrow> u32 \<Rightarrow> u32 \<Rightarrow> ('z fs_scheme, u32 + u32) kop" where
  "pipe_write_step env p addr n i =
     (if i <s n then
        bind (pipe_wait_room env p) (\<lambda>ok.
        if \<not> ok then ret (Inr (-1))
        else
          seq (in_bounds (unat i < length addr))
          (seq (set_pipe p (\<lambda>x. x\<lparr>p_data := (p_data x)(p_nwrite x mod PIPESIZE := addr ! unat i),
                                  p_nwrite := p_nwrite x + 1\<rparr>))
          (ret (Inl (i + 1)))))
      else seq (block [thread_wakeup (ChNread p), spinlock_release pipe_lk_update]) (ret (Inr n)))"

definition pipe_write :: "'z fenv \<Rightarrow> nat \<Rightarrow> u8 list \<Rightarrow> u32 \<Rightarrow> ('z fs_scheme, u32) kop" where
  "pipe_write env p addr n = seq (spinlock_acquire pipe_lk pipe_lk_update) (iterate (pipe_write_step env p addr n) 0)"

text \<open>The loop that waits while the pipe is empty and can still be written to.\<close>

definition pipe_wait_data :: "'z fenv \<Rightarrow> nat \<Rightarrow> ('z fs_scheme, unit) kop" where
  "pipe_wait_data env p = iterate (\<lambda>_. bind (get_pipe p (\<lambda>x. x)) (\<lambda>x.
     if p_nread x = p_nwrite x \<and> p_writeopen x
     then seq (sleep_on env (ChNread p) pipe_lk pipe_lk_update) (ret (Inl ())) else ret (Inr ()))) ()"

definition pipe_read_step :: "nat \<Rightarrow> u32 \<Rightarrow> u32 \<times> u8 list \<Rightarrow> ('z fs_scheme, u32 \<times> u8 list + u32 \<times> u8 list) kop" where
  "pipe_read_step p n v =
     (case v of (i, addr) \<Rightarrow>
      if i <s n then
        bind (get_pipe p (\<lambda>x. x)) (\<lambda>x.
        if p_nread x = p_nwrite x then ret (Inr (i, addr))
        else
          seq (in_bounds (unat i < length addr))
          (seq (set_pipe p (\<lambda>x. x\<lparr>p_nread := p_nread x + 1\<rparr>))
          (ret (Inl (i + 1, addr[unat i := p_data x (p_nread x mod PIPESIZE)])))))
      else ret (Inr (i, addr)))"

definition pipe_read :: "'z fenv \<Rightarrow> nat \<Rightarrow> u8 list \<Rightarrow> u32 \<Rightarrow> ('z fs_scheme, u32 \<times> u8 list) kop" where
  "pipe_read env p addr n =
     seq (spinlock_acquire pipe_lk pipe_lk_update)
     (seq (pipe_wait_data env p)
     (bind (iterate (pipe_read_step p n) (0, addr)) (\<lambda>(i, addr).
      seq (block [thread_wakeup (ChNwrite p), spinlock_release pipe_lk_update]) (ret (i, addr)))))"

section \<open>Files\<close>

definition file_close :: "'z fenv \<Rightarrow> nat \<Rightarrow> ('z fs_scheme, unit) kop" where
  "file_close env f =
     seq (spinlock_acquire ftable_lk ftable_lk_update)
     (bind (get_file f f_ref) (\<lambda>ref.
      if ref <s 1 then panic ''file_close''
      else
        seq (set_file f (\<lambda>x. x\<lparr>f_ref := f_ref x - 1\<rparr>))
        (bind (get_file f (\<lambda>x. x)) (\<lambda>ff.
         if 0 <s f_ref ff then spinlock_release ftable_lk_update
         else
           seq (block [set_file f (\<lambda>x. x\<lparr>f_ref := 0\<rparr>), set_file f (\<lambda>x. x\<lparr>f_type := FD_NONE\<rparr>),
                       spinlock_release ftable_lk_update])
           (if f_type ff = FD_PIPE then bind (opt_bounds (f_pipe ff)) (\<lambda>p. pipe_close p (f_writable ff))
            else if f_type ff = FD_INODE then
              bind (opt_bounds (f_ip ff)) (\<lambda>ip. block [begin_trans env, inode_put env ip, commit_trans env])
            else ret ())))))"

definition pipe_alloc :: "'z fenv \<Rightarrow> ('z fs_scheme, (nat \<times> nat) option) kop" where
  "pipe_alloc env =
     bind file_alloc (\<lambda>f0.
     case f0 of None \<Rightarrow> ret None
     | Some f0 \<Rightarrow>
         bind file_alloc (\<lambda>f1.
         case f1 of None \<Rightarrow> seq (file_close env f0) (ret None)
         | Some f1 \<Rightarrow>
             seq (spinlock_acquire pipe_lk pipe_lk_update)
             (bind (gets pipes) (\<lambda>tab.
              let p = find (\<lambda>p. p_ref (tab p) = 0) [0..<NPIPE] in
              seq (case p of None \<Rightarrow> ret ()
                   | Some p \<Rightarrow> set_pipe p (\<lambda>x. x\<lparr>p_ref := 2, p_readopen := True, p_writeopen := True, p_nwrite := 0, p_nread := 0\<rparr>))
              (seq (spinlock_release pipe_lk_update)
              (case p of
                 None \<Rightarrow> seq (block [file_close env f0, file_close env f1]) (ret None)
               | Some p \<Rightarrow>
                   seq (block [
                     set_file f0 (\<lambda>x. x\<lparr>f_type := FD_PIPE, f_readable := True, f_writable := False, f_pipe := Some p\<rparr>),
                     set_file f1 (\<lambda>x. x\<lparr>f_type := FD_PIPE, f_readable := False, f_writable := True, f_pipe := Some p\<rparr>)])
                   (ret (Some (f0, f1)))))))))"

definition file_stat :: "'z fenv \<Rightarrow> nat \<Rightarrow> ('z fs_scheme, file_stat option) kop" where
  "file_stat env f =
     bind (get_file f (\<lambda>x. x)) (\<lambda>x.
     if f_type x = FD_INODE then
       seq (inode_lock env (f_ip x))
       (bind (opt_bounds (f_ip x)) (\<lambda>ip.
        bind (inode_stat ip) (\<lambda>st.
        seq (inode_unlock (f_ip x)) (ret (Some st)))))
     else ret None)"

section \<open>The console\<close>

definition console_getc :: "'z fenv \<Rightarrow> ('z fs_scheme, u8) kop" where
  "console_getc env = iterate (\<lambda>_. bind cons_getc (\<lambda>c.
     if c = 0 then seq (block [intr_local_enable, yield_on env]) (ret (Inl ())) else ret (Inr c))) ()"

definition console_read :: "'z fenv \<Rightarrow> u8 list \<Rightarrow> u32 \<Rightarrow> ('z fs_scheme, u32 \<times> u8 list) kop" where
  "console_read env addr n = iterate (\<lambda>(i, addr).
     if i <s n then
       bind (console_getc env) (\<lambda>c.
       if c = 0x08 \<or> c = 0x7f then
         seq (when_true (0 <s i) (block [cons_putc 8, cons_putc 32, cons_putc 8]))
         (ret (Inl (if 0 <s i then i - 1 else i, addr)))
       else if c = 0x04 then ret (Inr (i, addr))
       else if c = 0x03 then seq (block [cons_putc 94, cons_putc 67, cons_putc 10]) (ret (Inr (0, addr)))
       else
         let c = if c = 13 then 10 else c in
         seq (cons_putc c)
         (seq (in_bounds (unat i < length addr))
         (let addr = addr[unat i := c] in
          if c = 10 then ret (Inr (i + 1, addr)) else ret (Inl (i + 1, addr)))))
     else ret (Inr (i, addr))) (0, addr)"

definition console_write :: "u8 list \<Rightarrow> u32 \<Rightarrow> ('z fs_scheme, u32) kop" where
  "console_write addr n = iterate (\<lambda>i.
     if i <s n then
       seq (in_bounds (unat i < length addr)) (seq (cons_putc (addr ! unat i)) (ret (Inl (i + 1))))
     else ret (Inr n)) 0"

definition console_init_fds :: "u32 \<Rightarrow> ('z fs_scheme, unit) kop" where
  "console_init_fds pid =
     (let attach = (\<lambda>fd ty r w. bind file_alloc (\<lambda>f. case f of None \<Rightarrow> ret ()
        | Some f \<Rightarrow> block [set_file f (\<lambda>x. x\<lparr>f_type := ty, f_readable := r, f_writable := w, f_ref := 1\<rparr>),
            tcb_set_openfiles pid fd (Some f)])) in
      block [attach 0 FD_CONSOLE_IN True False, attach 1 FD_CONSOLE_OUT False True, attach 2 FD_CONSOLE_OUT False True])"

section \<open>Reading and writing a file\<close>

definition file_read :: "'z fenv \<Rightarrow> nat \<Rightarrow> u8 list \<Rightarrow> u32 \<Rightarrow> ('z fs_scheme, u32 \<times> u8 list) kop" where
  "file_read env f addr n =
     bind (get_file f (\<lambda>x. x)) (\<lambda>x.
     if \<not> f_readable x then ret (-1, addr)
     else if f_type x = FD_PIPE then bind (opt_bounds (f_pipe x)) (\<lambda>p. pipe_read env p addr n)
     else if f_type x = FD_CONSOLE_IN then console_read env addr n
     else if f_type x = FD_INODE then
       seq (inode_lock env (f_ip x))
       (bind (opt_bounds (f_ip x)) (\<lambda>ip.
        bind (get_file f f_off) (\<lambda>off.
        bind (inode_read env ip off n) (\<lambda>(r, bs).
        seq (in_bounds (length bs \<le> length addr))
        (seq (block [when_true (0 <s r) (set_file f (\<lambda>x. x\<lparr>f_off := f_off x + r\<rparr>)), inode_unlock (Some ip)])
        (ret (r, put 0 bs addr)))))))
     else panic ''file_read'')"

definition file_write :: "'z fenv \<Rightarrow> nat \<Rightarrow> u8 list \<Rightarrow> u32 \<Rightarrow> ('z fs_scheme, u32) kop" where
  "file_write env f addr n =
     bind (get_file f (\<lambda>x. x)) (\<lambda>x.
     if \<not> f_writable x then ret (-1)
     else if f_type x = FD_PIPE then bind (opt_bounds (f_pipe x)) (\<lambda>p. pipe_write env p addr n)
     else if f_type x = FD_CONSOLE_OUT then console_write addr n
     else if f_type x = FD_INODE then
       let max_bytes = (LOGSIZE - 1 - 1 - 2) div 2 * 512 in
       bind (iterate (\<lambda>i.
         if i <s n then
           let n1 = if max_bytes <s n - i then max_bytes else n - i in
           seq (block [begin_trans env, inode_lock env (f_ip x)])
           (bind (opt_bounds (f_ip x)) (\<lambda>ip.
            bind (get_file f f_off) (\<lambda>off.
            bind (inode_write env ip (drop (unat i) addr) off n1) (\<lambda>r.
            seq (block [when_true (0 <s r) (set_file f (\<lambda>x. x\<lparr>f_off := f_off x + r\<rparr>)),
                        inode_unlock (Some ip), commit_trans env])
            (if r <s 0 then ret (Inr i)
             else if r \<noteq> n1 then panic ''short file_write''
             else ret (Inl (i + r)))))))
         else ret (Inr i)) 0) (\<lambda>i.
       ret (if i = n then n else -1))
     else panic ''file_write'')"

end
