(* ===== verification/Sysfile.thy ===== *)
theory Sysfile
  imports File Trap_Frame
begin

text \<open>
  The system calls on files (\<open>kern/fs/sysfile.c\<close>). A handler takes the trap frame and returns it
  updated.
\<close>

abbreviation (input) O_RDONLY :: u32 where "O_RDONLY \<equiv> 0x000"
abbreviation (input) O_WRONLY :: u32 where "O_WRONLY \<equiv> 0x001"
abbreviation (input) O_RDWR :: u32 where "O_RDWR \<equiv> 0x002"
abbreviation (input) O_CREATE :: u32 where "O_CREATE \<equiv> 0x200"

definition fail_with :: "tf_t \<Rightarrow> u32 \<Rightarrow> tf_t" where
  "fail_with tf e = syscall_set_retval1 (syscall_set_errno tf e) (-1)"

definition sys_buf_addr :: "u32 \<Rightarrow> ('z fs_scheme, u32) kop" where
  "sys_buf_addr pid = seq (in_bounds (pid < NUM_IDS)) (gets (\<lambda>s. sys_buf_at s + pid * 4096))"

definition fdalloc :: "nat \<Rightarrow> ('z fs_scheme, u32) kop" where
  "fdalloc f =
     bind get_curid (\<lambda>curid.
     bind (tcb_get_openfiles curid) (\<lambda>fds.
     case find (\<lambda>idx. fds idx = None) (map of_nat [0..<unat NOFILE]) of
       Some idx \<Rightarrow> seq (tcb_set_openfiles curid idx (Some f)) (ret idx)
     | None \<Rightarrow> ret (-1)))"

section \<open>Descriptors\<close>

definition sys_read :: "'z fenv \<Rightarrow> tf_t \<Rightarrow> ('z fs_scheme, tf_t) kop" where
  "sys_read env tf =
     bind get_curid (\<lambda>pid.
     let fd = syscall_get_arg2 tf; user_buf = syscall_get_arg3 tf; n = syscall_get_arg4 tf in
     if fd <s 0 \<or> NOFILE <=s fd then ret (fail_with tf E_BADF)
     else if user_buf < VM_USERLO \<or> VM_USERHI < user_buf + n \<or> 4096 < n then ret (fail_with tf E_INVAL_ADDR)
     else bind (tcb_get_openfiles pid) (\<lambda>fds.
       case fds fd of
         None \<Rightarrow> ret (fail_with tf E_BADF)
       | Some fp \<Rightarrow>
           bind (get_file fp (\<lambda>x. x)) (\<lambda>x.
           if f_type x = FD_INODE \<and> f_ip x = None then ret (fail_with tf E_BADF)
           else
             bind (sys_buf_addr pid) (\<lambda>kva.
             bind (gets (\<lambda>s. sys_buf s pid)) (\<lambda>buf.
             bind (file_read env fp buf n) (\<lambda>(size_read, buf).
             seq (modify (\<lambda>s. s\<lparr>sys_buf := (sys_buf s)(pid := buf)\<rparr>))
             (seq (if 0 <s size_read then seq (pt_copyout buf kva pid user_buf size_read) (ret ()) else ret ())
             (ret (syscall_set_errno (syscall_set_retval1 tf size_read) E_SUCC)))))))))"

definition sys_write :: "'z fenv \<Rightarrow> tf_t \<Rightarrow> ('z fs_scheme, tf_t) kop" where
  "sys_write env tf =
     bind get_curid (\<lambda>pid.
     let fd = syscall_get_arg2 tf; user_buf = syscall_get_arg3 tf; n = syscall_get_arg4 tf in
     if fd <s 0 \<or> NOFILE <=s fd then ret (fail_with tf E_BADF)
     else if user_buf < VM_USERLO \<or> VM_USERHI < user_buf + n \<or> 4096 < n then ret (fail_with tf E_INVAL_ADDR)
     else bind (tcb_get_openfiles pid) (\<lambda>fds.
       case fds fd of
         None \<Rightarrow> ret (fail_with tf E_BADF)
       | Some fp \<Rightarrow>
           bind (get_file fp (\<lambda>x. x)) (\<lambda>x.
           if f_type x = FD_INODE \<and> f_ip x = None then ret (fail_with tf E_BADF)
           else
             bind (sys_buf_addr pid) (\<lambda>kva.
             bind (pt_copyin pid user_buf kva n) (\<lambda>(copied, bs).
             seq (modify (\<lambda>s. s\<lparr>sys_buf := (sys_buf s)(pid := put 0 bs (sys_buf s pid))\<rparr>))
             (bind (gets (\<lambda>s. sys_buf s pid)) (\<lambda>buf.
              bind (file_write env fp buf n) (\<lambda>size_write.
              ret (syscall_set_errno (syscall_set_retval1 tf size_write) E_SUCC))))))))) "

definition sys_pipe :: "'z fenv \<Rightarrow> tf_t \<Rightarrow> ('z fs_scheme, tf_t) kop" where
  "sys_pipe env tf =
     bind get_curid (\<lambda>pid.
     let user_fds_addr = syscall_get_arg2 tf in
     if user_fds_addr < VM_USERLO \<or> VM_USERHI < user_fds_addr + 8 then ret (fail_with tf E_INVAL_ADDR)
     else bind (pipe_alloc env) (\<lambda>r.
       case r of
         None \<Rightarrow> ret (fail_with tf E_BADF)
       | Some (rdf, wrf) \<Rightarrow>
           bind (fdalloc rdf) (\<lambda>fd0.
           if fd0 <s 0 then seq (block [file_close env rdf, file_close env wrf]) (ret (fail_with tf E_BADF))
           else bind (fdalloc wrf) (\<lambda>fd1.
             if fd1 <s 0 then
               seq (block [tcb_set_openfiles pid fd0 None, file_close env rdf, file_close env wrf]) (ret (fail_with tf E_BADF))
             else
               bind (gets kstack_at) (\<lambda>kva.
               bind (pt_copyout (bytes32 fd0 @ bytes32 fd1) kva pid user_fds_addr 8) (\<lambda>_.
               ret (syscall_set_retval1 (syscall_set_errno tf E_SUCC) 0)))))))"

definition sys_close :: "'z fenv \<Rightarrow> tf_t \<Rightarrow> ('z fs_scheme, tf_t) kop" where
  "sys_close env tf =
     bind get_curid (\<lambda>pid.
     let fd = syscall_get_arg2 tf in
     if NOFILE \<le> fd then ret (fail_with tf E_BADF)
     else bind (tcb_get_openfiles pid) (\<lambda>fds.
       case fds fd of
         None \<Rightarrow> ret (fail_with tf E_BADF)
       | Some fp \<Rightarrow>
           seq (block [file_close env fp, tcb_set_openfiles pid fd None])
           (ret (syscall_set_errno (syscall_set_retval1 tf 0) E_SUCC))))"

text \<open>The status is copied from the user's buffer and never copied back.\<close>

definition sys_fstat :: "'z fenv \<Rightarrow> tf_t \<Rightarrow> ('z fs_scheme, tf_t) kop" where
  "sys_fstat env tf =
     (let fd = syscall_get_arg2 tf; user_stp = syscall_get_arg3 tf in
      if fd <s 0 \<or> NOFILE <=s fd \<or> user_stp < VM_USERLO \<or> VM_USERHI < user_stp + 20 then ret (fail_with tf E_BADF)
      else
        bind get_curid (\<lambda>pid.
        bind (tcb_get_openfiles pid) (\<lambda>fds.
        case fds fd of
          None \<Rightarrow> ret (fail_with tf E_BADF)
        | Some fp \<Rightarrow>
            bind (gets kstack_at) (\<lambda>kva.
            bind (pt_copyin pid user_stp kva 20) (\<lambda>_.
            bind (file_stat env fp) (\<lambda>st.
            ret (case st of
                   Some _ \<Rightarrow> syscall_set_errno (syscall_set_retval1 tf 0) E_SUCC
                 | None \<Rightarrow> syscall_set_errno (syscall_set_retval1 tf (-1)) E_BADF)))))))"

section \<open>Names\<close>

text \<open>A path of at most 127 bytes copied from the user into a local buffer.\<close>

definition fetch_path :: "u32 \<Rightarrow> u32 \<Rightarrow> ('z fs_scheme, u8 list) kop" where
  "fetch_path user_path path_len =
     (let path_len = if path_len < 128 then path_len else 127 in
      bind get_curid (\<lambda>pid.
      bind (gets kstack_at) (\<lambda>kva.
      bind (pt_copyin pid user_path kva path_len) (\<lambda>(copied, bs).
      bind (gets kstack_bytes) (\<lambda>junk.
      ret (put (unat path_len) [0] (put 0 bs (map junk [0..<128]))))))))"

definition sys_link :: "'z fenv \<Rightarrow> tf_t \<Rightarrow> ('z fs_scheme, tf_t) kop" where
  "sys_link env tf =
     bind (fetch_path (syscall_get_arg2 tf) (syscall_get_arg4 tf)) (\<lambda>old.
     bind (fetch_path (syscall_get_arg3 tf) (syscall_get_arg5 tf)) (\<lambda>new.
     bind (namei env old) (\<lambda>r.
     case r of
       None \<Rightarrow> ret (syscall_set_errno tf E_NEXIST)
     | Some ip \<Rightarrow>
         let bad = seq (block [inode_lock env (Some ip), set_inode ip (\<lambda>x. x\<lparr>i_nlink := i_nlink x - 1\<rparr>),
                               inode_update env ip, inode_unlockput env ip, commit_trans env])
                   (ret (syscall_set_errno tf E_DISK_OP)) in
         seq (block [begin_trans env, inode_lock env (Some ip)])
         (bind (get_inode ip i_type) (\<lambda>ty.
          if ty = T_DIR then
            seq (block [inode_unlockput env ip, commit_trans env]) (ret (syscall_set_errno tf E_DISK_OP))
          else
            seq (block [set_inode ip (\<lambda>x. x\<lparr>i_nlink := i_nlink x + 1\<rparr>), inode_update env ip, inode_unlock (Some ip)])
            (bind (nameiparent env new) (\<lambda>r.
             case r of
               None \<Rightarrow> bad
             | Some (dp, name) \<Rightarrow>
                 seq (inode_lock env (Some dp))
                 (bind (get_inode dp i_dev) (\<lambda>ddev.
                  bind (get_inode ip (\<lambda>x. x)) (\<lambda>x.
                  bind (if ddev \<noteq> i_dev x then ret (-1) else dir_link env dp name (i_inum x)) (\<lambda>r.
                  if r <s 0 then seq (inode_unlockput env dp) bad
                  else seq (block [inode_unlockput env dp, inode_put env ip, commit_trans env])
                         (ret (syscall_set_errno tf E_SUCC)))))))))))))"

definition isdirempty :: "'z fenv \<Rightarrow> nat \<Rightarrow> ('z fs_scheme, bool) kop" where
  "isdirempty env dp = iterate (\<lambda>off. bind (get_inode dp i_size) (\<lambda>sz.
     if off < sz then
       bind (inode_read env dp off 16) (\<lambda>(r, de).
       if r \<noteq> 16 then panic ''isdirempty: readi''
       else if get16 de 0 \<noteq> 0 then ret (Inr False) else ret (Inl (off + 16)))
     else ret (Inr True))) 32"

definition sys_unlink :: "'z fenv \<Rightarrow> tf_t \<Rightarrow> ('z fs_scheme, tf_t) kop" where
  "sys_unlink env tf =
     bind (fetch_path (syscall_get_arg2 tf) (syscall_get_arg3 tf)) (\<lambda>path.
     bind (nameiparent env path) (\<lambda>r.
     case r of
       None \<Rightarrow> ret (syscall_set_errno tf E_DISK_OP)
     | Some (dp, name) \<Rightarrow>
         let bad = seq (block [inode_unlockput env dp, commit_trans env]) (ret (syscall_set_errno tf E_DISK_OP)) in
         seq (block [begin_trans env, inode_lock env (Some dp)])
         (bind (opt_bounds (dir_namecmp name [46, 0])) (\<lambda>c1.
          bind (opt_bounds (dir_namecmp name [46, 46, 0])) (\<lambda>c2.
          if c1 = 0 \<or> c2 = 0 then bad
          else bind (dir_lookup env dp name) (\<lambda>r.
            case r of
              None \<Rightarrow> bad
            | Some (ip, off) \<Rightarrow>
                seq (inode_lock env (Some ip))
                (bind (get_inode ip (\<lambda>x. x)) (\<lambda>x.
                 if i_nlink x <s 1 then panic ''unlink: nlink < 1''
                 else bind (if i_type x = T_DIR then isdirempty env ip else ret True) (\<lambda>empty.
                   if \<not> empty then seq (inode_unlockput env ip) bad
                   else bind (inode_write env dp (replicate 16 0) off 16) (\<lambda>r.
                     if r \<noteq> 16 then panic ''unlink: writei''
                     else bind (get_inode ip i_type) (\<lambda>ty.
                       seq (block [
                         when_true (ty = T_DIR)
                           (block [set_inode dp (\<lambda>x. x\<lparr>i_nlink := i_nlink x - 1\<rparr>), inode_update env dp]),
                         inode_unlockput env dp,
                         set_inode ip (\<lambda>x. x\<lparr>i_nlink := i_nlink x - 1\<rparr>),
                         inode_update env ip,
                         inode_unlockput env ip,
                         commit_trans env])
                       (ret (syscall_set_errno tf E_SUCC)))))))))))))"

definition create :: "'z fenv \<Rightarrow> u8 list \<Rightarrow> u16 \<Rightarrow> u16 \<Rightarrow> u16 \<Rightarrow> ('z fs_scheme, nat option) kop" where
  "create env path type major minor =
     bind (nameiparent env path) (\<lambda>r.
     case r of
       None \<Rightarrow> ret None
     | Some (dp, name) \<Rightarrow>
         seq (inode_lock env (Some dp))
         (bind (dir_lookup env dp name) (\<lambda>r.
          case r of
            Some (ip, _) \<Rightarrow>
              seq (block [inode_unlockput env dp, inode_lock env (Some ip)])
              (bind (get_inode ip i_type) (\<lambda>ty.
               if type = T_FILE \<and> ty = T_FILE then ret (Some ip)
               else seq (inode_unlockput env ip) (ret None)))
          | None \<Rightarrow>
              bind (get_inode dp i_dev) (\<lambda>dev.
              bind (inode_alloc env dev type) (\<lambda>ip.
              seq (block [inode_lock env (Some ip),
                set_inode ip (\<lambda>x. x\<lparr>i_major := major, i_minor := minor, i_nlink := 1\<rparr>), inode_update env ip])
              (bind (get_inode ip i_inum) (\<lambda>inum.
               seq (when_true (type = T_DIR)
                 (seq (block [set_inode dp (\<lambda>x. x\<lparr>i_nlink := i_nlink x + 1\<rparr>), inode_update env dp])
                 (bind (dir_link env ip [46, 0] inum) (\<lambda>r1.
                  if r1 <s 0 then panic ''create dots''
                  else bind (get_inode dp i_inum) (\<lambda>dnum. bind (dir_link env ip [46, 46, 0] dnum) (\<lambda>r2.
                    when_true (r2 <s 0) (panic ''create dots'')))))))
               (bind (dir_link env dp name inum) (\<lambda>r.
                if r <s 0 then panic ''create: dir_link''
                else seq (inode_unlockput env dp) (ret (Some ip)))))))))))"

definition sys_open :: "'z fenv \<Rightarrow> tf_t \<Rightarrow> ('z fs_scheme, tf_t) kop" where
  "sys_open env tf =
     bind (gets open_first) (\<lambda>first.
     seq (when_true first (block [modify (\<lambda>s. s\<lparr>open_first := False\<rparr>), log_init env]))
     (bind (fetch_path (syscall_get_arg2 tf) (syscall_get_arg4 tf)) (\<lambda>path.
      let omode = syscall_get_arg3 tf in
      bind (if omode AND O_CREATE \<noteq> 0 then
              seq (begin_trans env)
              (bind (create env path T_FILE 0 0) (\<lambda>ip.
               seq (commit_trans env)
               (ret (case ip of None \<Rightarrow> Inl (fail_with tf E_CREATE) | Some ip \<Rightarrow> Inr ip))))
            else bind (namei env path) (\<lambda>r.
              case r of
                None \<Rightarrow> ret (Inl (fail_with tf E_NEXIST))
              | Some ip \<Rightarrow>
                  seq (inode_lock env (Some ip))
                  (bind (get_inode ip i_type) (\<lambda>ty.
                   if ty = T_DIR \<and> omode \<noteq> O_RDONLY
                   then seq (inode_unlockput env ip) (ret (Inl (fail_with tf E_DISK_OP)))
                   else ret (Inr ip))))) (\<lambda>r.
      case r of
        Inl tf \<Rightarrow> ret tf
      | Inr ip \<Rightarrow>
          bind file_alloc (\<lambda>f.
          case f of
            None \<Rightarrow> seq (inode_unlockput env ip) (ret (fail_with tf E_DISK_OP))
          | Some f \<Rightarrow>
              bind (fdalloc f) (\<lambda>fd.
              if fd <s 0 then seq (block [file_close env f, inode_unlockput env ip]) (ret (fail_with tf E_DISK_OP))
              else
                seq (block [inode_unlock (Some ip),
                  set_file f (\<lambda>x. x\<lparr>f_type := FD_INODE, f_ip := Some ip, f_off := 0, f_readable := omode AND O_WRONLY = 0,
                    f_writable := omode AND O_WRONLY \<noteq> 0 \<or> omode AND O_RDWR \<noteq> 0\<rparr>)])
                (ret (syscall_set_errno (syscall_set_retval1 tf fd) E_SUCC))))))))"

definition sys_mkdir :: "'z fenv \<Rightarrow> tf_t \<Rightarrow> ('z fs_scheme, tf_t) kop" where
  "sys_mkdir env tf =
     bind (fetch_path (syscall_get_arg2 tf) (syscall_get_arg3 tf)) (\<lambda>path.
     seq (begin_trans env)
     (bind (create env path T_DIR 0 0) (\<lambda>r.
      case r of
        None \<Rightarrow> seq (commit_trans env) (ret (syscall_set_errno tf E_DISK_OP))
      | Some ip \<Rightarrow> seq (block [inode_unlockput env ip, commit_trans env]) (ret (syscall_set_errno tf E_SUCC)))))"

definition sys_chdir :: "'z fenv \<Rightarrow> tf_t \<Rightarrow> ('z fs_scheme, tf_t) kop" where
  "sys_chdir env tf =
     bind get_curid (\<lambda>pid.
     bind (fetch_path (syscall_get_arg2 tf) (syscall_get_arg3 tf)) (\<lambda>path.
     bind (namei env path) (\<lambda>r.
     case r of
       None \<Rightarrow> ret (syscall_set_errno tf E_DISK_OP)
     | Some ip \<Rightarrow>
         seq (inode_lock env (Some ip))
         (bind (get_inode ip i_type) (\<lambda>ty.
          if ty \<noteq> T_DIR then seq (inode_unlockput env ip) (ret (syscall_set_errno tf E_DISK_OP))
          else
            seq (inode_unlock (Some ip))
            (bind (tcb_get_cwd pid) (\<lambda>cwd.
             bind (opt_bounds cwd) (\<lambda>cwd.
             seq (block [inode_put env cwd, tcb_set_cwd pid (Some ip)]) (ret (syscall_set_errno tf E_SUCC))))))))))"

end
