(* ===== verification/Interrupts.thy ===== *)
theory Interrupts
  imports Sysfile
begin

text \<open>
  What an interrupt goes through before the kernel's own handlers: the local APIC
  (\<open>kern/dev/lapic.c\<close>), the interrupt descriptor table (\<open>kern/dev/intr.c\<close>) and the segment
  descriptors and task state of the kernel stacks (\<open>kern/lib/seg.c\<close>).

  The registers of the local APIC are memory mapped: \<open>lapic_out\<close> is what has been written, the latest
  first, \<open>lapic_in\<close> the values the device is going to answer. A \<open>struct kstack\<close> is known by its
  address. The addresses of assembler entry points are \<open>symbol\<close>.
\<close>

section \<open>State\<close>

text \<open>The bit fields of a segment descriptor and of a gate, and the fields of a task state without padding.\<close>

record segdesc =
  sd_lim_15_0 :: u16
  sd_base_15_0 :: u16
  sd_base_23_16 :: u8
  sd_type :: "4 word"
  sd_s :: "1 word"
  sd_dpl :: "2 word"
  sd_p :: "1 word"
  sd_lim_19_16 :: "4 word"
  sd_avl :: "1 word"
  sd_rsv1 :: "1 word"
  sd_db :: "1 word"
  sd_g :: "1 word"
  sd_base_31_24 :: u8

record gatedesc =
  gd_off_15_0 :: u16
  gd_ss :: u16
  gd_args :: "5 word"
  gd_rsv1 :: "3 word"
  gd_type :: "4 word"
  gd_s :: "1 word"
  gd_dpl :: "2 word"
  gd_p :: "1 word"
  gd_off_31_16 :: u16

record tss_t =
  ts_link :: u32
  ts_esp0 :: u32
  ts_ss0 :: u16
  ts_esp1 :: u32
  ts_ss1 :: u16
  ts_esp2 :: u32
  ts_ss2 :: u16
  ts_cr3 :: u32
  ts_eip :: u32
  ts_eflags :: u32
  ts_eax :: u32
  ts_ecx :: u32
  ts_edx :: u32
  ts_ebx :: u32
  ts_esp :: u32
  ts_ebp :: u32
  ts_esi :: u32
  ts_edi :: u32
  ts_es :: u16
  ts_cs :: u16
  ts_ss :: u16
  ts_ds :: u16
  ts_fs :: u16
  ts_gs :: u16
  ts_ldt :: u16
  ts_trap :: u16
  ts_iomb :: u16
  ts_iopm :: "u8 list"

record kstack =
  ks_gdt :: "nat \<Rightarrow> segdesc"
  ks_tss :: tss_t
  ks_cpu_idx :: u32
  ks_magic :: u32

datatype trap_cb = Exception_handler | Syscall_dispatch | Interrupt_handler

record intr = fs +
  lapic :: u32
  lapic_out :: "(u32 \<times> u32) list"
  lapic_in :: "u32 \<Rightarrow> nat \<Rightarrow> u32"
  has_apic :: bool
  on_boot_cpu :: bool
  idt :: "u32 \<Rightarrow> gatedesc"
  intr_inited :: bool
  symbol :: "string \<Rightarrow> u32"
  kstacks :: "u32 \<Rightarrow> kstack"
  bsp_kstack_at :: u32
  gdtr :: u32
  task_reg :: u16
  TRAP_HANDLER :: "u32 \<Rightarrow> u32 \<Rightarrow> trap_cb option"
  trap_inited :: bool
  cr2 :: u32
  uctx_pool :: "u32 \<Rightarrow> tf_t"
  elf_image :: "string \<Rightarrow> u32"

type_synonym 'z ienv = "'z intr_scheme \<Rightarrow> 'z intr_scheme"

section \<open>lapic.c\<close>

abbreviation (input) LAPIC_ID :: u32 where "LAPIC_ID \<equiv> 0x20 div 4"
abbreviation (input) LAPIC_VER :: u32 where "LAPIC_VER \<equiv> 0x30 div 4"
abbreviation (input) LAPIC_TPR :: u32 where "LAPIC_TPR \<equiv> 0x80 div 4"
abbreviation (input) LAPIC_EOI :: u32 where "LAPIC_EOI \<equiv> 0xB0 div 4"
abbreviation (input) LAPIC_LDR :: u32 where "LAPIC_LDR \<equiv> 0xD0 div 4"
abbreviation (input) LAPIC_DFR :: u32 where "LAPIC_DFR \<equiv> 0xE0 div 4"
abbreviation (input) LAPIC_SVR :: u32 where "LAPIC_SVR \<equiv> 0xF0 div 4"
abbreviation (input) LAPIC_ESR :: u32 where "LAPIC_ESR \<equiv> 0x280 div 4"
abbreviation (input) LAPIC_ICRLO :: u32 where "LAPIC_ICRLO \<equiv> 0x300 div 4"
abbreviation (input) LAPIC_ICRHI :: u32 where "LAPIC_ICRHI \<equiv> 0x310 div 4"
abbreviation (input) LAPIC_TIMER :: u32 where "LAPIC_TIMER \<equiv> 0x320 div 4"
abbreviation (input) LAPIC_PCINT :: u32 where "LAPIC_PCINT \<equiv> 0x340 div 4"
abbreviation (input) LAPIC_LINT0 :: u32 where "LAPIC_LINT0 \<equiv> 0x350 div 4"
abbreviation (input) LAPIC_LINT1 :: u32 where "LAPIC_LINT1 \<equiv> 0x360 div 4"
abbreviation (input) LAPIC_ERROR :: u32 where "LAPIC_ERROR \<equiv> 0x370 div 4"
abbreviation (input) LAPIC_TICR :: u32 where "LAPIC_TICR \<equiv> 0x380 div 4"
abbreviation (input) LAPIC_TCCR :: u32 where "LAPIC_TCCR \<equiv> 0x390 div 4"
abbreviation (input) LAPIC_TDCR :: u32 where "LAPIC_TDCR \<equiv> 0x3E0 div 4"
abbreviation (input) LAPIC_ICRLO_INIT :: u32 where "LAPIC_ICRLO_INIT \<equiv> 0x500"
abbreviation (input) LAPIC_ICRLO_STARTUP :: u32 where "LAPIC_ICRLO_STARTUP \<equiv> 0x600"
abbreviation (input) LAPIC_ICRLO_DELIVS :: u32 where "LAPIC_ICRLO_DELIVS \<equiv> 0x1000"
abbreviation (input) LAPIC_ICRLO_ASSERT :: u32 where "LAPIC_ICRLO_ASSERT \<equiv> 0x4000"
abbreviation (input) LAPIC_ICRLO_LEVEL :: u32 where "LAPIC_ICRLO_LEVEL \<equiv> 0x8000"
abbreviation (input) LAPIC_ICRLO_NOBCAST :: u32 where "LAPIC_ICRLO_NOBCAST \<equiv> 0"
abbreviation (input) LAPIC_ICRLO_BCAST :: u32 where "LAPIC_ICRLO_BCAST \<equiv> 0x80000"

definition lapic_read :: "u32 \<Rightarrow> ('z intr_scheme, u32) kop" where
  "lapic_read index = bind (gets (\<lambda>s. lapic_in s index 0)) (\<lambda>v.
     seq (modify (\<lambda>s. s\<lparr>lapic_in := (lapic_in s)(index := \<lambda>n. lapic_in s index (Suc n))\<rparr>)) (ret v))"

definition lapic_write :: "u32 \<Rightarrow> u32 \<Rightarrow> ('z intr_scheme, unit) kop" where
  "lapic_write index v = seq (modify (\<lambda>s. s\<lparr>lapic_out := (index, v) # lapic_out s\<rparr>)) (seq (lapic_read LAPIC_ID) (ret ()))"

definition lapic_register :: "u32 \<Rightarrow> ('z intr_scheme, unit) kop" where
  "lapic_register lapic_addr = modify (\<lambda>s. s\<lparr>lapic := lapic_addr\<rparr>)"

definition lapic_calibrate_timer :: "u32 \<Rightarrow> u32 \<Rightarrow> u32 \<Rightarrow> ('z intr_scheme, u32) kop" where
  "lapic_calibrate_timer latch ms loopmin =
     seq (lapic_write LAPIC_TICR (NOT 0))
     (bind (inb 0x61) (\<lambda>v.
      seq (block [outb 0x61 (v AND NOT 2 OR 1), outb 0x43 0xb0, outb 0x42 (ucast (latch AND 0xff)),
                  outb 0x42 (ucast (drop_bit 8 latch))])
      (bind (lapic_read LAPIC_TCCR) (\<lambda>timer1.
       bind (iterate (\<lambda>(timer, timer2, pitcnt, timermax, timermin).
         bind (inb 0x61) (\<lambda>v.
         if v AND 0x20 = 0 then
           bind (lapic_read LAPIC_TCCR) (\<lambda>timer2.
           let delta = timer - timer2 in
           ret (Inl (timer2, timer2, pitcnt + 1 :: u32, if timermax < delta then delta else timermax,
                     if delta < timermin then delta else timermin)))
         else ret (Inr (timer2, pitcnt, timermax, timermin)))) (timer1, timer1, 0, 0, NOT 0)) (\<lambda>(timer2, pitcnt, timermax, timermin).
       if pitcnt <s loopmin \<or> 10 * timermin < timermax then ret (NOT 0)
       else if ms = 0 then stop_with DivideByZero
       else ret ((timer1 - timer2) div ms))))))"

definition lapic_calibrate :: "('z intr_scheme, u32) kop" where
  "lapic_calibrate = iterate (\<lambda>(i, t). if i <s (5 :: u32)
     then bind (lapic_calibrate_timer (1193182 div (1000 div 10)) 10 1000) (\<lambda>t.
       if t \<noteq> NOT 0 then ret (Inr t) else ret (Inl (i + 1, t)))
     else ret (Inr t)) (0, NOT 0)"

definition lapic_init :: "('z intr_scheme, unit) kop" where
  "lapic_init =
     bind (gets lapic) (\<lambda>base.
     if base = 0 then panic ''NO LAPIC''
     else
       seq (block [lapic_write LAPIC_SVR (0x100 OR (32 + 7)), lapic_write LAPIC_TDCR 0xB,
                   lapic_write LAPIC_TIMER (0x20000 OR (32 + 0))])
       (bind lapic_calibrate (\<lambda>t.
        let lapic_ticks_per_ms = if t = NOT 0 then 500000 else t in
        seq (block [lapic_write LAPIC_TICR (lapic_ticks_per_ms * 1000 div 1000),
                    lapic_write LAPIC_LINT0 0x10000, lapic_write LAPIC_LINT1 0x10000])
        (bind (lapic_read LAPIC_VER) (\<lambda>ver.
         block [when_true (4 \<le> drop_bit 16 ver AND 0xFF) (lapic_write LAPIC_PCINT 0x10000),
           lapic_write LAPIC_DFR 0xF0000000, lapic_write LAPIC_LDR 0, lapic_write LAPIC_ERROR 50,
           lapic_write LAPIC_ESR 0, lapic_write LAPIC_ESR 0, lapic_write LAPIC_EOI 0,
           lapic_write LAPIC_ICRHI 0,
           lapic_write LAPIC_ICRLO (LAPIC_ICRLO_BCAST OR LAPIC_ICRLO_INIT OR LAPIC_ICRLO_LEVEL),
           iterate (\<lambda>_. bind (lapic_read LAPIC_ICRLO) (\<lambda>v.
             if v AND LAPIC_ICRLO_DELIVS \<noteq> 0 then ret (Inl ()) else ret (Inr ()))) (),
           lapic_write LAPIC_TPR 0])))))"

definition lapic_eoi :: "('z intr_scheme, unit) kop" where
  "lapic_eoi = bind (gets lapic) (\<lambda>base. when_true (base \<noteq> 0) (lapic_write LAPIC_EOI 0))"

definition lapic_startcpu :: "u8 \<Rightarrow> u32 \<Rightarrow> ('z intr_scheme, unit) kop" where
  "lapic_startcpu apicid addr =
     (let dst = push_bit 24 (ucast apicid) in
      block [outb 0x70 0xF, outb 0x71 0x0A,
        modify (\<lambda>s. s\<lparr>mem8 := (mem8 s)(0x467 := 0, 0x468 := 0, 0x469 := ucast (drop_bit 4 addr), 0x46A := ucast (drop_bit 12 addr))\<rparr>),
        lapic_write LAPIC_ICRHI dst,
        lapic_write LAPIC_ICRLO (LAPIC_ICRLO_INIT OR LAPIC_ICRLO_LEVEL OR LAPIC_ICRLO_ASSERT),
        lapic_write LAPIC_ICRLO (LAPIC_ICRLO_INIT OR LAPIC_ICRLO_LEVEL),
        for_loop 0 2 (\<lambda>_. block [lapic_write LAPIC_ICRHI dst,
          lapic_write LAPIC_ICRLO (LAPIC_ICRLO_STARTUP OR drop_bit 12 addr)])])"

definition lapic_send_ipi :: "u8 \<Rightarrow> u8 \<Rightarrow> u32 \<Rightarrow> u32 \<Rightarrow> ('z intr_scheme, unit) kop" where
  "lapic_send_ipi apicid vector deliver_mode shorthand_mode =
     (if deliver_mode = LAPIC_ICRLO_INIT \<or> deliver_mode = LAPIC_ICRLO_STARTUP
      then panic ''deliver_mode != LAPIC_ICRLO_INIT && deliver_mode != LAPIC_ICRLO_STARTUP''
      else if vector < 63 then panic ''vector >= T_IPI0''
      else block [
        iterate (\<lambda>_. bind (lapic_read LAPIC_ICRLO) (\<lambda>v.
          if v AND LAPIC_ICRLO_DELIVS \<noteq> 0 then ret (Inl ()) else ret (Inr ()))) (),
        when_true (shorthand_mode = LAPIC_ICRLO_NOBCAST)
          (lapic_write LAPIC_ICRHI (push_bit 24 (ucast apicid) AND 0xFF000000)),
        lapic_write LAPIC_ICRLO (shorthand_mode OR deliver_mode OR (ucast vector AND 0xFF))])"

section \<open>intr.c\<close>

abbreviation (input) CPU_GDT_KCODE :: u16 where "CPU_GDT_KCODE \<equiv> 0x08"
abbreviation (input) CPU_GDT_KDATA :: u16 where "CPU_GDT_KDATA \<equiv> 0x10"
abbreviation (input) CPU_GDT_UCODE :: u16 where "CPU_GDT_UCODE \<equiv> 0x18"
abbreviation (input) CPU_GDT_UDATA :: u16 where "CPU_GDT_UDATA \<equiv> 0x20"
abbreviation (input) CPU_GDT_TSS :: u16 where "CPU_GDT_TSS \<equiv> 0x28"
abbreviation (input) STS_IG32 :: "4 word" where "STS_IG32 \<equiv> 0xE"
abbreviation (input) STS_TG32 :: "4 word" where "STS_TG32 \<equiv> 0xF"
abbreviation (input) STS_T32A :: "4 word" where "STS_T32A \<equiv> 0x9"

definition SETGATE :: "bool \<Rightarrow> u16 \<Rightarrow> u32 \<Rightarrow> 2 word \<Rightarrow> gatedesc" where
  "SETGATE istrap sel off dpl =
     \<lparr>gd_off_15_0 = ucast (off AND 0xffff), gd_ss = sel, gd_args = 0, gd_rsv1 = 0,
      gd_type = (if istrap then STS_TG32 else STS_IG32), gd_s = 0, gd_dpl = dpl, gd_p = 1,
      gd_off_31_16 = ucast (drop_bit 16 off)\<rparr>"

definition setgate :: "u32 \<times> string \<times> 2 word \<Rightarrow> ('z intr_scheme, unit) kop" where
  "setgate g = (case g of (i, handler, dpl) \<Rightarrow>
     modify (\<lambda>s. s\<lparr>idt := (idt s)(i := SETGATE False CPU_GDT_KCODE (symbol s handler) dpl)\<rparr>))"

text \<open>Exceptions, hardware interrupts from 32 on, and the system call gate.\<close>

definition gates :: "(u32 \<times> string \<times> 2 word) list" where
  "gates = [(0, ''Xdivide'', 0), (1, ''Xdebug'', 0), (2, ''Xnmi'', 0), (3, ''Xbrkpt'', 3), (4, ''Xoflow'', 3),
     (5, ''Xbound'', 0), (6, ''Xillop'', 0), (7, ''Xdevice'', 0), (8, ''Xdblflt'', 0), (10, ''Xtss'', 0),
     (11, ''Xsegnp'', 0), (12, ''Xstack'', 0), (13, ''Xgpflt'', 0), (14, ''Xpgflt'', 0), (16, ''Xfperr'', 0),
     (17, ''Xalign'', 0), (18, ''Xmchk'', 0),
     (32 + 0, ''Xirq_timer'', 0), (32 + 1, ''Xirq_kbd'', 0), (32 + 2, ''Xirq_slave'', 0), (32 + 3, ''Xirq_serial2'', 0),
     (32 + 4, ''Xirq_serial1'', 0), (32 + 5, ''Xirq_lpt'', 0), (32 + 6, ''Xirq_floppy'', 0), (32 + 7, ''Xirq_spurious'', 0),
     (32 + 8, ''Xirq_rtc'', 0), (32 + 9, ''Xirq9'', 0), (32 + 10, ''Xirq10'', 0), (32 + 11, ''Xirq11'', 0),
     (32 + 12, ''Xirq_mouse'', 0), (32 + 13, ''Xirq_coproc'', 0), (32 + 14, ''Xirq_ide1'', 0), (32 + 15, ''Xirq_ide2'', 0),
     (48, ''Xsyscall'', 3), (254, ''Xdefault'', 0)]"

definition intr_init_idt :: "('z intr_scheme, unit) kop" where
  "intr_init_idt = block [for_loop 0 256 (\<lambda>i. setgate (i, ''Xdefault'', 0)), block (map setgate gates)]"

definition intr_init :: "('z intr_scheme, unit) kop" where
  "intr_init =
     seq pic_init
     (seq (modify (\<lambda>s. s\<lparr>using_apic := has_apic s\<rparr>))
     (bind (gets using_apic) (\<lambda>apic.
      if \<not> apic then panic ''using_apic == TRUE''
      else bind (gets on_boot_cpu) (\<lambda>boot.
        block [when_true boot ioapic_init, lapic_init, intr_init_idt, modify (\<lambda>s. s\<lparr>intr_inited := True\<rparr>)]))))"

definition intr_eoi :: "('z intr_scheme, unit) kop" where
  "intr_eoi = bind (gets using_apic) (\<lambda>apic. if apic then lapic_eoi else pic_eoi)"

section \<open>seg.c\<close>

definition SEGDESC_NULL :: segdesc where
  "SEGDESC_NULL = \<lparr>sd_lim_15_0 = 0, sd_base_15_0 = 0, sd_base_23_16 = 0, sd_type = 0, sd_s = 0, sd_dpl = 0, sd_p = 0,
     sd_lim_19_16 = 0, sd_avl = 0, sd_rsv1 = 0, sd_db = 0, sd_g = 0, sd_base_31_24 = 0\<rparr>"

definition SEGDESC32 :: "4 word \<Rightarrow> u32 \<Rightarrow> u32 \<Rightarrow> 2 word \<Rightarrow> segdesc" where
  "SEGDESC32 type base lim dpl =
     \<lparr>sd_lim_15_0 = ucast (drop_bit 12 lim AND 0xffff), sd_base_15_0 = ucast (base AND 0xffff),
      sd_base_23_16 = ucast (drop_bit 16 base AND 0xff), sd_type = type, sd_s = 1, sd_dpl = dpl, sd_p = 1,
      sd_lim_19_16 = ucast (drop_bit 28 lim), sd_avl = 0, sd_rsv1 = 0, sd_db = 1, sd_g = 1,
      sd_base_31_24 = ucast (drop_bit 24 base)\<rparr>"

definition SEGDESC16 :: "4 word \<Rightarrow> u32 \<Rightarrow> u32 \<Rightarrow> 2 word \<Rightarrow> segdesc" where
  "SEGDESC16 type base lim dpl =
     \<lparr>sd_lim_15_0 = ucast (lim AND 0xffff), sd_base_15_0 = ucast (base AND 0xffff),
      sd_base_23_16 = ucast (drop_bit 16 base AND 0xff), sd_type = type, sd_s = 1, sd_dpl = dpl, sd_p = 1,
      sd_lim_19_16 = ucast (drop_bit 16 lim), sd_avl = 0, sd_rsv1 = 0, sd_db = 1, sd_g = 0,
      sd_base_31_24 = ucast (drop_bit 24 base)\<rparr>"

text \<open>
  A \<open>struct kstack\<close> fills a page: its stack top is 4096 above its address. The task state follows the six
  descriptors; it is 233 bytes long with padding to 236, the bitmap of ports at offset 104.
\<close>

definition tss_desc :: "u32 \<Rightarrow> segdesc" where
  "tss_desc ks = (SEGDESC16 STS_T32A (ks + 48) (236 - 1) 0)\<lparr>sd_s := 0\<rparr>"

definition set_kstack :: "u32 \<Rightarrow> (kstack \<Rightarrow> kstack) \<Rightarrow> ('z intr_scheme, unit) kop" where
  "set_kstack ks f = modify (\<lambda>s. s\<lparr>kstacks := (kstacks s)(ks := f (kstacks s ks))\<rparr>)"

definition proc_kstack :: "u32 \<Rightarrow> ('z intr_scheme, u32) kop" where
  "proc_kstack pid = seq (in_bounds (pid < NUM_IDS)) (gets (\<lambda>s. proc_kstack_hi s pid - 4096))"

definition flat_gdt :: "(nat \<Rightarrow> segdesc) \<Rightarrow> nat \<Rightarrow> segdesc" where
  "flat_gdt g = g(0 := SEGDESC_NULL, 1 := SEGDESC32 0xA 0 0xffffffff 0, 2 := SEGDESC32 0x2 0 0xffffffff 0,
     3 := SEGDESC32 0xA 0 0xffffffff 3, 4 := SEGDESC32 0x2 0 0xffffffff 3)"

definition kstack_switch :: "u32 \<Rightarrow> ('z intr_scheme, unit) kop" where
  "kstack_switch pid =
     bind get_pcpu_idx (\<lambda>cpu_idx.
     bind (get_pcpu_kstack_pointer cpu_idx) (\<lambda>ks.
     bind (proc_kstack pid) (\<lambda>pks.
     block [
       set_kstack ks (\<lambda>k. k\<lparr>ks_tss := (ks_tss k)\<lparr>ts_esp0 := pks + 4096, ts_ss0 := CPU_GDT_KDATA\<rparr>\<rparr>),
       set_kstack ks (\<lambda>k. k\<lparr>ks_gdt := (ks_gdt k)(5 := tss_desc pks)\<rparr>),
       modify (\<lambda>s. s\<lparr>task_reg := CPU_GDT_TSS\<rparr>)])))"

text \<open>Clearing the zero-initialised data is what makes the initial state; the processor's own stack comes first.\<close>

definition seg_init :: "u32 \<Rightarrow> ('z intr_scheme, unit) kop" where
  "seg_init cpu_idx =
     seq (in_bounds (cpu_idx < NUM_CPUS))
     (bind (gets (\<lambda>s. bsp_kstack_at s + cpu_idx * 4096)) (\<lambda>ks.
      block [
        set_kstack ks (\<lambda>k. k\<lparr>ks_gdt := flat_gdt (ks_gdt k)\<rparr>),
        set_kstack ks (\<lambda>k. k\<lparr>ks_tss := (ks_tss k)\<lparr>ts_esp0 := ks + 4096, ts_ss0 := CPU_GDT_KDATA\<rparr>\<rparr>),
        set_kstack ks (\<lambda>k. k\<lparr>ks_gdt := (ks_gdt k)(5 := tss_desc ks)\<rparr>),
        set_kstack ks (\<lambda>k. k\<lparr>ks_magic := 0x98765432\<rparr>),
        modify (\<lambda>s. s\<lparr>gdtr := ks, task_reg := CPU_GDT_TSS\<rparr>)]))"

definition seg_init_proc :: "u32 \<Rightarrow> u32 \<Rightarrow> ('z intr_scheme, unit) kop" where
  "seg_init_proc cpu_idx pid =
     bind (proc_kstack pid) (\<lambda>ks.
     block [
       set_kstack ks (\<lambda>k. k\<lparr>ks_gdt := flat_gdt (ks_gdt k)\<rparr>),
       set_kstack ks (\<lambda>k. k\<lparr>ks_tss := (ks_tss k)\<lparr>ts_esp0 := ks + 4096, ts_ss0 := CPU_GDT_KDATA, ts_iomb := 104,
         ts_iopm := replicate 128 0 @ [0xff]\<rparr>\<rparr>),
       set_kstack ks (\<lambda>k. k\<lparr>ks_gdt := (ks_gdt k)(5 := tss_desc ks)\<rparr>),
       set_kstack ks (\<lambda>k. k\<lparr>ks_magic := 0x98765432, ks_cpu_idx := cpu_idx\<rparr>)])"

end
