(* ===== verification/Syscall.thy ===== *)
theory Syscall
  imports Interrupts
begin

text \<open>
  Loading a program (\<open>kern/lib/elf.c\<close>), creating a process (\<open>kern/proc/PProc\<close>) and the system calls of
  \<open>kern/trap/TSyscall\<close>.
\<close>

section \<open>elf.c\<close>

abbreviation (input) ELF_MAGIC :: u32 where "ELF_MAGIC \<equiv> 0x464C457F"
abbreviation (input) ELF_PROG_LOAD :: u32 where "ELF_PROG_LOAD \<equiv> 1"
abbreviation (input) ELF_PROG_FLAG_WRITE :: u32 where "ELF_PROG_FLAG_WRITE \<equiv> 2"
abbreviation (input) ELF_SHT_STRTAB :: u32 where "ELF_SHT_STRTAB \<equiv> 3"

definition mem_u32 :: "u32 \<Rightarrow> ('z paging_scheme, u32) kop" where
  "mem_u32 a = gets (\<lambda>s. load_word (mem8 s) a)"

definition mem_u16 :: "u32 \<Rightarrow> ('z paging_scheme, u16) kop" where
  "mem_u16 a = gets (\<lambda>s. ucast (mem8 s a) OR push_bit 8 (ucast (mem8 s (a + 1))))"

text \<open>Bytes of the image at \<open>fa\<close> copied to the process.\<close>

definition copyout_mem :: "u32 \<Rightarrow> u32 \<Rightarrow> u32 \<Rightarrow> u32 \<Rightarrow> ('z paging_scheme, unit) kop" where
  "copyout_mem fa pid va len =
     bind (gets (\<lambda>s. read_bytes (mem8 s) fa (unat len))) (\<lambda>bs. seq (pt_copyout bs fa pid va len) (ret ()))"

definition load_page :: "u32 \<Rightarrow> u32 \<Rightarrow> u32 \<Rightarrow> u32 \<Rightarrow> u32 \<Rightarrow> u32 \<Rightarrow> ('z paging_scheme, unit) kop" where
  "load_page pid prm zva filesz va fa =
     seq (alloc_page pid va prm)
     (if va < rounddown zva 4096 then copyout_mem fa pid va 4096
      else if va < zva \<and> filesz \<noteq> 0 then
        seq (pt_memset pid va 0 4096) (copyout_mem fa pid va (zva - va))
      else seq (pt_memset pid va 0 4096) (ret ()))"

definition load_segment :: "u32 \<Rightarrow> u32 \<Rightarrow> u32 \<Rightarrow> ('z paging_scheme, unit) kop" where
  "load_segment eh pid ph =
     bind (mem_u32 ph) (\<lambda>p_type.
     if p_type \<noteq> ELF_PROG_LOAD then ret ()
     else
       bind (mem_u32 (ph + 4)) (\<lambda>p_offset.
       bind (mem_u32 (ph + 8)) (\<lambda>p_va.
       bind (mem_u32 (ph + 16)) (\<lambda>p_filesz.
       bind (mem_u32 (ph + 20)) (\<lambda>p_memsz.
       bind (mem_u32 (ph + 24)) (\<lambda>p_flags.
       let zva = p_va + p_filesz; eva = roundup (p_va + p_memsz) 4096;
           prm = PTE_U OR PTE_P OR (if p_flags AND ELF_PROG_FLAG_WRITE \<noteq> 0 then PTE_W else 0) in
       iterate (\<lambda>(va, fa).
         if va < eva then seq (load_page pid prm zva p_filesz va fa) (ret (Inl (va + 4096, fa + 4096)))
         else ret (Inr ())) (rounddown p_va 4096, eh + rounddown p_offset 4096)))))))"

definition elf_load :: "u32 \<Rightarrow> u32 \<Rightarrow> ('z paging_scheme, unit) kop" where
  "elf_load eh pid =
     bind (mem_u32 eh) (\<lambda>e_magic.
     bind (mem_u16 (eh + 50)) (\<lambda>e_shstrndx.
     if e_magic \<noteq> ELF_MAGIC then panic ''eh->e_magic == ELF_MAGIC''
     else if e_shstrndx = 0 then panic ''eh->e_shstrndx != ELF_SHN_UNDEF''
     else
       bind (mem_u32 (eh + 32)) (\<lambda>e_shoff.
       bind (mem_u32 (eh + e_shoff + 40 * ucast e_shstrndx + 4)) (\<lambda>sh_type.
       if sh_type \<noteq> ELF_SHT_STRTAB then panic ''sh[eh->e_shstrndx].sh_type == ELF_SHT_STRTAB''
       else
         bind (mem_u32 (eh + 28)) (\<lambda>e_phoff.
         bind (mem_u16 (eh + 44)) (\<lambda>e_phnum.
         iterate (\<lambda>ph. if ph < eh + e_phoff + 32 * ucast e_phnum
           then seq (load_segment eh pid ph) (ret (Inl (ph + 32))) else ret (Inr ())) (eh + e_phoff)))))))"

definition elf_entry :: "u32 \<Rightarrow> ('z paging_scheme, u32) kop" where
  "elf_entry eh =
     bind (mem_u32 eh) (\<lambda>e_magic.
     if e_magic \<noteq> ELF_MAGIC then panic ''eh->e_magic == ELF_MAGIC'' else mem_u32 (eh + 24))"

section \<open>PProc\<close>

text \<open>The frame a new process starts with, on its way through \<open>trap_return\<close>.\<close>

definition proc_start_user :: "('z intr_scheme, tf_t) kop" where
  "proc_start_user =
     bind get_curid (\<lambda>cur_pid.
     seq (block [kstack_switch cur_pid, set_pdir_base cur_pid])
     (seq (in_bounds (cur_pid < NUM_IDS)) (gets (\<lambda>s. uctx_pool s cur_pid))))"

definition proc_create :: "u32 \<Rightarrow> u32 \<Rightarrow> ('z intr_scheme, u32) kop" where
  "proc_create elf_addr quota =
     bind get_curid (\<lambda>cid.
     bind (gets (\<lambda>s. symbol s ''proc_start_user'')) (\<lambda>entry.
     bind (thread_spawn entry cid quota) (\<lambda>pid.
     seq (elf_load elf_addr pid)
     (bind (elf_entry elf_addr) (\<lambda>eip.
      seq (in_bounds (pid < NUM_IDS))
      (seq (modify (\<lambda>s. s\<lparr>uctx_pool := (uctx_pool s)(pid := (uctx_pool s pid)
         \<lparr>tf_es := CPU_GDT_UDATA OR 3, tf_ds := CPU_GDT_UDATA OR 3, tf_cs := CPU_GDT_UCODE OR 3, tf_ss := CPU_GDT_UDATA OR 3,
          tf_esp := VM_USERHI, tf_eflags := 0x200, tf_eip := eip\<rparr>)\<rparr>))
      (bind get_pcpu_idx (\<lambda>cpu. seq (seg_init_proc cpu pid) (ret pid)))))))))"

section \<open>Processes\<close>

definition elf_name :: "u32 \<Rightarrow> string option" where
  "elf_name elf_id = (if 1 \<le> elf_id \<and> elf_id \<le> 9 then
     Some ([''ping'', ''pong'', ''ding'', ''fstest'', ''shell'', ''cat'', ''rot13'', ''echo'', ''ls''] ! (unat elf_id - 1)) else None)"

text \<open>The working directory, the root when none has been set yet.\<close>

definition lazy_cwd :: "u32 \<Rightarrow> ('z fs_scheme, nat) kop" where
  "lazy_cwd pid =
     bind (tcb_get_cwd pid) (\<lambda>cwd.
     case cwd of Some dp \<Rightarrow> ret dp
     | None \<Rightarrow> bind (inode_get ROOTDEV ROOTINO) (\<lambda>dp. seq (tcb_set_cwd pid (Some dp)) (ret dp)))"

definition spawn_fd :: "u32 \<Rightarrow> u32 \<Rightarrow> u32 \<Rightarrow> u32 \<Rightarrow> file_type \<Rightarrow> bool \<Rightarrow> bool \<Rightarrow> ('z fs_scheme, unit) kop" where
  "spawn_fd curid new_pid fd slot ty r w =
     bind (tcb_get_openfiles curid) (\<lambda>parent_fds.
     if 0 <=s fd \<and> fd <s NOFILE \<and> parent_fds fd \<noteq> None then
       bind (opt_bounds (parent_fds fd)) (\<lambda>f. bind (file_dup f) (\<lambda>f. tcb_set_openfiles new_pid slot (Some f)))
     else if fd = -1 then
       bind file_alloc (\<lambda>f. case f of None \<Rightarrow> ret ()
         | Some f \<Rightarrow> block [set_file f (\<lambda>x. x\<lparr>f_type := ty, f_readable := r, f_writable := w, f_ref := 1\<rparr>),
             tcb_set_openfiles new_pid slot (Some f)])
     else ret ())"

definition sys_spawn :: "tf_t \<Rightarrow> ('z intr_scheme, tf_t) kop" where
  "sys_spawn tf =
     (let elf_id = syscall_get_arg2 tf; quota = syscall_get_arg3 tf; stdin_fd = syscall_get_arg4 tf;
          stdout_fd = syscall_get_arg5 tf; failed = (\<lambda>e. ret (syscall_set_retval1 (syscall_set_errno tf e) NUM_IDS)) in
      bind get_curid (\<lambda>curid.
      bind (container_can_consume curid quota) (\<lambda>qok.
      bind (container_get_nchildren curid) (\<lambda>nc.
      if qok = 0 then failed E_EXCEEDS_QUOTA
      else if NUM_IDS < curid * MAX_CHILDREN + 1 + MAX_CHILDREN then failed E_MAX_NUM_CHILDEN_REACHED
      else if nc = MAX_CHILDREN then failed E_INVAL_CHILD_ID
      else
        (case elf_name elf_id of
           None \<Rightarrow> failed E_INVAL_PID
         | Some name \<Rightarrow>
             bind (gets (\<lambda>s. elf_image s name)) (\<lambda>elf_addr.
             bind (proc_create elf_addr quota) (\<lambda>new_pid.
             if new_pid = NUM_IDS then failed E_INVAL_PID
             else
               bind (lazy_cwd curid) (\<lambda>cwd.
               bind (inode_dup cwd) (\<lambda>cwd.
               seq (tcb_set_cwd new_pid (Some cwd))
               (seq (if stdin_fd = -1 \<and> stdout_fd = -1 then console_init_fds new_pid
                     else block [spawn_fd curid new_pid stdin_fd 0 FD_CONSOLE_IN True False,
                                 spawn_fd curid new_pid stdout_fd 1 FD_CONSOLE_OUT False True])
               (ret (syscall_set_retval1 (syscall_set_errno tf E_SUCC) new_pid))))))))))))"

definition sys_yield :: "'z ienv \<Rightarrow> tf_t \<Rightarrow> ('z intr_scheme, tf_t) kop" where
  "sys_yield env tf = seq (yield_on env) (ret (syscall_set_errno tf E_SUCC))"

text \<open>The state of the target is read for a diagnostic message before its number is checked.\<close>

definition sys_waitpid :: "'z ienv \<Rightarrow> tf_t \<Rightarrow> ('z intr_scheme, tf_t) kop" where
  "sys_waitpid env tf =
     (let target_pid = syscall_get_arg2 tf in
      bind get_curid (\<lambda>waiter.
      bind (tcb_get_state target_pid) (\<lambda>_.
      if target_pid <s 0 \<or> NUM_IDS <=s target_pid then ret (syscall_set_errno tf E_INVAL_PID)
      else bind (iterate (\<lambda>tf. bind (tcb_get_state target_pid) (\<lambda>st.
          if st \<noteq> TSTATE_DEAD then bind (sys_yield env tf) (\<lambda>tf. ret (Inl tf)) else ret (Inr tf))) tf) (\<lambda>tf.
        ret (syscall_set_errno tf E_SUCC)))))"

definition sys_exit :: "'z ienv \<Rightarrow> tf_t \<Rightarrow> ('z intr_scheme, tf_t) kop" where
  "sys_exit env tf =
     bind get_curid (\<lambda>pid.
     seq (for_loop 0 NOFILE (\<lambda>i.
       bind (tcb_get_openfiles pid) (\<lambda>openfiles.
       case openfiles i of None \<Rightarrow> ret ()
       | Some f \<Rightarrow> block [file_close env f, tcb_set_openfiles pid i None])))
     (seq (block [tcb_set_state pid TSTATE_DEAD, tqueue_remove NUM_IDS pid, tcb_set_pending_signals pid 0])
     (bind (container_get_parent pid) (\<lambda>parent.
      bind (container_get_quota pid) (\<lambda>quota.
      seq (block [container_refund_usage parent quota, thread_exit]) (ret tf))))))"

section \<open>Directories\<close>

definition sys_is_dir :: "tf_t \<Rightarrow> ('z intr_scheme, tf_t) kop" where
  "sys_is_dir tf =
     (let fd = syscall_get_arg2 tf in
      bind get_curid (\<lambda>pid.
      bind (tcb_get_openfiles pid) (\<lambda>fds.
      seq (in_bounds (fd < NOFILE))
      (case fds fd of
         None \<Rightarrow> ret (fail_with tf E_BADF)
       | Some fp \<Rightarrow>
           bind (get_file fp f_ip) (\<lambda>ip.
           case ip of
             None \<Rightarrow> ret (fail_with tf E_BADF)
           | Some ip \<Rightarrow>
               bind (get_inode ip i_type) (\<lambda>ty.
               ret (syscall_set_retval1 (syscall_set_errno tf E_SUCC) (if ty = T_DIR then 1 else 0))))))))"

definition sys_ls :: "'z ienv \<Rightarrow> tf_t \<Rightarrow> ('z intr_scheme, tf_t) kop" where
  "sys_ls env tf =
     (let user_buf_addr = syscall_get_arg2 tf; buf_len = syscall_get_arg3 tf in
      bind get_curid (\<lambda>cur_pid.
      bind (lazy_cwd cur_pid) (\<lambda>dp.
      seq (inode_lock env (Some dp))
      (bind (sys_buf_addr cur_pid) (\<lambda>kva.
       bind (gets (\<lambda>s. sys_buf s cur_pid)) (\<lambda>buf.
       bind (iterate (\<lambda>(off, pos, buf). bind (get_inode dp i_size) (\<lambda>sz.
         if off < sz then
           bind (inode_read env dp off 16) (\<lambda>(r, de).
           if r \<noteq> 16 then seq (inode_unlock (Some dp)) (panic ''wrong in dir_lookup'')
           else if get16 de 0 = 0 then ret (Inl (off + 16, pos, buf))
           else
             bind (opt_bounds (strnlen (sub 2 DIRSIZ de) 4096)) (\<lambda>n.
             bind (opt_bounds (strncpy (sub 2 DIRSIZ de) n)) (\<lambda>name.
             seq (in_bounds (pos + n < length buf))
             (ret (Inl (off + 16, pos + n + 1, put pos (name @ [32]) buf))))))
         else ret (Inr (pos, buf)))) (0, 0 :: nat, buf)) (\<lambda>(pos, buf).
       seq (inode_unlock (Some dp))
       (seq (in_bounds (0 < pos))
       (let buf = buf[pos - 1 := 0]; len = (if of_nat pos <s buf_len then of_nat pos else buf_len) in
        seq (modify (\<lambda>s. s\<lparr>sys_buf := (sys_buf s)(cur_pid := buf)\<rparr>))
        (bind (pt_copyout buf kva cur_pid user_buf_addr len) (\<lambda>_.
         ret (syscall_set_retval1 (syscall_set_errno tf E_SUCC) len))))))))))))"

text \<open>The name of \<open>curi\<close> in its parent, stored in row \<open>len\<close> of the local array, if it is found.\<close>

definition pwd_find :: "'z ienv \<Rightarrow> nat \<Rightarrow> nat \<Rightarrow> (nat \<Rightarrow> u8 list) \<times> nat \<Rightarrow> ('z intr_scheme, (nat \<Rightarrow> u8 list) \<times> nat) kop" where
  "pwd_find env parent curi arr_len =
     (case arr_len of (arr, len) \<Rightarrow> iterate (\<lambda>off. bind (get_inode parent i_size) (\<lambda>sz.
       if off < sz then
         bind (inode_read env parent off 16) (\<lambda>(r, de).
         if r \<noteq> 16 then ret (Inr (arr, len))
         else bind (get_inode curi i_inum) (\<lambda>inum.
           if ucast (get16 de 0) = inum then
             bind (opt_bounds (strncpy (sub 2 DIRSIZ de) DIRSIZ)) (\<lambda>name.
             seq (in_bounds (len < 100))
             (ret (Inr (arr(len := put 14 [0] (put 0 name (arr len))), len + 1))))
           else ret (Inl (off + 16))))
       else ret (Inr (arr, len)))) 0)"

text \<open>
  The loop that should join the names moves the end \<open>p\<close> of the text but copies none of them; the result
  is sent to the address in the first argument, which is the number of the call.
\<close>

definition sys_pwd :: "'z ienv \<Rightarrow> tf_t \<Rightarrow> ('z intr_scheme, tf_t) kop" where
  "sys_pwd env tf =
     bind get_curid (\<lambda>pid.
     bind (lazy_cwd pid) (\<lambda>curi.
     bind (gets kstack_bytes) (\<lambda>junk.
     let parent_of = (\<lambda>i. bind (dir_lookup env i [46, 46, 0]) (\<lambda>r. opt_bounds (map_option fst r))) in
     bind (parent_of curi) (\<lambda>parent.
     bind (iterate (\<lambda>(curi, parent, arr, len).
       bind (get_inode parent i_inum) (\<lambda>pnum. bind (get_inode curi i_inum) (\<lambda>cnum.
       if pnum \<noteq> cnum then
         bind (pwd_find env parent curi (arr, len)) (\<lambda>(arr, len).
         bind (parent_of parent) (\<lambda>p. ret (Inl (parent, p, arr, len))))
       else ret (Inr (arr, len)))))
       (curi, parent, \<lambda>i. map (\<lambda>j. junk (100 * i + j)) [0..<100], 0)) (\<lambda>(arr, len).
     bind (gets kstack_at) (\<lambda>kva.
     bind (iterate (\<lambda>(i, p, rows).
       if i = 0 then ret (Inr (p, rows))
       else bind (opt_bounds (strnlen (sub (100 * (i - 1)) 100 rows) 100)) (\<lambda>n.
         seq (in_bounds (p + n < length rows))
         (ret (Inl (i - 1, p + n + 1, rows[p + n := 47]))))) (len, 0 :: nat, concat (map arr [0..<100]))) (\<lambda>(p, rows).
     seq (in_bounds (p < length rows))
     (bind (pt_copyout (rows[p := 0]) kva pid (syscall_get_arg1 tf) (of_nat (p + 1))) (\<lambda>_. ret tf)))))))))"

definition sys_mv :: "tf_t \<Rightarrow> ('z intr_scheme, tf_t) kop" where "sys_mv tf = ret tf"
definition sys_cat :: "tf_t \<Rightarrow> ('z intr_scheme, tf_t) kop" where "sys_cat tf = ret tf"
definition sys_cp :: "tf_t \<Rightarrow> ('z intr_scheme, tf_t) kop" where "sys_cp tf = ret tf"
definition sys_touch :: "tf_t \<Rightarrow> ('z intr_scheme, tf_t) kop" where "sys_touch tf = ret tf"

definition sys_rm :: "tf_t \<Rightarrow> ('z intr_scheme, tf_t) kop" where
  "sys_rm tf =
     (let user_addr_path = syscall_get_arg2 tf; len = syscall_get_arg3 tf in
      bind get_curid (\<lambda>cur_pid.
      let len = (if len <s 4096 - 1 then len else 4096 - 1) in
      bind (sys_buf_addr cur_pid) (\<lambda>kva.
      bind (pt_copyin cur_pid user_addr_path kva len) (\<lambda>(copied, bs).
      seq (in_bounds (0 <=s len))
      (seq (modify (\<lambda>s. s\<lparr>sys_buf := (sys_buf s)(cur_pid := put (unat len) [0] (put 0 bs (sys_buf s cur_pid)))\<rparr>))
      (ret tf))))))"

section \<open>Signals\<close>

abbreviation (input) SIGKILL :: u32 where "SIGKILL \<equiv> 9"

definition sigaction_bytes :: "sigaction \<Rightarrow> u8 list" where
  "sigaction_bytes a = bytes32 (sa_handler a) @ bytes32 (sa_sigaction a) @ bytes32 (sa_flags a) @
     bytes32 (sa_restorer a) @ bytes32 (sa_mask a)"

definition sigaction_of :: "u8 list \<Rightarrow> sigaction" where
  "sigaction_of d = \<lparr>sa_handler = get32 d 0, sa_sigaction = get32 d 4, sa_flags = get32 d 8, sa_restorer = get32 d 12, sa_mask = get32 d 16\<rparr>"

definition sys_sigaction :: "tf_t \<Rightarrow> ('z intr_scheme, tf_t) kop" where
  "sys_sigaction tf =
     (let signum = syscall_get_arg2 tf; user_act = syscall_get_arg3 tf; user_oldact = syscall_get_arg4 tf in
      bind get_curid (\<lambda>cur_pid.
      bind (gets kstack_at) (\<lambda>kva.
      if signum <s 1 \<or> NSIG <=s signum then ret (syscall_set_errno tf E_INVAL_SIGNUM)
      else
        seq (if user_oldact \<noteq> 0 then
               bind (tcb_get_sigaction cur_pid signum) (\<lambda>act. case act of None \<Rightarrow> ret ()
               | Some act \<Rightarrow> seq (pt_copyout (sigaction_bytes act) kva cur_pid user_oldact 20) (ret ()))
             else ret ())
        (seq (if user_act \<noteq> 0 then
                bind (pt_copyin cur_pid user_act kva 20) (\<lambda>(copied, bs).
                bind (gets kstack_bytes) (\<lambda>junk.
                tcb_set_sigaction cur_pid signum (Some (sigaction_of (put 0 bs (map junk [0..<20]))))))
              else ret ())
        (ret (syscall_set_errno tf E_SUCC))))))"

definition sys_kill :: "tf_t \<Rightarrow> ('z intr_scheme, tf_t) kop" where
  "sys_kill tf =
     (let pid = syscall_get_arg2 tf; signum = syscall_get_arg3 tf in
      if signum <s 1 \<or> NSIG <=s signum then ret (syscall_set_errno tf E_INVAL_SIGNUM)
      else if pid <s 0 \<or> NUM_IDS <=s pid then ret (syscall_set_errno tf E_INVAL_PID)
      else bind (tcb_get_state pid) (\<lambda>st.
        if st = TSTATE_DEAD then ret (syscall_set_errno tf E_INVAL_PID)
        else if signum = SIGKILL then
          seq (block [tcb_set_state pid TSTATE_DEAD, tqueue_remove NUM_IDS pid, tcb_set_pending_signals pid 0])
          (bind (container_get_parent pid) (\<lambda>parent.
           bind (container_get_quota pid) (\<lambda>quota.
           seq (container_refund_usage parent quota) (ret (syscall_set_errno tf E_SUCC)))))
        else
          seq (tcb_add_pending_signal pid signum)
          (bind (tcb_is_sleeping pid) (\<lambda>sl.
           seq (if sl \<noteq> 0 then bind (tcb_get_channel pid) (\<lambda>ch. when_true (ch \<noteq> ChNull) (thread_wakeup ch)) else ret ())
           (ret (syscall_set_errno tf E_SUCC))))))"

definition sys_pause :: "'z ienv \<Rightarrow> tf_t \<Rightarrow> ('z intr_scheme, tf_t) kop" where
  "sys_pause env tf =
     bind get_curid (\<lambda>cur_pid.
     bind (tcb_get_pending_signals cur_pid) (\<lambda>pending.
     if pending \<noteq> 0 then ret (syscall_set_errno tf E_SUCC)
     else seq (block [tcb_set_state cur_pid TSTATE_SLEEP, yield_on env]) (ret (syscall_set_errno tf E_SUCC))))"

definition sys_sigreturn :: "tf_t \<Rightarrow> ('z intr_scheme, tf_t) kop" where
  "sys_sigreturn tf =
     bind get_curid (\<lambda>cur_pid.
     bind (tcb_get_signal_context cur_pid) (\<lambda>(esp_addr, eip_addr).
     bind (gets kstack_at) (\<lambda>kva.
     if esp_addr = 0 \<or> eip_addr = 0 then ret (syscall_set_errno tf E_INVAL_ADDR)
     else bind (pt_copyin cur_pid esp_addr kva 4) (\<lambda>(n1, esp).
       if n1 \<noteq> 4 then ret (syscall_set_errno tf E_MEM)
       else bind (pt_copyin cur_pid eip_addr kva 4) (\<lambda>(n2, eip).
         if n2 \<noteq> 4 then ret (syscall_set_errno tf E_MEM)
         else
           seq (tcb_clear_signal_context cur_pid)
           (ret (syscall_set_errno (tf\<lparr>tf_esp := get32 esp 0, tf_eip := get32 eip 0\<rparr>) E_SUCC)))))))"

end
