(* ===== verification/Trap.thy ===== *)
theory Trap
  imports Syscall
begin

text \<open>
  From a trap to its handler and back to the user: the dispatch of system calls (\<open>kern/trap/TDispatch\<close>),
  the handlers of exceptions, interrupts and pending signals (\<open>kern/trap/TTrapHandler\<close>), the table of
  handlers (\<open>kern/trap/TTrapInit\<close>) and the start of the system (\<open>kern/init/init.c\<close>).
\<close>

section \<open>TDispatch\<close>

text \<open>
  In this file \<open>syscall_set_errno\<close> is declared with one parameter: the call in the default case passes the
  error number where the definition expects the address of the frame, and leaves the other argument
  undefined. So a word of the stack is stored at the offset of \<open>eax\<close>, 28, above that address.
\<close>

definition set_errno_misdeclared :: "u32 \<Rightarrow> ('z intr_scheme, unit) kop" where
  "set_errno_misdeclared errno = modify (\<lambda>s. s\<lparr>mem8 := store_word (mem8 s) (errno + 28) (get32 (map (kstack_bytes s) [0..<4]) 0)\<rparr>)"

definition syscall_dispatch :: "'z ienv \<Rightarrow> tf_t \<Rightarrow> ('z intr_scheme, tf_t) kop" where
  "syscall_dispatch env tf =
     (case syscall_of (syscall_get_arg1 tf) of
        Some SYS_sync_send \<Rightarrow> sys_sync_send env tf
      | Some SYS_sync_recv \<Rightarrow> sys_sync_recv env tf
      | Some SYS_is_dir \<Rightarrow> sys_is_dir tf
      | Some SYS_ls \<Rightarrow> sys_ls env tf
      | Some SYS_pwd \<Rightarrow> sys_pwd env tf
      | Some SYS_cp \<Rightarrow> sys_cp tf
      | Some SYS_mv \<Rightarrow> sys_mv tf
      | Some SYS_rm \<Rightarrow> sys_rm tf
      | Some SYS_cat \<Rightarrow> sys_cat tf
      | Some SYS_touch \<Rightarrow> sys_touch tf
      | Some SYS_spawn \<Rightarrow> sys_spawn tf
      | Some SYS_yield \<Rightarrow> sys_yield env tf
      | Some SYS_open \<Rightarrow> sys_open env tf
      | Some SYS_close \<Rightarrow> sys_close env tf
      | Some SYS_read \<Rightarrow> sys_read env tf
      | Some SYS_write \<Rightarrow> sys_write env tf
      | Some SYS_pipe \<Rightarrow> sys_pipe env tf
      | Some SYS_mkdir \<Rightarrow> sys_mkdir env tf
      | Some SYS_chdir \<Rightarrow> sys_chdir env tf
      | Some SYS_link \<Rightarrow> sys_link env tf
      | Some SYS_unlink \<Rightarrow> sys_unlink env tf
      | Some SYS_stat \<Rightarrow> sys_fstat env tf
      | Some SYS_sigaction \<Rightarrow> sys_sigaction tf
      | Some SYS_kill \<Rightarrow> sys_kill tf
      | Some SYS_pause \<Rightarrow> sys_pause env tf
      | Some SYS_sigreturn \<Rightarrow> sys_sigreturn tf
      | Some SYS_exit \<Rightarrow> sys_exit env tf
      | Some SYS_waitpid \<Rightarrow> sys_waitpid env tf
      | _ \<Rightarrow> seq (set_errno_misdeclared E_INVAL_CALLNR) (ret tf))"

section \<open>TTrapHandler\<close>

abbreviation (input) T_PGFLT :: u32 where "T_PGFLT \<equiv> 14"
abbreviation (input) T_SYSCALL :: u32 where "T_SYSCALL \<equiv> 48"
abbreviation (input) PFE_PR :: u32 where "PFE_PR \<equiv> 1"

definition default_exception_handler :: "tf_t \<Rightarrow> ('z intr_scheme, tf_t) kop" where
  "default_exception_handler tf = bind get_curid (\<lambda>_. panic ''Trap'')"

definition pgflt_handler :: "tf_t \<Rightarrow> ('z intr_scheme, tf_t) kop" where
  "pgflt_handler tf =
     bind get_curid (\<lambda>cur_pid.
     bind (gets cr2) (\<lambda>fault_va.
     if tf_err tf AND PFE_PR \<noteq> 0 then panic ''Permission denied''
     else bind (alloc_page cur_pid fault_va (PTE_W OR PTE_U OR PTE_P)) (\<lambda>r.
       if r = MagicNumber then panic ''Page allocation failed'' else ret tf)))"

definition exception_handler :: "tf_t \<Rightarrow> ('z intr_scheme, tf_t) kop" where
  "exception_handler tf =
     bind get_curid (\<lambda>_. if tf_trapno tf = T_PGFLT then pgflt_handler tf else default_exception_handler tf)"

text \<open>A tick that ends the time slice switches away; \<open>env\<close> is what the others do until this thread runs again.\<close>

definition sched_update_on :: "'z ienv \<Rightarrow> ('z intr_scheme, unit) kop" where
  "sched_update_on env s = (case sched_update s of Inl (Switched t) \<Rightarrow> Inr ((), env t) | r \<Rightarrow> r)"

definition timer_intr_handler :: "'z ienv \<Rightarrow> ('z intr_scheme, unit) kop" where
  "timer_intr_handler env = block [intr_eoi, sched_update_on env]"

definition interrupt_handler :: "'z ienv \<Rightarrow> tf_t \<Rightarrow> ('z intr_scheme, tf_t) kop" where
  "interrupt_handler env tf =
     bind get_curid (\<lambda>_.
     seq (if tf_trapno tf = 32 + 7 then ret ()
          else if tf_trapno tf = 32 + 0 then timer_intr_handler env
          else if tf_trapno tf = 32 + 14 then block [ide_intr, intr_eoi]
          else if tf_trapno tf = 32 + 15 then ret ()
          else intr_eoi)
     (ret tf))"

text \<open>A word or the trampoline pushed on the user's stack, below \<open>esp\<close>.\<close>

definition push_user :: "u32 \<Rightarrow> u8 list \<Rightarrow> u32 \<Rightarrow> ('z intr_scheme, u32) kop" where
  "push_user pid bs esp =
     bind (gets kstack_at) (\<lambda>kva.
     let esp = esp - of_nat (length bs) in
     seq (pt_copyout bs kva pid esp (of_nat (length bs))) (ret esp))"

definition trampoline :: "u8 list" where
  "trampoline = [0xB8, 29, 0, 0, 0, 0xCD, 0x30, 0xEB, 0xFE, 0x90, 0x90, 0x90]"

definition deliver_signal :: "tf_t \<Rightarrow> u32 \<Rightarrow> ('z intr_scheme, tf_t) kop" where
  "deliver_signal tf signum =
     bind get_curid (\<lambda>cur_pid.
     bind (tcb_get_sigaction cur_pid signum) (\<lambda>sa.
     case sa of
       None \<Rightarrow> ret tf
     | Some sa \<Rightarrow>
         if sa_handler sa = 0 then ret tf
         else
           bind (push_user cur_pid (bytes32 (tf_eip tf)) (tf_esp tf)) (\<lambda>eip_addr.
           bind (push_user cur_pid (bytes32 (tf_esp tf)) eip_addr) (\<lambda>esp_addr.
           bind (push_user cur_pid trampoline esp_addr) (\<lambda>trampoline_addr.
           bind (push_user cur_pid (bytes32 signum) (trampoline_addr AND NOT 3)) (\<lambda>esp.
           bind (push_user cur_pid (bytes32 trampoline_addr) esp) (\<lambda>esp.
           seq (tcb_set_signal_context cur_pid esp_addr eip_addr)
           (ret (tf\<lparr>tf_esp := esp, tf_eip := sa_handler sa\<rparr>))))))))) "

definition terminate_process :: "u32 \<Rightarrow> ('z intr_scheme, unit) kop" where
  "terminate_process pid = block [tcb_set_state pid TSTATE_DEAD, tqueue_remove NUM_IDS pid, tcb_set_pending_signals pid 0]"

definition handle_pending_signals :: "tf_t \<Rightarrow> ('z intr_scheme, tf_t) kop" where
  "handle_pending_signals tf =
     bind get_curid (\<lambda>cur_pid.
     bind (tcb_get_pending_signals cur_pid) (\<lambda>pending.
     if pending = 0 then ret tf
     else iterate (\<lambda>signum.
       if signum <s NSIG then
         if pending AND push_bit (unat signum) 1 \<noteq> 0 then
           seq (tcb_clear_pending_signal cur_pid signum)
           (if signum = SIGKILL then seq (block [terminate_process cur_pid, thread_exit]) (ret (Inr tf))
            else bind (deliver_signal tf signum) (\<lambda>tf. ret (Inr tf)))
         else ret (Inl (signum + 1))
       else ret (Inr tf)) 1))"

text \<open>The frame that \<open>trap\<close> passes to \<open>trap_return\<close>.\<close>

definition trap :: "'z ienv \<Rightarrow> tf_t \<Rightarrow> ('z intr_scheme, tf_t) kop" where
  "trap env tf =
     bind get_curid (\<lambda>cur_pid.
     seq (set_pdir_base 0)
     (bind get_pcpu_idx (\<lambda>cpu.
      seq (in_bounds (cpu < NUM_CPUS \<and> tf_trapno tf < 256))
      (bind (gets (\<lambda>s. TRAP_HANDLER s cpu (tf_trapno tf))) (\<lambda>f.
       bind (case f of
               None \<Rightarrow> ret tf
             | Some Exception_handler \<Rightarrow> exception_handler tf
             | Some Syscall_dispatch \<Rightarrow> syscall_dispatch env tf
             | Some Interrupt_handler \<Rightarrow> interrupt_handler env tf) (\<lambda>tf.
       seq (kstack_switch cur_pid)
       (bind (handle_pending_signals tf) (\<lambda>tf.
        seq (set_pdir_base cur_pid) (ret tf)))))))))"

section \<open>TTrapInit\<close>

definition trap_init_array :: "('z intr_scheme, unit) kop" where
  "trap_init_array = bind (gets trap_inited) (\<lambda>inited.
     if inited then panic ''inited == FALSE''
     else modify (\<lambda>s. s\<lparr>TRAP_HANDLER := (\<lambda>_ _. None), trap_inited := True\<rparr>))"

definition trap_handler_register :: "u32 \<Rightarrow> u32 \<Rightarrow> trap_cb \<Rightarrow> ('z intr_scheme, unit) kop" where
  "trap_handler_register cpu_idx trapno cb =
     (if \<not> (0 <=s cpu_idx \<and> cpu_idx <s 8) then panic ''0 <= cpu_idx && cpu_idx < 8''
      else if \<not> (0 <=s trapno \<and> trapno <s 256) then panic ''0 <= trapno && trapno < 256''
      else modify (\<lambda>s. s\<lparr>TRAP_HANDLER := (TRAP_HANDLER s)(cpu_idx := (TRAP_HANDLER s cpu_idx)(trapno := Some cb))\<rparr>))"

definition trap_init :: "u32 \<Rightarrow> ('z intr_scheme, unit) kop" where
  "trap_init cpu_idx = block [
     when_true (cpu_idx = 0) trap_init_array,
     block (map (\<lambda>t. trap_handler_register cpu_idx t Exception_handler) [13, 14]),
     trap_handler_register cpu_idx T_SYSCALL Syscall_dispatch,
     block (map (\<lambda>t. trap_handler_register cpu_idx t Exception_handler)
       [0, 1, 2, 3, 4, 5, 6, 7, 8, 9, 10, 11, 12, 15, 16, 17, 18, 19, 30]),
     block (map (\<lambda>i. trap_handler_register cpu_idx (32 + i) Interrupt_handler) [7, 0, 1, 4, 14]),
     block (map (\<lambda>i. intr_enable i cpu_idx) [0, 1, 4, 14])]"

section \<open>Starting the system\<close>

definition kern_main :: "('z intr_scheme, unit) kop" where
  "kern_main =
     bind (gets (\<lambda>s. elf_image s ''idle'')) (\<lambda>idle.
     bind (gets (\<lambda>s. elf_image s ''shell'')) (\<lambda>shell.
     bind (proc_create idle 1000) (\<lambda>_.
     bind (proc_create shell 200000) (\<lambda>pid.
     block [console_init_fds pid, tqueue_remove NUM_IDS pid, tcb_set_state pid TSTATE_RUN, set_curid pid,
       kctx_switch 0 pid, panic ''kern_main_ap() should never reach here.'']))))"

end
