(* ===== verification/Pipes.thy ===== *)
theory Pipes
  imports File
begin

text \<open>
  Pipes as queues: the ring buffer of \<open>kern/fs/file.c\<close> with its two running counters implements a queue of
  at most 512 bytes, also when the counters wrap around.
\<close>

section \<open>The lock of the pipes\<close>

interpretation pipe: lock_field pipe_lk pipe_lk_update
proof unfold_locales
  fix f g :: "spinlock_t \<Rightarrow> spinlock_t" and s :: "'z fs_scheme"
  show "f (pipe_lk s) = g (pipe_lk s) \<Longrightarrow> pipe_lk_update f s = pipe_lk_update g s"
    by (cases s) simp
qed simp_all

interpretation pipes: sleep_lock pipe_lk pipe_lk_update
  by unfold_locales simp_all

lemma pipe_lock_exec [exec]:
  "cpu_ok s \<Longrightarrow> pipe_lk s = lock_init_val \<Longrightarrow>
   spinlock_acquire pipe_lk pipe_lk_update s = Inr ((), s\<lparr>pipe_lk := lock_held_val (kstack_cpu_idx s)\<rparr>)"
  using pipe.acquire_exec [of s] by (simp add: pipe.set_lock_def lock_init_val_def)

lemma pipe_unlock_exec [exec]: "spinlock_release pipe_lk_update s = Inr ((), s\<lparr>pipe_lk := lock_init_val\<rparr>)"
  by (simp add: pipe.release_exec pipe.set_lock_def)

lemma sched_ok_pipe_lk [simp]: "sched_ok (s\<lparr>pipe_lk := l\<rparr>) xs = sched_ok s xs"
  by (rule sched_ok_cong) simp_all

definition with_pipe :: "nat \<Rightarrow> pipe \<Rightarrow> 'z fs_scheme \<Rightarrow> 'z fs_scheme" where
  "with_pipe p x s = s\<lparr>pipes := (pipes s)(p := x)\<rparr>"

lemma with_pipe_simps [simp]:
  "pipes (with_pipe p x s) q = (if q = p then x else pipes s q)" "with_pipe p x (with_pipe p y s) = with_pipe p x s"
  "with_pipe p (pipes s p) s = s" "pipe_lk (with_pipe p x s) = pipe_lk s" "cpu_ok (with_pipe p x s) = cpu_ok s"
  "sched_ok (with_pipe p x s) xs = sched_ok s xs" "kstack_cpu_idx (with_pipe p x s) = kstack_cpu_idx s"
  "with_pipe p x (s\<lparr>pipe_lk := l\<rparr>) = (with_pipe p x s)\<lparr>pipe_lk := l\<rparr>"
  by (simp_all add: with_pipe_def cpu_ok_def) (rule sched_ok_cong, simp_all)

lemma pipe_ops [exec]:
  "get_pipe p f s = Inr (f (pipes s p), s)"
  "set_pipe p g s = Inr ((), with_pipe p (g (pipes s p)) s)"
  by (simp_all add: get_pipe_def set_pipe_def exec with_pipe_def)

section \<open>The ring buffer\<close>

text \<open>The pipe holds the bytes \<open>q\<close>, the oldest first.\<close>

definition pipe_rep :: "pipe \<Rightarrow> u8 list \<Rightarrow> bool" where
  "pipe_rep x q \<longleftrightarrow> length q \<le> 512 \<and> p_nwrite x = p_nread x + of_nat (length q) \<and>
     (\<forall>i < length q. p_data x ((p_nread x + of_nat i) mod 512) = q ! i)"

lemma ring_index: "unat ((a + of_nat i) mod (512 :: u32)) = (unat a + i) mod 512"
proof -
  have "(unat a + i mod 2 ^ 32) mod 2 ^ 32 mod 512 = (unat a + i) mod 512"
    by (simp add: mod_mod_cancel mod_simps)
  then show ?thesis by (simp add: unat_mod unat_word_ariths unat_of_nat)
qed

lemma ring_distinct:
  assumes "i < 512" "j < 512" "i \<noteq> j"
  shows "(a + of_nat i) mod (512 :: u32) \<noteq> (a + of_nat j) mod 512"
proof -
  have *: "(unat a + i) mod 512 \<noteq> (unat a + j) mod 512" if "i < j" "j < 512" for i j
    using that nat_dvd_not_less [of "j - i" 512] mod_eq_dvd_iff_nat [of "unat a + i" "unat a + j" 512] by simp
  from assms show ?thesis
    using * [of i j] * [of j i] by (cases "i < j") (metis ring_index, metis ring_index nat_neq_iff)
qed

lemma pipe_rep_push:
  assumes "pipe_rep x q" "length q < 512"
  shows "pipe_rep (x\<lparr>p_data := (p_data x)(p_nwrite x mod 512 := c), p_nwrite := p_nwrite x + 1\<rparr>) (q @ [c])"
  unfolding pipe_rep_def
proof (intro conjI allI impI)
  let ?y = "x\<lparr>p_data := (p_data x)(p_nwrite x mod 512 := c), p_nwrite := p_nwrite x + 1\<rparr>"
  have n: "p_nwrite x = p_nread x + of_nat (length q)" using assms(1) by (simp add: pipe_rep_def)
  fix i assume "i < length (q @ [c])"
  then consider "i < length q" | "i = length q" by fastforce
  then show "p_data ?y ((p_nread ?y + of_nat i) mod 512) = (q @ [c]) ! i"
  proof cases
    case 1
    with assms ring_distinct [of i "length q" "p_nread x"] show ?thesis by (simp add: pipe_rep_def nth_append)
  qed (simp add: n)
qed (use assms in \<open>simp_all add: pipe_rep_def\<close>)

lemma pipe_rep_pop:
  assumes "pipe_rep x (c # q)"
  shows "p_data x (p_nread x mod 512) = c" "p_nread x \<noteq> p_nwrite x" "pipe_rep (x\<lparr>p_nread := p_nread x + 1\<rparr>) q"
proof -
  have len: "length q < 512" using assms by (simp add: pipe_rep_def)
  have "p_data x ((p_nread x + of_nat 0) mod 512) = (c # q) ! 0"
    using assms unfolding pipe_rep_def by blast
  then show "p_data x (p_nread x mod 512) = c" by simp
  have "unat (of_nat (length (c # q)) :: u32) = length (c # q)" using len by (subst unat_of_nat) simp
  then have "of_nat (length (c # q)) \<noteq> (0 :: u32)" by (metis unat_0 length_greater_0_conv list.distinct(1) less_irrefl)
  then show "p_nread x \<noteq> p_nwrite x" using assms by (simp add: pipe_rep_def)
  show "pipe_rep (x\<lparr>p_nread := p_nread x + 1\<rparr>) q"
    unfolding pipe_rep_def
  proof (intro conjI allI impI)
    fix i assume "i < length q"
    then have "p_data x ((p_nread x + of_nat (Suc i)) mod 512) = (c # q) ! Suc i"
      using assms unfolding pipe_rep_def by (metis length_Cons Suc_less_eq)
    then show "p_data (x\<lparr>p_nread := p_nread x + 1\<rparr>) ((p_nread (x\<lparr>p_nread := p_nread x + 1\<rparr>) + of_nat i) mod 512) = q ! i"
      by (simp add: ac_simps)
  qed (use assms in \<open>simp_all add: pipe_rep_def ac_simps\<close>)
qed

lemma pipe_rep_empty: "pipe_rep x [] \<longleftrightarrow> p_nread x = p_nwrite x"
  by (auto simp: pipe_rep_def)

lemma pipe_rep_full: "pipe_rep x q \<Longrightarrow> p_nwrite x = p_nread x + 512 \<longleftrightarrow> length q = 512"
proof -
  assume "pipe_rep x q"
  then have "length q \<le> 512" "p_nwrite x = p_nread x + of_nat (length q)" by (simp_all add: pipe_rep_def)
  moreover from this(1) have "of_nat (length q) = (512 :: u32) \<longleftrightarrow> length q = 512"
    by (auto simp: word_unat_eq_iff unat_of_nat)
  ultimately show ?thesis by simp
qed

section \<open>Writing and reading without blocking\<close>

text \<open>A pipe that differs from \<open>x\<close> at most in its contents and counters.\<close>

definition same_ends :: "pipe \<Rightarrow> pipe \<Rightarrow> bool" where
  "same_ends x y \<longleftrightarrow> p_ref y = p_ref x \<and> p_readopen y = p_readopen x \<and> p_writeopen y = p_writeopen x"

lemma pipe_wait_room_exec:
  assumes "pipe_rep (pipes s p) q"
  shows "length q < 512 \<Longrightarrow> pipe_wait_room env p s = Inr (True, s)"
    "length q = 512 \<Longrightarrow> \<not> p_readopen (pipes s p) \<Longrightarrow> pipe_wait_room env p s = Inr (False, s\<lparr>pipe_lk := lock_init_val\<rparr>)"
  using pipe_rep_full [OF assms] by (simp_all add: pipe_wait_room_def iterate_unfold exec)

lemma pipe_write_steps:
  assumes "pipe_rep (pipes s p) q" "unat i + m \<le> unat n" "unat n < 2 ^ 31" "unat n \<le> length addr" "length q + m \<le> 512"
  shows "\<exists>y. iterate (pipe_write_step env p addr n) i s =
      iterate (pipe_write_step env p addr n) (i + of_nat m) (with_pipe p y s) \<and>
    pipe_rep y (q @ take m (drop (unat i) addr)) \<and> same_ends (pipes s p) y"
  using assms
proof (induction m arbitrary: i s q)
  case 0
  then show ?case by (intro exI [of _ "pipes s p"]) (simp add: same_ends_def)
next
  case (Suc m)
  let ?y = "(pipes s p)\<lparr>p_data := (p_data (pipes s p))(p_nwrite (pipes s p) mod 512 := addr ! unat i),
    p_nwrite := p_nwrite (pipes s p) + 1\<rparr>"
  have lt: "i < n" using Suc.prems(2) by (simp add: word_less_nat_alt)
  have i: "i <s n" using lt Suc.prems(2,3) by (subst sless_small) auto
  have i1: "unat (i + 1) = Suc (unat i)" by (rule unat_Suc_below [OF lt])
  have step: "pipe_write_step env p addr n i s = Inr (Inl (i + 1), with_pipe p ?y s)"
    using i pipe_wait_room_exec(1) [OF Suc.prems(1), of env] Suc.prems(2,4,5) by (simp add: pipe_write_step_def exec)
  have rep: "pipe_rep (pipes (with_pipe p ?y s) p) (q @ [addr ! unat i])"
    using pipe_rep_push [OF Suc.prems(1), of "addr ! unat i"] Suc.prems(5) by simp
  obtain y where y: "iterate (pipe_write_step env p addr n) (i + 1) (with_pipe p ?y s) =
      iterate (pipe_write_step env p addr n) (i + 1 + of_nat m) (with_pipe p y s)"
    "pipe_rep y ((q @ [addr ! unat i]) @ take m (drop (unat (i + 1)) addr))" "same_ends ?y y"
    using Suc.IH [OF rep, of "i + 1"] Suc.prems(2-5) by (auto simp: i1)
  have "addr ! unat i # take m (drop (Suc (unat i)) addr) = take (Suc m) (drop (unat i) addr)"
    using Suc.prems(2,4) by (simp add: Cons_nth_drop_Suc [symmetric])
  then show ?case
    using y by (intro exI [of _ y]) (simp add: iterate_next [of "pipe_write_step env p addr n", OF step] i1 same_ends_def add.assoc)
qed

lemma pipe_read_steps:
  assumes "pipe_rep (pipes s p) q" "unat i + m \<le> unat n" "unat n < 2 ^ 31" "unat n \<le> length addr" "m \<le> length q"
  shows "\<exists>y. iterate (pipe_read_step p n) (i, addr) s =
      iterate (pipe_read_step p n) (i + of_nat m, put (unat i) (take m q) addr) (with_pipe p y s) \<and>
    pipe_rep y (drop m q) \<and> same_ends (pipes s p) y"
  using assms
proof (induction m arbitrary: i s q addr)
  case 0
  then show ?case by (intro exI [of _ "pipes s p"]) (simp add: same_ends_def put_def)
next
  case (Suc m)
  then obtain c r where q: "q = c # r" by (cases q) auto
  let ?y = "(pipes s p)\<lparr>p_nread := p_nread (pipes s p) + 1\<rparr>"
  let ?a = "addr[unat i := c]"
  note pop = pipe_rep_pop [OF Suc.prems(1) [unfolded q]]
  have lt: "i < n" using Suc.prems(2) by (simp add: word_less_nat_alt)
  have i: "i <s n" using lt Suc.prems(2,3) by (subst sless_small) auto
  have i1: "unat (i + 1) = Suc (unat i)" by (rule unat_Suc_below [OF lt])
  have step: "pipe_read_step p n (i, addr) s = Inr (Inl (i + 1, ?a), with_pipe p ?y s)"
    using i pop(1,2) Suc.prems(2,4) by (simp add: pipe_read_step_def exec)
  have rep: "pipe_rep (pipes (with_pipe p ?y s) p) r" using pop(3) by simp
  obtain y where y: "iterate (pipe_read_step p n) (i + 1, ?a) (with_pipe p ?y s) =
      iterate (pipe_read_step p n) (i + 1 + of_nat m, put (unat (i + 1)) (take m r) ?a) (with_pipe p y s)"
    "pipe_rep y (drop m r)" "same_ends ?y y"
    using Suc.IH [OF rep, of "i + 1" ?a] Suc.prems(2-5) by (auto simp: i1 q)
  have "put (Suc (unat i)) (take m r) ?a = put (unat i) (take (Suc m) q) addr"
    by (rule nth_equalityI) (use Suc.prems(2,4,5) q in \<open>auto simp: nth_put nth_list_update nth_Cons'\<close>)
  then show ?case
    using y q by (intro exI [of _ y]) (simp add: iterate_next [of "pipe_read_step p n", OF step] i1 same_ends_def add.assoc)
qed

lemma same_ends_refl: "same_ends x x"
  by (simp add: same_ends_def)

text \<open>The last round of \<open>pipe_write\<close>: readers are woken up and the lock is released.\<close>

lemma pipe_write_last:
  assumes "sched_ok s xs"
  shows "\<exists>t ys. iterate (pipe_write_step env p addr n) n s = Inr (n, t) \<and> sched_ok t ys \<and>
    pipes t = pipes s \<and> pipe_lk t = lock_init_val"
proof -
  obtain T Q where w: "thread_wakeup (ChNread p) s = Inr ((), s\<lparr>TCBPool := T, TQueuePool := Q\<rparr>)"
    "sched_ok (s\<lparr>TCBPool := T, TQueuePool := Q\<rparr>) (xs @ filter (sleeps_on s (ChNread p)) (pages 1 NUM_IDS))"
    by (rule thread_wakeup_exec [OF assms refl])
  let ?t = "s\<lparr>TCBPool := T, TQueuePool := Q, pipe_lk := lock_init_val\<rparr>"
  have "sched_ok ?t (xs @ filter (sleeps_on s (ChNread p)) (pages 1 NUM_IDS))"
    using w(2) by (subst sched_ok_cong [of _ "s\<lparr>TCBPool := T, TQueuePool := Q\<rparr>"]) simp_all
  moreover have "iterate (pipe_write_step env p addr n) n s = Inr (n, ?t)"
    by (rule iterate_done) (simp add: pipe_write_step_def exec w(1) signed.less_irrefl)
  ultimately show ?thesis by (intro exI [of _ ?t]) auto
qed

lemma pipe_write_fits:
  assumes "sched_ok s xs" "pipe_lk s = lock_init_val" "pipe_rep (pipes s p) q" "unat n \<le> length addr" "length q + unat n \<le> 512"
  shows "\<exists>t ys. pipe_write env p addr n s = Inr (n, t) \<and> sched_ok t ys \<and> pipe_lk t = lock_init_val \<and>
    pipe_rep (pipes t p) (q @ take (unat n) addr) \<and> same_ends (pipes s p) (pipes t p) \<and> (\<forall>r. r \<noteq> p \<longrightarrow> pipes t r = pipes s r)"
proof -
  let ?h = "s\<lparr>pipe_lk := lock_held_val (kstack_cpu_idx s)\<rparr>"
  have h: "sched_ok ?h xs" "pipe_rep (pipes ?h p) q"
    using assms(1,3) by simp_all
  obtain y where y: "iterate (pipe_write_step env p addr n) 0 ?h =
      iterate (pipe_write_step env p addr n) (0 + of_nat (unat n)) (with_pipe p y ?h)"
    "pipe_rep y (q @ take (unat n) (drop (unat (0 :: u32)) addr))" "same_ends (pipes ?h p) y"
    using pipe_write_steps [OF h(2), of 0 "unat n" n addr env] assms(4,5) by auto
  have "sched_ok (with_pipe p y ?h) xs" using h(1) by simp
  from pipe_write_last [OF this, of env p addr n] obtain t ys where
    t: "iterate (pipe_write_step env p addr n) n (with_pipe p y ?h) = Inr (n, t)" "sched_ok t ys"
    "pipes t = pipes (with_pipe p y ?h)" "pipe_lk t = lock_init_val" by blast
  have "pipe_write env p addr n s = Inr (n, t)"
    using y(1) t(1) assms(2) sched_okD(1) [OF assms(1)] by (simp add: pipe_write_def exec)
  with t(2-4) y(2,3) show ?thesis by (intro exI [of _ t] exI [of _ ys]) simp
qed

text \<open>When the reader is gone, the pipe is filled and then the write fails.\<close>

lemma pipe_write_closed:
  assumes "sched_ok s xs" "pipe_lk s = lock_init_val" "pipe_rep (pipes s p) q" "unat n \<le> length addr" "unat n < 2 ^ 31"
    "512 < length q + unat n" "\<not> p_readopen (pipes s p)"
  shows "\<exists>t. pipe_write env p addr n s = Inr (-1, t) \<and> sched_ok t xs \<and> pipe_lk t = lock_init_val \<and>
    pipe_rep (pipes t p) (q @ take (512 - length q) addr)"
proof -
  let ?h = "s\<lparr>pipe_lk := lock_held_val (kstack_cpu_idx s)\<rparr>"
  let ?m = "512 - length q"
  have q: "length q \<le> 512" using assms(3) by (simp add: pipe_rep_def)
  have h: "sched_ok ?h xs" "pipe_rep (pipes ?h p) q"
    using assms(1,3) by simp_all
  obtain y where y: "iterate (pipe_write_step env p addr n) 0 ?h =
      iterate (pipe_write_step env p addr n) (0 + of_nat ?m) (with_pipe p y ?h)"
    "pipe_rep y (q @ take ?m (drop (unat (0 :: u32)) addr))" "same_ends (pipes ?h p) y"
    using pipe_write_steps [OF h(2), of 0 ?m n addr env] assms(4-6) q by auto
  let ?u = "with_pipe p y ?h"
  have u: "pipe_rep (pipes ?u p) (q @ take ?m addr)" "length (q @ take ?m addr) = 512" "\<not> p_readopen (pipes ?u p)"
    using y(2,3) assms(4,6,7) q by (simp_all add: same_ends_def)
  have m: "unat (of_nat ?m :: u32) = ?m" by (subst unat_of_nat) simp
  have lt: "(of_nat ?m :: u32) <s n"
    using assms(5,6) m q by (subst sless_small) (simp_all add: word_less_nat_alt)
  have "pipe_write_step env p addr n (of_nat ?m) ?u = Inr (Inr (-1), ?u\<lparr>pipe_lk := lock_init_val\<rparr>)"
    using pipe_wait_room_exec(2) [OF u, of env] lt by (simp add: pipe_write_step_def exec del: of_nat_diff)
  from iterate_done [of "pipe_write_step env p addr n", OF this] have "pipe_write env p addr n s = Inr (-1, ?u\<lparr>pipe_lk := lock_init_val\<rparr>)"
    using y(1) assms(2) sched_okD(1) [OF assms(1)] by (simp add: pipe_write_def exec del: of_nat_diff)
  moreover have "sched_ok (?u\<lparr>pipe_lk := lock_init_val\<rparr>) xs"
    using assms(1) by simp
  ultimately show ?thesis using u(1) by (intro exI [of _ "?u\<lparr>pipe_lk := lock_init_val\<rparr>"]) simp
qed

lemma pipe_read_last:
  assumes "pipe_rep (pipes s p) q" "unat i = m" "m = min (unat n) (m + length q)" "unat n < 2 ^ 31"
  shows "iterate (pipe_read_step p n) (i, addr) s = Inr ((i, addr), s)"
proof -
  have "i = n \<or> q = []" using assms(2,3) by (auto simp: min_def word_unat_eq_iff split: if_splits)
  then have "pipe_read_step p n (i, addr) s = Inr (Inr (i, addr), s)"
    using assms(1) by (auto simp: pipe_read_step_def exec signed.less_irrefl pipe_rep_empty)
  then show ?thesis by (rule iterate_done)
qed

lemma pipe_read_some:
  assumes "sched_ok s xs" "pipe_lk s = lock_init_val" "pipe_rep (pipes s p) q" "unat n \<le> length addr" "unat n < 2 ^ 31"
    "q \<noteq> [] \<or> \<not> p_writeopen (pipes s p)" and m_def: "m = min (unat n) (length q)"
  shows "\<exists>t ys. pipe_read env p addr n s = Inr ((of_nat m, take m q @ drop m addr), t) \<and> sched_ok t ys \<and>
    pipe_lk t = lock_init_val \<and> pipe_rep (pipes t p) (drop m q) \<and> same_ends (pipes s p) (pipes t p) \<and>
    (\<forall>r. r \<noteq> p \<longrightarrow> pipes t r = pipes s r)"
proof -
  let ?h = "s\<lparr>pipe_lk := lock_held_val (kstack_cpu_idx s)\<rparr>"
  have h: "sched_ok ?h xs" "pipe_rep (pipes ?h p) q"
    using assms(1,3) by simp_all
  have w: "pipe_wait_data env p ?h = Inr ((), ?h)"
    using assms(6) pipe_rep_pop(2) [of "pipes s p"] assms(3)
    by (cases q) (simp_all add: pipe_wait_data_def iterate_unfold exec)
  obtain y where y: "iterate (pipe_read_step p n) (0, addr) ?h =
      iterate (pipe_read_step p n) (0 + of_nat m, put (unat (0 :: u32)) (take m q) addr) (with_pipe p y ?h)"
    "pipe_rep y (drop m q)" "same_ends (pipes ?h p) y"
    using pipe_read_steps [OF h(2), of 0 m n addr] assms(4,5) by (auto simp: m_def)
  have m: "unat (of_nat m :: u32) = m" using assms(5) by (subst unat_of_nat) (simp add: m_def)
  have "pipe_rep (pipes (with_pipe p y ?h) p) (drop m q)" using y(2) by simp
  from pipe_read_last [OF this m, of n "put 0 (take m q) addr"] y(1) have
    r: "iterate (pipe_read_step p n) (0, addr) ?h = Inr ((of_nat m, put 0 (take m q) addr), with_pipe p y ?h)"
    using assms(5) by (simp add: m_def)
  have "sched_ok (with_pipe p y ?h) xs" using h(1) by simp
  from thread_wakeup_exec [OF this refl, of "ChNwrite p"] obtain T Q ys where
    k: "thread_wakeup (ChNwrite p) (with_pipe p y ?h) = Inr ((), (with_pipe p y ?h)\<lparr>TCBPool := T, TQueuePool := Q\<rparr>)"
    "sched_ok ((with_pipe p y ?h)\<lparr>TCBPool := T, TQueuePool := Q\<rparr>) ys" by blast
  let ?t = "(with_pipe p y ?h)\<lparr>TCBPool := T, TQueuePool := Q, pipe_lk := lock_init_val\<rparr>"
  have "pipe_read env p addr n s = Inr ((of_nat m, put 0 (take m q) addr), ?t)"
    using w r k(1) assms(2) sched_okD(1) [OF assms(1)] by (simp add: pipe_read_def exec)
  moreover have "sched_ok ?t ys"
    by (subst sched_ok_cong [of ?t "(with_pipe p y ?h)\<lparr>TCBPool := T, TQueuePool := Q\<rparr>"]) (use k(2) in simp_all)
  moreover have "put 0 (take m q) addr = take m q @ drop m addr" by (simp add: put_def m_def min_def)
  ultimately show ?thesis
    using y(2,3) by (intro exI [of _ ?t] exI [of _ ys]) simp
qed

section \<open>Properties\<close>


text \<open>Counters about to wrap around, two bytes in the pipe.\<close>

definition sample_pipe :: pipe where
  "sample_pipe = \<lparr>p_ref = 2, p_data = (\<lambda>_. 0)(511 := 65, 0 := 66), p_nread = -1, p_nwrite = 1, p_readopen = True, p_writeopen = True\<rparr>"

lemma sample_pipe_rep: "pipe_rep sample_pipe [65, 66]"
proof -
  have "(-1 :: u32) mod 512 = 511" "(511 :: u32) \<noteq> 0" by code_simp+
  then show ?thesis by (auto simp: pipe_rep_def sample_pipe_def less_Suc_eq)
qed


end
