(* ===== verification/User_Lib.thy ===== *)
theory User_Lib
  imports Printfmt
begin

text \<open>
  The library of the user programs (\<open>user/include/syscall.h\<close>, \<open>user/lib\<close>).

  A user program is a computation on the state of its process, with the same combinators as the kernel.
  It sees the kernel only through the software interrupt 48: \<open>os\<close> is the kernel's answer, which may depend
  in any way on the calls so far, and \<open>calls\<close> is the sequence of calls with their answers. A request
  carries what the kernel reads from the process (the text of a path, the bytes to write); an answer
  carries the two registers the wrappers read and what the kernel writes into the buffer of the call.

  A pointer to characters is the rest of the object it points into, terminating zero included. Reading or
  writing beyond the end of the object is the stop \<open>OutOfBounds\<close>. Nothing is assumed about what a local
  buffer holds before it is written (\<open>junk\<close>). \<open>stack_room\<close> is how many nested calls the stack has room for.
\<close>

section \<open>State\<close>

datatype sysreq =
    SYS_puts string
  | SYS_sync_send u32 string
  | SYS_sync_recv u32 u32
  | SYS_spawn u32 u32 u32 u32
  | SYS_yield
  | SYS_produce
  | SYS_consume
  | SYS_read u32 u32
  | SYS_write u32 string
  | SYS_pipe
  | SYS_close u32
  | SYS_stat u32
  | SYS_link string string
  | SYS_unlink string
  | SYS_open string u32
  | SYS_mkdir string
  | SYS_is_dir u32
  | SYS_chdir string
  | SYS_ls u32
  | SYS_pwd
  | SYS_cp string string string
  | SYS_mv
  | SYS_rm string u32
  | SYS_cat
  | SYS_touch
  | SYS_sigaction u32 u32 u32 u32
  | SYS_kill u32 u32
  | SYS_pause
  | SYS_exit
  | SYS_waitpid u32

record sysres =
  errno :: u32
  retval :: u32
  out :: string
  fds :: "u32 \<times> u32"

record uproc =
  os :: "(sysreq \<times> sysres) list \<Rightarrow> sysreq \<Rightarrow> sysres"
  calls :: "(sysreq \<times> sysres) list"
  shell_buf :: string
  junk :: "nat \<Rightarrow> char"
  stack_room :: nat
  signal_handler_at :: u32

abbreviation (input) NUL :: char where "NUL \<equiv> CHR 0x00"

text \<open>A string literal and an uninitialised local array.\<close>

definition lit :: "string \<Rightarrow> string" where
  "lit s = s @ [NUL]"

definition local_array :: "nat \<Rightarrow> ('z uproc_scheme, string) kop" where
  "local_array n = gets (\<lambda>s. map (junk s) [0..<n])"

section \<open>string.c\<close>

fun u_strlen :: "string \<Rightarrow> nat option" where
  "u_strlen [] = None"
| "u_strlen (c # cs) = (if c \<noteq> NUL then map_option Suc (u_strlen cs) else Some 0)"

fun u_strnlen :: "string \<Rightarrow> nat \<Rightarrow> nat option" where
  "u_strnlen s 0 = Some 0"
| "u_strnlen [] (Suc n) = None"
| "u_strnlen (c # cs) (Suc n) = (if c \<noteq> NUL then map_option Suc (u_strnlen cs n) else Some 0)"

text \<open>The functions that copy take the object \<open>dst\<close> points into and return it changed.\<close>

fun u_strcpy :: "string \<Rightarrow> string \<Rightarrow> string option" where
  "u_strcpy (d # ds) (c # cs) = (if c \<noteq> NUL then map_option (Cons c) (u_strcpy ds cs) else Some (c # ds))"
| "u_strcpy _ _ = None"

fun u_strncpy :: "string \<Rightarrow> string \<Rightarrow> nat \<Rightarrow> string option" where
  "u_strncpy ds cs 0 = Some ds"
| "u_strncpy (d # ds) (c # cs) (Suc n) = map_option (Cons c) (u_strncpy ds (if c \<noteq> NUL then cs else c # cs) n)"
| "u_strncpy _ _ (Suc n) = None"

text \<open>The copying loop of \<open>strlcpy\<close>, \<open>n\<close> being \<open>size - 1\<close>; the number of characters copied is returned too.\<close>

fun u_strlcpy_loop :: "string \<Rightarrow> string \<Rightarrow> nat \<Rightarrow> (string \<times> nat) option" where
  "u_strlcpy_loop [] cs n = None"
| "u_strlcpy_loop (d # ds) cs 0 = Some (NUL # ds, 0)"
| "u_strlcpy_loop (d # ds) [] (Suc n) = None"
| "u_strlcpy_loop (d # ds) (c # cs) (Suc n) =
     (if c \<noteq> NUL then map_option (\<lambda>(ds, k). (c # ds, Suc k)) (u_strlcpy_loop ds cs n) else Some (NUL # ds, 0))"

definition u_strlcpy :: "string \<Rightarrow> string \<Rightarrow> nat \<Rightarrow> (string \<times> nat) option" where
  "u_strlcpy dst src size' = (if size' > 0 then u_strlcpy_loop dst src (size' - 1) else Some (dst, 0))"

fun u_strcmp :: "string \<Rightarrow> string \<Rightarrow> int option" where
  "u_strcmp (p # ps) (q # qs) = (if p \<noteq> NUL \<and> p = q then u_strcmp ps qs else Some (of_char p - of_char q))"
| "u_strcmp _ _ = None"

fun u_strncmp :: "string \<Rightarrow> string \<Rightarrow> nat \<Rightarrow> int option" where
  "u_strncmp ps qs 0 = Some 0"
| "u_strncmp (p # ps) (q # qs) (Suc n) = (if p \<noteq> NUL \<and> p = q then u_strncmp ps qs n else Some (of_char p - of_char q))"
| "u_strncmp _ _ (Suc n) = None"

text \<open>The rest of the string from the character on; \<open>Some None\<close> is the null pointer.\<close>

fun u_strchr :: "string \<Rightarrow> char \<Rightarrow> string option option" where
  "u_strchr [] c = None"
| "u_strchr (d # ds) c = (if d \<noteq> NUL then if d = c then Some (Some (d # ds)) else u_strchr ds c else Some None)"

fun u_strfind :: "string \<Rightarrow> char \<Rightarrow> string option" where
  "u_strfind [] c = None"
| "u_strfind (d # ds) c = (if d \<noteq> NUL \<and> d \<noteq> c then u_strfind ds c else Some (d # ds))"

fun u_memcmp :: "string \<Rightarrow> string \<Rightarrow> nat \<Rightarrow> int option" where
  "u_memcmp ps qs 0 = Some 0"
| "u_memcmp (p # ps) (q # qs) (Suc n) = (if p \<noteq> q then Some (of_char p - of_char q) else u_memcmp ps qs n)"
| "u_memcmp _ _ (Suc n) = None"

fun u_memchr :: "string \<Rightarrow> char \<Rightarrow> nat \<Rightarrow> string option option" where
  "u_memchr s c 0 = Some None"
| "u_memchr [] c (Suc n) = None"
| "u_memchr (d # ds) c (Suc n) = (if d = c then Some (Some (d # ds)) else u_memchr ds c n)"

text \<open>The text of a string, for a call that reads it, and storing into a buffer.\<close>

definition text_of :: "string \<Rightarrow> ('s, string) kop" where
  "text_of p = opt_bounds (map_option (\<lambda>n. take n p) (u_strlen p))"

definition store :: "nat \<Rightarrow> string \<Rightarrow> string \<Rightarrow> string option" where
  "store i cs buf = (if i + length cs \<le> length buf then Some (take i buf @ cs @ drop (i + length cs) buf) else None)"

definition strcpy_at :: "string \<Rightarrow> nat \<Rightarrow> string \<Rightarrow> string option" where
  "strcpy_at buf i src = (if i \<le> length buf then map_option (\<lambda>r. take i buf @ r) (u_strcpy (drop i buf) src) else None)"

section \<open>syscall.h\<close>

definition int48 :: "sysreq \<Rightarrow> ('z uproc_scheme, sysres) kop" where
  "int48 r = bind (gets (\<lambda>s. os s (calls s) r)) (\<lambda>a. seq (modify (\<lambda>s. s\<lparr>calls := calls s @ [(r, a)]\<rparr>)) (ret a))"

text \<open>What most wrappers return: -1 when there was an error.\<close>

definition or_error :: "sysreq \<Rightarrow> (sysres \<Rightarrow> u32) \<Rightarrow> ('z uproc_scheme, u32) kop" where
  "or_error r f = bind (int48 r) (\<lambda>a. ret (if errno a \<noteq> 0 then -1 else f a))"

definition sys_puts :: "string \<Rightarrow> u32 \<Rightarrow> ('z uproc_scheme, unit) kop" where
  "sys_puts s len = seq (in_bounds (unat len \<le> length s)) (seq (int48 (SYS_puts (take (unat len) s))) (ret ()))"

definition sys_sync_send :: "u32 \<Rightarrow> string \<Rightarrow> u32 \<Rightarrow> ('z uproc_scheme, unit) kop" where
  "sys_sync_send recv_pid addr len =
     seq (in_bounds (unat len \<le> length addr)) (seq (int48 (SYS_sync_send recv_pid (take (unat len) addr))) (ret ()))"

text \<open>A call that fills a buffer returns its result and the buffer.\<close>

definition fills :: "sysreq \<Rightarrow> (sysres \<Rightarrow> u32) \<Rightarrow> string \<Rightarrow> ('z uproc_scheme, u32 \<times> string) kop" where
  "fills r f buf =
     bind (int48 r) (\<lambda>a.
     bind (opt_bounds (store 0 (out a) buf)) (\<lambda>buf.
     ret (if errno a \<noteq> 0 then -1 else f a, buf)))"

definition sys_sync_receive :: "u32 \<Rightarrow> string \<Rightarrow> u32 \<Rightarrow> ('z uproc_scheme, u32 \<times> string) kop" where
  "sys_sync_receive send_pid addr len = fills (SYS_sync_recv send_pid len) retval addr"

definition sys_spawn :: "u32 \<Rightarrow> u32 \<Rightarrow> u32 \<Rightarrow> u32 \<Rightarrow> ('z uproc_scheme, u32) kop" where
  "sys_spawn exec quota stdin_fd stdout_fd = or_error (SYS_spawn exec quota stdin_fd stdout_fd) retval"

definition sys_yield :: "('z uproc_scheme, unit) kop" where
  "sys_yield = seq (int48 SYS_yield) (ret ())"

definition sys_produce :: "('z uproc_scheme, unit) kop" where
  "sys_produce = seq (int48 SYS_produce) (ret ())"

definition sys_consume :: "('z uproc_scheme, unit) kop" where
  "sys_consume = seq (int48 SYS_consume) (ret ())"

definition sys_read :: "u32 \<Rightarrow> string \<Rightarrow> u32 \<Rightarrow> ('z uproc_scheme, u32 \<times> string) kop" where
  "sys_read fd buf n = fills (SYS_read fd n) retval buf"

definition sys_write :: "u32 \<Rightarrow> string \<Rightarrow> u32 \<Rightarrow> ('z uproc_scheme, u32) kop" where
  "sys_write fd p n = seq (in_bounds (unat n \<le> length p)) (or_error (SYS_write fd (take (unat n) p)) retval)"

definition sys_pipe :: "('z uproc_scheme, u32 \<times> u32 \<times> u32) kop" where
  "sys_pipe = bind (int48 SYS_pipe) (\<lambda>a. ret (if errno a \<noteq> 0 then -1 else 0, fds a))"

definition sys_close :: "u32 \<Rightarrow> ('z uproc_scheme, u32) kop" where
  "sys_close fd = or_error (SYS_close fd) (\<lambda>_. 0)"

definition sys_fstat :: "u32 \<Rightarrow> string \<Rightarrow> ('z uproc_scheme, u32 \<times> string) kop" where
  "sys_fstat fd st = fills (SYS_stat fd) (\<lambda>_. 0) st"

definition sys_link :: "string \<Rightarrow> string \<Rightarrow> ('z uproc_scheme, u32) kop" where
  "sys_link old new = bind (text_of old) (\<lambda>old. bind (text_of new) (\<lambda>new. or_error (SYS_link old new) (\<lambda>_. 0)))"

definition sys_unlink :: "string \<Rightarrow> ('z uproc_scheme, u32) kop" where
  "sys_unlink path = bind (text_of path) (\<lambda>path. or_error (SYS_unlink path) (\<lambda>_. 0))"

definition sys_open :: "string \<Rightarrow> u32 \<Rightarrow> ('z uproc_scheme, u32) kop" where
  "sys_open path omode = bind (text_of path) (\<lambda>path. or_error (SYS_open path omode) retval)"

definition sys_mkdir :: "string \<Rightarrow> ('z uproc_scheme, u32) kop" where
  "sys_mkdir path = bind (text_of path) (\<lambda>path. or_error (SYS_mkdir path) (\<lambda>_. 0))"

definition sys_is_dir :: "u32 \<Rightarrow> ('z uproc_scheme, u32) kop" where
  "sys_is_dir fd = or_error (SYS_is_dir fd) retval"

definition sys_chdir :: "string \<Rightarrow> ('z uproc_scheme, u32) kop" where
  "sys_chdir path = bind (text_of path) (\<lambda>path. or_error (SYS_chdir path) (\<lambda>_. 0))"

definition sys_readline :: "string \<Rightarrow> ('z uproc_scheme, u32 \<times> string) kop" where
  "sys_readline buf =
     bind (sys_read 0 buf 1024) (\<lambda>(n, buf).
     if 0 <s n then bind (opt_bounds (store (unat n) [NUL] buf)) (\<lambda>buf. ret (0, buf)) else ret (-1, buf))"

definition sys_ls :: "string \<Rightarrow> u32 \<Rightarrow> ('z uproc_scheme, u32 \<times> string) kop" where
  "sys_ls buf buf_len = fills (SYS_ls buf_len) retval buf"

definition sys_pwd :: "string \<Rightarrow> ('z uproc_scheme, u32 \<times> string) kop" where
  "sys_pwd buf = fills SYS_pwd (\<lambda>_. 0) buf"

definition sys_cp :: "string \<Rightarrow> string \<Rightarrow> string \<Rightarrow> ('z uproc_scheme, u32) kop" where
  "sys_cp path1 path2 path3 = or_error (SYS_cp path1 path2 path3) (\<lambda>_. 0)"

definition sys_mv :: "('z uproc_scheme, u32) kop" where
  "sys_mv = or_error SYS_mv (\<lambda>_. 0)"

definition sys_rm :: "u32 \<Rightarrow> string \<Rightarrow> ('z uproc_scheme, u32) kop" where
  "sys_rm isRecursive path = bind (text_of path) (\<lambda>path. or_error (SYS_rm path isRecursive) (\<lambda>_. 0))"

definition sys_cat :: "('z uproc_scheme, u32) kop" where
  "sys_cat = or_error SYS_cat (\<lambda>_. 0)"

definition sys_touch :: "('z uproc_scheme, u32) kop" where
  "sys_touch = or_error SYS_touch (\<lambda>_. 0)"

text \<open>Of \<open>struct sigaction\<close> the programs set the handler, the flags and the mask.\<close>

record sigaction_t =
  sa_handler :: u32
  sa_flags :: u32
  sa_mask :: u32

definition sys_sigaction :: "u32 \<Rightarrow> sigaction_t \<Rightarrow> ('z uproc_scheme, u32) kop" where
  "sys_sigaction signum act = or_error (SYS_sigaction signum (sa_handler act) (sa_flags act) (sa_mask act)) (\<lambda>_. 0)"

definition sys_kill :: "u32 \<Rightarrow> u32 \<Rightarrow> ('z uproc_scheme, u32) kop" where
  "sys_kill pid signum = or_error (SYS_kill pid signum) (\<lambda>_. 0)"

definition sys_pause :: "('z uproc_scheme, u32) kop" where
  "sys_pause = or_error SYS_pause (\<lambda>_. 0)"

definition sys_exit :: "('z uproc_scheme, unit) kop" where
  "sys_exit = seq (int48 SYS_exit) (ret ())"

definition sys_waitpid :: "u32 \<Rightarrow> ('z uproc_scheme, unit) kop" where
  "sys_waitpid pid = seq (int48 (SYS_waitpid pid)) (ret ())"

section \<open>proc.c, signal.c, printf.c, debug.c and entry.S\<close>

definition spawn :: "u32 \<Rightarrow> u32 \<Rightarrow> ('z uproc_scheme, u32) kop" where
  "spawn exec quota = sys_spawn exec quota (-1) (-1)"

definition spawn_with_fds :: "u32 \<Rightarrow> u32 \<Rightarrow> u32 \<Rightarrow> u32 \<Rightarrow> ('z uproc_scheme, u32) kop" where
  "spawn_with_fds exec quota stdin_fd stdout_fd = sys_spawn exec quota stdin_fd stdout_fd"

definition yield :: "('z uproc_scheme, unit) kop" where
  "yield = sys_yield"

definition produce :: "('z uproc_scheme, unit) kop" where
  "produce = sys_produce"

definition consume :: "('z uproc_scheme, unit) kop" where
  "consume = sys_consume"

definition sigaction :: "u32 \<Rightarrow> sigaction_t \<Rightarrow> ('z uproc_scheme, u32) kop" where
  "sigaction signum act = sys_sigaction signum act"

definition kill :: "u32 \<Rightarrow> u32 \<Rightarrow> ('z uproc_scheme, u32) kop" where
  "kill pid signum = sys_kill pid signum"

definition pause :: "('z uproc_scheme, u32) kop" where
  "pause = sys_pause"

text \<open>\<open>puts\<close> is the macro of \<open>stdio.h\<close>; \<open>vcprintf\<close> calls it for each buffer full.\<close>

definition puts :: "string \<Rightarrow> ('z uproc_scheme, unit) kop" where
  "puts s = seq (sys_write 1 s (of_nat (length s))) (ret ())"

definition printf :: "string \<Rightarrow> va list \<Rightarrow> ('z uproc_scheme, u32) kop" where
  "printf fmt ap =
     bind (opt_bounds (vcprintf fmt ap)) (\<lambda>(chunks, cnt).
     seq (block (map puts chunks)) (ret (of_nat cnt)))"

definition print :: "string \<Rightarrow> ('z uproc_scheme, unit) kop" where
  "print s = seq (printf s []) (ret ())"

text \<open>\<^verbatim>\<open>printf(fmt, p)\<close> for a pointer to a string, and for a number.\<close>

definition print_str :: "string \<Rightarrow> string \<Rightarrow> ('z uproc_scheme, unit) kop" where
  "print_str fmt p = bind (text_of p) (\<lambda>t. seq (printf fmt [VStr (Some t)]) (ret ()))"

definition print_num :: "string \<Rightarrow> u32 \<Rightarrow> ('z uproc_scheme, unit) kop" where
  "print_num fmt n = seq (printf fmt [VWord n]) (ret ())"

definition u_debug :: "string \<Rightarrow> u32 \<Rightarrow> string \<Rightarrow> va list \<Rightarrow> ('z uproc_scheme, unit) kop" where
  "u_debug file line fmt ap =
     seq (printf ''[D] %s:%d: '' [VStr (Some file), VWord line]) (seq (printf fmt ap) (ret ()))"

definition u_warn :: "string \<Rightarrow> u32 \<Rightarrow> string \<Rightarrow> va list \<Rightarrow> ('z uproc_scheme, unit) kop" where
  "u_warn file line fmt ap =
     seq (printf ''[W] %s:%d: '' [VStr (Some file), VWord line]) (seq (printf fmt ap) (ret ()))"

definition u_panic :: "string \<Rightarrow> u32 \<Rightarrow> string \<Rightarrow> va list \<Rightarrow> ('z uproc_scheme, unit) kop" where
  "u_panic file line fmt ap =
     seq (printf ''[P] %s:%d: '' [VStr (Some file), VWord line])
     (seq (printf fmt ap)
     (iterate (\<lambda>_. seq yield (ret (Inl ()))) ()))"

text \<open>A program started by the kernel: its main function, then the exit call, then yielding for ever.\<close>

definition start :: "('z uproc_scheme, 'a) kop \<Rightarrow> ('z uproc_scheme, unit) kop" where
  "start main = seq main (seq sys_exit (iterate (\<lambda>_. seq yield (ret (Inl ()))) ()))"

section \<open>Reasoning about the calls of a program\<close>

lemma int48_exec [exec]:
  "int48 r s = Inr (os s (calls s) r, s\<lparr>calls := calls s @ [(r, os s (calls s) r)]\<rparr>)"
  by (simp add: int48_def exec)

text \<open>The state after the further calls \<open>h\<close>, and that a computation returns having only made calls.\<close>

definition after :: "'z uproc_scheme \<Rightarrow> (sysreq \<times> sysres) list \<Rightarrow> 'z uproc_scheme" where
  "after s h = s\<lparr>calls := calls s @ h\<rparr>"

lemma after_simps [simp]:
  "os (after s h) = os s" "junk (after s h) = junk s" "shell_buf (after s h) = shell_buf s"
  "calls (after s h) = calls s @ h" "after (after s h) h' = after s (h @ h')" "after s [] = s"
  by (simp_all add: after_def)

definition runs :: "'z uproc_scheme \<Rightarrow> ('z uproc_scheme, 'a) kop \<Rightarrow> ('a \<Rightarrow> (sysreq \<times> sysres) list \<Rightarrow> bool) \<Rightarrow> bool" where
  "runs s m Q \<longleftrightarrow> (\<exists>a h. m s = Inr (a, after s h) \<and> Q a h)"

lemma runsI: "m s = Inr (a, after s h) \<Longrightarrow> Q a h \<Longrightarrow> runs s m Q"
  by (auto simp: runs_def)

lemma runs_ret: "Q a [] \<Longrightarrow> runs s (ret a) Q"
  by (rule runsI [where h = "[]"]) (simp_all add: exec)

lemma runs_bind:
  assumes "runs s m P" and "\<And>a h. P a h \<Longrightarrow> runs (after s h) (f a) (\<lambda>b h'. Q b (h @ h'))"
  shows "runs s (bind m f) Q"
proof -
  obtain a h where 1: "m s = Inr (a, after s h)" "P a h" using assms(1) by (auto simp: runs_def)
  obtain b h' where 2: "f a (after s h) = Inr (b, after (after s h) h')" "Q b (h @ h')"
    using assms(2) [OF 1(2)] by (auto simp: runs_def)
  from 1 2 show ?thesis by (intro runsI [where a = b and h = "h @ h'"]) (simp_all add: exec)
qed

lemma runs_seq:
  assumes "runs s m P" and "\<And>a h. P a h \<Longrightarrow> runs (after s h) n (\<lambda>b h'. Q b (h @ h'))"
  shows "runs s (seq m n) Q"
  using runs_bind [OF assms] by (simp add: seq_def)

lemma runs_weaken: "runs s m P \<Longrightarrow> (\<And>a h. P a h \<Longrightarrow> Q a h) \<Longrightarrow> runs s m Q"
  by (auto simp: runs_def)

lemma runs_when: "(b \<Longrightarrow> runs s m Q) \<Longrightarrow> (\<not> b \<Longrightarrow> Q () []) \<Longrightarrow> runs s (when_true b m) Q"
  by (cases b) (auto simp: when_true_def intro: runs_ret)

lemma runs_in_bounds: "b \<Longrightarrow> Q () [] \<Longrightarrow> runs s (in_bounds b) Q"
  by (rule runsI [where h = "[]"]) (simp_all add: exec)

lemma runs_opt: "r = Some a \<Longrightarrow> Q a [] \<Longrightarrow> runs s (opt_bounds r) Q"
  by (rule runsI [where h = "[]"]) (simp_all add: exec)

lemma runs_gets: "Q (f s) [] \<Longrightarrow> runs s (gets f) Q"
  by (rule runsI [where h = "[]"]) (simp_all add: exec)

lemma runs_int48: "Q (os s (calls s) r) [(r, os s (calls s) r)] \<Longrightarrow> runs s (int48 r) Q"
  by (rule runsI [where h = "[(r, os s (calls s) r)]"]) (simp_all add: exec after_def)

lemma runs_or_error:
  assumes "\<And>a. a = os s (calls s) r \<Longrightarrow> Q (if errno a \<noteq> 0 then -1 else f a) [(r, a)]"
  shows "runs s (or_error r f) Q"
  unfolding or_error_def by (rule runs_bind [OF runs_int48 [where Q = "\<lambda>a h. a = os s (calls s) r \<and> h = [(r, a)]"]])
    (use assms [OF refl] in \<open>auto intro!: runs_ret\<close>)

text \<open>Printing: only writes to standard output.\<close>

definition only_prints :: "(sysreq \<times> sysres) list \<Rightarrow> bool" where
  "only_prints h \<longleftrightarrow> (\<forall>(r, a) \<in> set h. \<exists>d. r = SYS_write 1 d)"

lemma only_prints_simps [simp]: "only_prints []" "only_prints (h @ h') \<longleftrightarrow> only_prints h \<and> only_prints h'"
  by (auto simp: only_prints_def)

lemma runs_puts: "runs s (puts c) (\<lambda>_. only_prints)"
proof -
  have "unat (of_nat (length c) :: u32) \<le> length c" by (simp add: unat_of_nat take_bit_eq_mod)
  then show ?thesis unfolding puts_def sys_write_def
    by (intro runs_seq runs_in_bounds runs_or_error runs_ret) (auto simp: only_prints_def)
qed

lemma runs_block_puts: "runs s (block (map puts cs)) (\<lambda>_. only_prints)"
proof (induction cs arbitrary: s)
  case Nil
  show ?case by (rule runsI [where h = "[]"]) (simp_all add: exec)
next
  case (Cons c cs)
  show ?case unfolding list.map block.simps
    by (rule runs_seq [OF runs_puts]) (rule runs_weaken [OF Cons], simp)
qed

lemma runs_printf:
  assumes "user_vprintfmt fmt ap \<noteq> None"
  shows "runs s (printf fmt ap) (\<lambda>_. only_prints)"
proof -
  obtain chunks n where "vcprintf fmt ap = Some (chunks, n)" using assms by (auto simp: vcprintf_def Let_def)
  then show ?thesis unfolding printf_def
    by (intro runs_bind [OF runs_opt [where Q = "\<lambda>r h. r = (chunks, n) \<and> h = []"]])
      (auto intro!: runs_seq runs_ret runs_block_puts)
qed

lemma format_append: "CHR ''%'' \<notin> set pre \<Longrightarrow> format b (pre @ fmt) ap = emit pre (format b fmt ap)"
  by (induction pre) (cases "format b fmt ap"; auto simp: emit_def)+

lemma format_plain: "CHR ''%'' \<notin> set fmt \<Longrightarrow> format b fmt ap = Some fmt"
  using format_append [of fmt b "[]" ap] by (simp add: emit_def)

lemma format_str: "format b (''%s'' @ fmt) (VStr p # ap) = emit (print_string fmt_init p) (format b fmt ap)"
  by (simp add: set_flag_def is_digit_def digit_val_def conversion_def)

lemma format_num: "format b (''%d'' @ fmt) (VWord w # ap) \<noteq> None \<longleftrightarrow> format b fmt ap \<noteq> None"
  by (simp add: set_flag_def is_digit_def digit_val_def conversion_def number_def fmt_init_def emit_def)

lemma runs_print: "CHR ''%'' \<notin> set fmt \<Longrightarrow> runs s (print fmt) (\<lambda>_. only_prints)"
  unfolding print_def
  by (intro runs_seq [OF runs_printf] runs_ret) (simp_all add: user_vprintfmt_def format_plain)

lemma text_of_exec: "NUL \<in> set p \<Longrightarrow> text_of p s = Inr (takeWhile (\<lambda>c. c \<noteq> NUL) p, s)"
proof -
  have "NUL \<in> set p \<Longrightarrow> u_strlen p = Some (length (takeWhile (\<lambda>c. c \<noteq> NUL) p))"
    by (induction p) auto
  then show "NUL \<in> set p \<Longrightarrow> text_of p s = Inr (takeWhile (\<lambda>c. c \<noteq> NUL) p, s)"
    by (simp add: text_of_def exec flip: takeWhile_eq_take)
qed

lemma runs_text: "NUL \<in> set p \<Longrightarrow> Q (takeWhile (\<lambda>c. c \<noteq> NUL) p) [] \<Longrightarrow> runs s (text_of p) Q"
  by (rule runsI [where h = "[]"]) (simp_all add: text_of_exec)

lemma runs_print_str:
  assumes "NUL \<in> set p" "CHR ''%'' \<notin> set pre" "CHR ''%'' \<notin> set post"
  shows "runs s (print_str (pre @ ''%s'' @ post) p) (\<lambda>_. only_prints)"
proof -
  have "user_vprintfmt (pre @ ''%s'' @ post) [VStr (Some t)] \<noteq> None" for t
    unfolding user_vprintfmt_def format_append [OF assms(2)] format_str format_plain [OF assms(3)] by (simp add: emit_def)
  then show ?thesis unfolding print_str_def
    by (intro runs_bind [OF runs_text [OF assms(1), where Q = "\<lambda>_ h. h = []"]] runs_seq [OF runs_printf] runs_ret) auto
qed

lemma runs_print_num:
  assumes "CHR ''%'' \<notin> set pre" "CHR ''%'' \<notin> set post"
  shows "runs s (print_num (pre @ ''%d'' @ post) n) (\<lambda>_. only_prints)"
proof -
  have "format False (''%d'' @ post) [VWord n] \<noteq> None" unfolding format_num by (simp add: format_plain [OF assms(2)])
  then have "user_vprintfmt (pre @ ''%d'' @ post) [VWord n] \<noteq> None"
    unfolding user_vprintfmt_def format_append [OF assms(1)] by (simp add: emit_def)
  then show ?thesis unfolding print_num_def by (intro runs_seq [OF runs_printf] runs_ret) auto
qed

end
