(* ===== verification/Shell.thy ===== *)
theory Shell
  imports User_Lib
begin

unbundle bit_operations_syntax

text \<open>
  The shell (\<open>user/shell/shell.c\<close>): its built-in commands, the parser of a command line and the launching
  of pipelines. The arguments of a command are a list of strings; \<open>argc\<close> is its length, and the entry
  behind the last one is the null pointer. Functions that fill a buffer of the caller return it.
\<close>

abbreviation (input) O_RDONLY :: u32 where "O_RDONLY \<equiv> 0"
abbreviation (input) O_RDWR :: u32 where "O_RDWR \<equiv> 2"
abbreviation (input) O_CREATE :: u32 where "O_CREATE \<equiv> 0x200"
abbreviation (input) BUFLEN :: nat where "BUFLEN \<equiv> 1024"
abbreviation (input) MAXARGS :: nat where "MAXARGS \<equiv> 16"

section \<open>Small helpers\<close>

definition arg :: "string list \<Rightarrow> nat \<Rightarrow> ('z uproc_scheme, string) kop" where
  "arg argv i = seq (in_bounds (i < length argv)) (ret (argv ! i))"

text \<open>\<^verbatim>\<open>strcmp(p, "...") == 0\<close>, and a disjunction of such tests.\<close>

definition str_is :: "string \<Rightarrow> string \<Rightarrow> ('z uproc_scheme, bool) kop" where
  "str_is p s = bind (opt_bounds (u_strcmp p (lit s))) (\<lambda>r. ret (r = 0))"

primrec is_one_of :: "string \<Rightarrow> string list \<Rightarrow> ('z uproc_scheme, bool) kop" where
  "is_one_of p [] = ret False"
| "is_one_of p (s # ss) = bind (str_is p s) (\<lambda>b. if b then ret True else is_one_of p ss)"

definition str_to_int :: "string \<Rightarrow> ('z uproc_scheme, u32) kop" where
  "str_to_int p = bind (text_of p) (\<lambda>s. ret (case atoi s of None \<Rightarrow> 0 | Some (_, v) \<Rightarrow> v))"

definition getpid :: "('z uproc_scheme, u32) kop" where
  "getpid = ret 1"

abbreviation (input) LF :: char where "LF \<equiv> CHR 0x0A"
abbreviation (input) TAB :: char where "TAB \<equiv> CHR 0x09"

definition line :: "string \<Rightarrow> string" where
  "line s = s @ [LF]"

text \<open>Names and descriptions of the table \<open>commands\<close>.\<close>

definition commands :: "(string \<times> string) list" where
  "commands = [
     (''ls'', ''list all files and directories under working directory''),
     (''pwd'', ''print working directory''),
     (''cd'', ''cd <path> '' @ [LF, TAB] @ '' change directory''),
     (''cp'', ''cp <-r> <src_path> <dest_path> '' @ [LF, TAB] @ '' copy file or directory ''),
     (''mv'', ''mv <src_path> <dest_path> '' @ [LF, TAB] @ '' move file or directory''),
     (''rm'', ''rm <-r> <filename> '' @ [LF, TAB] @ '' remove file or directory''),
     (''mkdir'', ''mkdir <dirname> '' @ [LF, TAB] @ '' create directory''),
     (''cat'', ''cat <filename> '' @ [LF, TAB] @ '' print file content''),
     (''biral'', ''biral <filename> '' @ [LF, TAB] @ '' print file content''),
     (''touch'', ''touch <filename> '' @ [LF, TAB] @ '' create new empty file''),
     (''write'', ''write <string> <filename> '' @ [LF, TAB] @ '' write a string to file''),
     (''append'', ''append <string> <filename> '' @ [LF, TAB] @ '' append a string to file''),
     (''help'', ''help '' @ [LF, TAB] @ '' print this help message'' @ [LF, TAB] @
        '' process commands: LS, CAT, ROT13, and pipelines with |''),
     (''kill'', ''kill <signal> <pid> '' @ [LF, TAB] @ '' send signal to process''),
     (''trap'', ''trap <signum> <handler> '' @ [LF, TAB] @ '' register signal handler''),
     (''spawn'', ''spawn <elf_id> '' @ [LF, TAB] @
        '' spawn a new process (1=ping, 2=pong, 3=ding, 4=fstest, 5=shell, 6=cat, 7=rot13, 8=echo, 9=ls)'')]"

section \<open>Files and directories\<close>

definition is_file_exist :: "string \<Rightarrow> ('z uproc_scheme, bool) kop" where
  "is_file_exist path =
     bind (sys_open path O_RDONLY) (\<lambda>fd.
     if fd = -1 then ret False else seq (sys_close fd) (ret True))"

definition is_dir :: "string \<Rightarrow> ('z uproc_scheme, u32) kop" where
  "is_dir path =
     bind (is_file_exist path) (\<lambda>e.
     if \<not> e then ret 0
     else bind (sys_open path O_RDONLY) (\<lambda>fd.
       if fd <s 0 then ret 0
       else bind (sys_is_dir fd) (\<lambda>isDir. seq (sys_close fd) (ret isDir))))"

text \<open>The names of a directory, each followed by a zero instead of a blank. The loop reads \<open>len\<close> characters.\<close>

definition split_names :: "u32 \<Rightarrow> string \<Rightarrow> string option" where
  "split_names len buf =
     (if sint len \<le> int (length buf)
      then Some (map (\<lambda>c. if c = CHR '' '' then NUL else c) (take (nat (sint len)) buf) @ drop (nat (sint len)) buf)
      else None)"

definition ls_dir :: "string \<Rightarrow> string option \<Rightarrow> ('z uproc_scheme, u32 \<times> string) kop" where
  "ls_dir buf path =
     bind (case path of
         None \<Rightarrow> sys_ls buf (of_nat BUFLEN)
       | Some path \<Rightarrow>
           bind (local_array BUFLEN) (\<lambda>pwd.
           bind (sys_pwd pwd) (\<lambda>(_, pwd).
           seq (sys_chdir path)
           (bind (sys_ls buf (of_nat BUFLEN)) (\<lambda>r.
           seq (sys_chdir pwd) (ret r)))))) (\<lambda>(len, buf).
     bind (opt_bounds (split_names len buf)) (\<lambda>buf. ret (len, buf)))"

definition is_dir_empty :: "('z uproc_scheme, bool) kop" where
  "is_dir_empty =
     bind (gets shell_buf) (\<lambda>b.
     bind (ls_dir b None) (\<lambda>(len, b).
     seq (modify (\<lambda>s. s\<lparr>shell_buf := b\<rparr>)) (ret (len = 5))))"

definition rm_file :: "string \<Rightarrow> ('z uproc_scheme, u32) kop" where
  "rm_file filename =
     bind (sys_unlink filename) (\<lambda>err.
     seq (when_true (err = -1) (print_str (line ''rm: can not remove %s: sys_unlink error.'') filename)) (ret err))"

definition cp_file :: "string \<Rightarrow> string \<Rightarrow> ('z uproc_scheme, u32) kop" where
  "cp_file dest_filename src_filename =
     bind (is_dir src_filename) (\<lambda>d.
     if d \<noteq> 0 then seq (sys_mkdir dest_filename) (ret 0)
     else
       bind (sys_open src_filename O_RDONLY) (\<lambda>fd.
       bind (local_array 1000) (\<lambda>buf.
       bind (sys_read fd buf 1000) (\<lambda>(_, buf).
       seq (sys_close fd)
       (bind (sys_open dest_filename (O_CREATE OR O_RDWR)) (\<lambda>fd.
        bind (opt_bounds (u_strlen buf)) (\<lambda>n.
        seq (sys_write fd buf (of_nat n)) (seq (sys_close fd) (ret 0)))))))))"

text \<open>The loop that searches the last slash from the end.\<close>

function last_slash :: "string \<Rightarrow> int \<Rightarrow> int" where
  "last_slash path pos = (if 0 \<le> pos \<and> path ! nat pos \<noteq> CHR ''/'' then last_slash path (pos - 1) else pos)"
  by pat_completeness auto
termination by (relation "measure (\<lambda>(_, pos). nat (pos + 1))") auto

definition extract_filename :: "string \<Rightarrow> string \<Rightarrow> ('z uproc_scheme, u32 \<times> string) kop" where
  "extract_filename path filename =
     bind (opt_bounds (u_strlen path)) (\<lambda>n.
     if n = 0 then ret (0, filename)
     else
       let start = nat (last_slash path (int n - 1) + 1) in
       bind (opt_bounds (u_strncpy filename (drop start path) (n - start))) (\<lambda>filename.
       ret (of_nat (n - start), filename)))"

text \<open>\<^verbatim>\<open>strcpy(path, dir); p = path + strlen(path); *(p++) = '/'; strcpy(p, name);\<close>\<close>

definition join_path :: "string \<Rightarrow> string \<Rightarrow> string \<Rightarrow> ('z uproc_scheme, string) kop" where
  "join_path path dir name =
     bind (opt_bounds (u_strcpy path dir)) (\<lambda>path.
     bind (opt_bounds (u_strlen path)) (\<lambda>n.
     bind (opt_bounds (store n ''/'' path)) (\<lambda>path.
     opt_bounds (strcpy_at path (n + 1) name))))"

section \<open>cp, mv and rm\<close>

text \<open>\<open>_shell_cp\<close>; the first argument is the number of nested calls that fit on the stack.\<close>

primrec do_shell_cp :: "nat \<Rightarrow> string \<Rightarrow> string \<Rightarrow> bool \<Rightarrow> ('z uproc_scheme, u32) kop" where
  "do_shell_cp 0 dest_path src_path isRecursive = stop_with OutOfBounds"
| "do_shell_cp (Suc room) dest_path src_path isRecursive =
     bind (local_array BUFLEN) (\<lambda>path.
     bind (local_array 100) (\<lambda>filename.
     bind (local_array BUFLEN) (\<lambda>dest_path_buf.
     bind (local_array BUFLEN) (\<lambda>src_path_buf.
     bind (is_file_exist src_path) (\<lambda>e.
     if \<not> e then seq (print_str (line ''cp: %s does not exist.'') src_path) (ret 0)
     else if \<not> isRecursive then
       bind (is_dir src_path) (\<lambda>d.
       if d \<noteq> 0 then seq (print_str (line (''cp: omitting directory '' @ [CHR 0x27] @ ''%s'' @ [CHR 0x27] @ ''. try '' @ [CHR 0x27] @ ''-r'' @ [CHR 0x27] @ '' ?'')) src_path) (ret 0)
       else
         bind (is_file_exist dest_path) (\<lambda>de.
         bind (if de then is_dir dest_path else ret 0) (\<lambda>dd.
         if dd \<noteq> 0 then
           bind (extract_filename src_path filename) (\<lambda>(_, filename).
           bind (join_path path dest_path filename) (\<lambda>path.
           seq (do_shell_cp room path src_path isRecursive) (ret 0)))
         else seq (cp_file dest_path src_path) (ret 0))))
     else
       bind (is_dir src_path) (\<lambda>d.
       if d \<noteq> 0 then
         bind (is_file_exist dest_path) (\<lambda>de.
         if de then
           bind (is_dir dest_path) (\<lambda>dd.
           if dd \<noteq> 0 then
             bind (extract_filename src_path filename) (\<lambda>(_, filename).
             bind (join_path path dest_path filename) (\<lambda>path.
             seq (do_shell_cp room path src_path isRecursive) (ret 0)))
           else seq (print_str (line (''cp: can not copy a dir to a file '' @ [CHR 0x27] @ ''%s'' @ [CHR 0x27] @ ''.'')) dest_path) (ret 0))
         else
           seq (cp_file dest_path src_path)
           (bind (ls_dir path (Some src_path)) (\<lambda>(len, path).
            iterate (\<lambda>(p, dest_path_buf, src_path_buf).
              if int p < sint len then
                bind (is_one_of (drop p path) [''.'', ''..'']) (\<lambda>dots.
                bind (if dots then ret (dest_path_buf, src_path_buf)
                      else
                        bind (join_path dest_path_buf dest_path (drop p path)) (\<lambda>dest_path_buf.
                        bind (join_path src_path_buf src_path (drop p path)) (\<lambda>src_path_buf.
                        seq (do_shell_cp room dest_path_buf src_path_buf isRecursive)
                        (ret (dest_path_buf, src_path_buf))))) (\<lambda>(dest_path_buf, src_path_buf).
                bind (opt_bounds (u_strlen (drop p path))) (\<lambda>n.
                ret (Inl (p + n + 1, dest_path_buf, src_path_buf)))))
              else ret (Inr 0)) (0, dest_path_buf, src_path_buf))))
       else seq (do_shell_cp room dest_path src_path False) (ret 0)))))))"

definition shell_cp :: "string list \<Rightarrow> ('z uproc_scheme, u32) kop" where
  "shell_cp argv =
     bind (gets stack_room) (\<lambda>room.
     if length argv < 3 then seq (print (line ''cp: too few arguments.'')) (ret 0)
     else if length argv > 4 then seq (print (line ''cp: too many arguments.'')) (ret 0)
     else if length argv = 3 then seq (do_shell_cp room (argv ! 2) (argv ! 1) False) (ret 0)
     else
       bind (str_is (argv ! 1) ''-r'') (\<lambda>r.
       if \<not> r then seq (print (line (''cp: invalid option. try '' @ [CHR 0x27] @ ''-r'' @ [CHR 0x27] @ '' ?''))) (ret 0)
       else seq (do_shell_cp room (argv ! 3) (argv ! 2) True) (ret 0)))"

primrec do_shell_rm :: "nat \<Rightarrow> string \<Rightarrow> bool \<Rightarrow> ('z uproc_scheme, u32) kop" where
  "do_shell_rm 0 path isRecursive = stop_with OutOfBounds"
| "do_shell_rm (Suc room) path isRecursive =
     bind (local_array BUFLEN) (\<lambda>rm_buf.
     if isRecursive then
       bind (is_dir path) (\<lambda>d.
       if d = 0 then rm_file path
       else
         seq (sys_chdir path)
         (bind (ls_dir rm_buf None) (\<lambda>(len, rm_buf).
          seq (iterate (\<lambda>sub_path.
            if int sub_path < sint len then
              bind (is_one_of (drop sub_path rm_buf) [''.'', ''..'']) (\<lambda>dots.
              seq (when_true (\<not> dots) (seq (do_shell_rm room (drop sub_path rm_buf) isRecursive) (ret ())))
              (bind (opt_bounds (u_strlen (drop sub_path rm_buf))) (\<lambda>n.
              ret (Inl (sub_path + n + 1)))))
            else ret (Inr ())) 0)
          (seq (sys_chdir (lit ''..'')) (seq (rm_file path) (ret 0))))))
     else
       bind (is_dir path) (\<lambda>d.
       if d \<noteq> 0 then
         seq (print_str (line (''rm: can not remove %s: is a directory. try '' @ [CHR 0x27] @ ''-r'' @ [CHR 0x27] @ '' ?'')) path) (ret (-1))
       else rm_file path))"

definition shell_rm :: "string list \<Rightarrow> ('z uproc_scheme, u32) kop" where
  "shell_rm argv =
     bind (gets stack_room) (\<lambda>room.
     if length argv = 1 then seq (print (line ''Too few arguments.'')) (ret 0)
     else
       bind (arg argv 1) (\<lambda>a.
       bind (str_is a ''-r'') (\<lambda>isRecursive.
       let pathIdx = (if isRecursive then 2 else 1) in
       if pathIdx \<ge> length argv then seq (print (line ''rm: no path argument.'')) (ret 0)
       else
         let path = argv ! pathIdx in
         bind (is_file_exist path) (\<lambda>e.
         if \<not> e then seq (print_str (line ''rm: can not remove %s: is not a file or directory.'') path) (ret 0)
         else seq (do_shell_rm room path isRecursive) (ret 0)))))"

definition shell_mv :: "string list \<Rightarrow> ('z uproc_scheme, u32) kop" where
  "shell_mv argv =
     bind (gets stack_room) (\<lambda>room.
     if length argv \<noteq> 3 then seq (print (line ''mv: argument invalid.'')) (ret 0)
     else
       let src = argv ! 1; dest = argv ! 2 in
       bind (is_file_exist src) (\<lambda>e.
       if \<not> e then seq (print_str (line ''mv: sorce file %s does not exist.'') src) (ret 0)
       else
         bind (is_dir src) (\<lambda>d.
         if d \<noteq> 0 then
           bind (is_file_exist dest) (\<lambda>de.
           bind (if de then bind (is_dir dest) (\<lambda>dd. ret (dd = 0)) else ret False) (\<lambda>to_file.
           if to_file then seq (print (line ''mv: cannot move a dir to a file'')) (ret 0)
           else seq (do_shell_cp room dest src True) (seq (do_shell_rm room src True) (ret 0))))
         else seq (do_shell_cp room dest src True) (seq (do_shell_rm room src False) (ret 0)))))"

section \<open>Other built-in commands\<close>

definition shell_help :: "string list \<Rightarrow> ('z uproc_scheme, u32) kop" where
  "shell_help argv =
     seq (block (map (\<lambda>(name, desc). seq (printf (line ''%s - %s'') [VStr (Some name), VStr (Some desc)]) (ret ())) commands))
     (ret 0)"

text \<open>\<^verbatim>\<open>sys_ls(shell_buf, sizeof(shell_buf)); printf("%s\n", shell_buf);\<close>\<close>

definition print_ls :: "('z uproc_scheme, unit) kop" where
  "print_ls =
     bind (gets shell_buf) (\<lambda>b.
     bind (sys_ls b (of_nat BUFLEN)) (\<lambda>(_, b).
     seq (modify (\<lambda>s. s\<lparr>shell_buf := b\<rparr>)) (print_str (line ''%s'') b)))"

definition shell_ls :: "string list \<Rightarrow> ('z uproc_scheme, u32) kop" where
  "shell_ls argv =
     (if length argv = 1 then seq print_ls (ret 0)
      else if length argv = 2 then
        bind (local_array 100) (\<lambda>path.
        bind (sys_pwd path) (\<lambda>(_, path).
        seq (sys_chdir (argv ! 1)) (seq print_ls (seq (sys_chdir path) (ret 0)))))
      else seq (print (line ''ls: too many arguments.'')) (ret 0))"

definition shell_pwd :: "string list \<Rightarrow> ('z uproc_scheme, u32) kop" where
  "shell_pwd argv =
     bind (gets shell_buf) (\<lambda>b.
     bind (sys_pwd b) (\<lambda>(_, b).
     seq (modify (\<lambda>s. s\<lparr>shell_buf := b\<rparr>)) (seq (print_str (line ''%s'') b) (ret 0))))"

definition shell_cd :: "string list \<Rightarrow> ('z uproc_scheme, u32) kop" where
  "shell_cd argv =
     bind (local_array 1024) (\<lambda>path.
     if length argv = 1 then
       bind (opt_bounds (store 0 [NUL] path)) (\<lambda>path. seq (sys_chdir path) (ret 0))
     else
       bind (arg argv 1) (\<lambda>a.
       bind (opt_bounds (u_strcpy path a)) (\<lambda>path. seq (sys_chdir path) (ret 0))))"

definition shell_mkdir :: "string list \<Rightarrow> ('z uproc_scheme, u32) kop" where
  "shell_mkdir argv =
     seq (when_true (length argv = 1) (print (line ''mkdir failed, no path'')))
     (seq (block (map (\<lambda>a. bind (sys_mkdir a) (\<lambda>r. when_true (r \<noteq> 0) (print (line ''make dir failed.'')))) (drop 1 argv)))
     (ret 0))"

definition do_shell_cat :: "string \<Rightarrow> ('z uproc_scheme, u32) kop" where
  "do_shell_cat path =
     bind (local_array 512) (\<lambda>buf.
     bind (sys_open path O_RDONLY) (\<lambda>fd.
     if fd = -1 then ret (-1)
     else
       seq (iterate (\<lambda>buf.
         bind (sys_read fd buf 511) (\<lambda>(n, buf).
         if 0 <s n then
           bind (opt_bounds (store (unat n) [NUL] buf)) (\<lambda>buf.
           seq (print_str ''%s'' buf) (ret (Inl buf)))
         else ret (Inr ()))) buf)
       (seq (print [LF]) (seq (sys_close fd) (ret 0)))))"

definition shell_cat :: "string list \<Rightarrow> ('z uproc_scheme, u32) kop" where
  "shell_cat argv =
     (if length argv = 1 then seq (print (line ''cat: No path given.'')) (ret 0)
      else
        seq (block (map (\<lambda>a. bind (do_shell_cat a) (\<lambda>r.
          when_true (r = -1) (print_str (line (''cat: '' @ [CHR 0x27] @ ''%s'' @ [CHR 0x27] @ '': no such file or invalid path.'')) a)))
          (drop 1 argv)))
        (ret 0))"

text \<open>Without arguments \<open>shell_touch\<close> returns without a value, which the caller then uses.\<close>

definition shell_touch :: "string list \<Rightarrow> ('z uproc_scheme, u32) kop" where
  "shell_touch argv =
     (if length argv = 1 then seq (print (line ''touch failed. No Path. '')) (stop_with OutOfBounds)
      else
        seq (block (map (\<lambda>a. bind (sys_open a O_RDONLY) (\<lambda>fd.
          if 0 <=s fd then seq (print_str (line ''%s file exist'') a) (seq (sys_close fd) (ret ()))
          else bind (sys_open a O_CREATE) (\<lambda>fd. seq (sys_close fd) (ret ())))) (drop 1 argv)))
        (ret 0))"

definition shell_write :: "string list \<Rightarrow> ('z uproc_scheme, u32) kop" where
  "shell_write argv =
     (if length argv = 1 then seq (print (line ''write failed, too few arguments.'')) (ret 0)
      else
        bind (arg argv 2) (\<lambda>name.
        bind (arg argv 1) (\<lambda>str.
        bind (sys_open name (O_CREATE OR O_RDWR)) (\<lambda>fd.
        if 0 <=s fd then
          bind (opt_bounds (u_strlen str)) (\<lambda>len.
          bind (sys_write fd str (of_nat len)) (\<lambda>n.
          seq (when_true (n \<noteq> of_nat len) (print (line ''shell write fail'')))
          (seq (sys_close fd) (ret 0))))
        else seq (print (line ''shell write fail'')) (ret 0)))))"

definition shell_append :: "string list \<Rightarrow> ('z uproc_scheme, u32) kop" where
  "shell_append argv =
     (if length argv = 1 then seq (print (line ''append failed, too few arguments.'')) (ret 0)
      else
        bind (arg argv 2) (\<lambda>name.
        bind (arg argv 1) (\<lambda>str.
        bind (sys_open name O_RDONLY) (\<lambda>fd.
        if 0 <=s fd then
          bind (local_array 1000) (\<lambda>buf.
          bind (sys_read fd buf 1000) (\<lambda>(n, buf).
          seq (sys_close fd)
          (bind (opt_bounds (if n = 0 then store 0 [NUL] buf else Some buf)) (\<lambda>buf.
           bind (sys_open name (O_CREATE OR O_RDWR)) (\<lambda>fd.
           if fd <s 0 then seq (print (line ''create: append failed!'')) (ret 0)
           else
             bind (opt_bounds (u_strlen str)) (\<lambda>len.
             seq (in_bounds (unat n \<le> length buf))
             (bind (opt_bounds (u_strncpy (drop (unat n) buf) str len)) (\<lambda>rest.
              let buf = take (unat n) buf @ rest in
              bind (opt_bounds (u_strlen buf)) (\<lambda>m.
              seq (sys_write fd buf (of_nat m)) (seq (sys_close fd) (ret 0)))))))))))
        else seq (print (line ''open append failed!'')) (ret 0)))))"

section \<open>Signals and processes\<close>

definition signal_handler :: "u32 \<Rightarrow> ('z uproc_scheme, unit) kop" where
  "signal_handler signum = seq (print_num ([LF] @ line ''*** Received signal %d ***'') signum) (print ''>:'')"

definition shell_kill :: "string list \<Rightarrow> ('z uproc_scheme, u32) kop" where
  "shell_kill argv =
     (if length argv < 3 then
        seq (print (line ''Usage: kill -<signal> <pid>'')) (seq (print (line ''Example: kill -9 2'')) (ret 0))
      else
        let a = argv ! 1 in
        seq (in_bounds (a \<noteq> []))
        (bind (if a ! 0 = CHR ''-'' then str_to_int (drop 1 a) else str_to_int a) (\<lambda>sig.
        bind (str_to_int (argv ! 2)) (\<lambda>pid.
        if sig <s 1 \<or> 31 <s sig then
          seq (print_num (line ''Invalid signal number: %d (must be 1-31)'') sig) (ret (-1))
        else if pid <s 1 \<or> 63 <s pid then
          seq (print_num (line ''Invalid PID: %d (must be 1-63)'') pid) (ret (-1))
        else
          seq (printf (line ''Sending signal %d to process %d...'') [VWord sig, VWord pid])
          (bind (kill pid sig) (\<lambda>result.
           seq (if result = 0 then print (line ''Signal sent successfully.'')
                else print_num (line ''Failed to send signal (error: %d)'') result)
           (ret 0)))))))"

definition shell_trap :: "string list \<Rightarrow> ('z uproc_scheme, u32) kop" where
  "shell_trap argv =
     (if length argv < 2 then
        seq (print (line ''Usage: trap <signum>''))
        (seq (print (line ''Example: trap 2   (register handler for SIGINT)'')) (ret (-1)))
      else
        bind (str_to_int (argv ! 1)) (\<lambda>signum.
        if signum <s 1 \<or> 32 <=s signum then
          seq (print_num (line ''Invalid signal number: %d (must be 1-31)'') signum) (ret (-1))
        else
          bind (gets signal_handler_at) (\<lambda>h.
          seq (printf (line ''Registering handler for signal %d at address %x...'') [VWord signum, VWord h])
          (bind (sigaction signum \<lparr>sa_handler = h, sa_flags = 0, sa_mask = 0\<rparr>) (\<lambda>r.
           if r <s 0 then seq (print (line ''Failed to register signal handler'')) (ret (-1))
           else seq (print (line ''Handler registered successfully.'')) (ret 0))))))"

definition shell_spawn :: "string list \<Rightarrow> ('z uproc_scheme, u32) kop" where
  "shell_spawn argv =
     (if length argv < 2 then
        seq (print (line ''Usage: spawn <elf_id>''))
        (seq (print (line ''  elf_id: 1=ping, 2=pong, 3=ding, 4=fstest, 5=shell, 6=cat, 7=rot13, 8=echo, 9=ls'')) (ret (-1)))
      else
        bind (str_to_int (argv ! 1)) (\<lambda>elf_id.
        if elf_id <s 1 \<or> 9 <s elf_id then
          seq (print_num (line ''Invalid elf_id: %d (must be 1-9)'') elf_id) (ret (-1))
        else
          seq (print_num (line ''Spawning process with elf_id %d...'') elf_id)
          (bind (spawn elf_id 1000) (\<lambda>new_pid.
           if new_pid \<noteq> -1 then seq (print_num (line ''Process spawned with PID %d'') new_pid) (ret 0)
           else seq (print (line ''Failed to spawn process'')) (ret (-1))))))"

text \<open>The two test modes of \<open>main\<close>.\<close>

abbreviation (input) SIGUSR1 :: u32 where "SIGUSR1 \<equiv> 10"
abbreviation (input) SIGUSR2 :: u32 where "SIGUSR2 \<equiv> 12"

definition shell_test :: "('z uproc_scheme, unit) kop" where
  "shell_test =
     bind (gets signal_handler_at) (\<lambda>h.
     seq (print (line ''Test 1: Basic signal handling''))
     (bind (sigaction SIGUSR1 \<lparr>sa_handler = h, sa_flags = 0, sa_mask = 0\<rparr>) (\<lambda>r.
      if r <s 0 then print (line ''Failed to register signal handler'')
      else
        seq (print (line ''Registered handler for SIGUSR1''))
        (seq (print (line ''Sending SIGUSR1 to self...''))
        (bind getpid (\<lambda>pid.
         seq (kill pid SIGUSR1)
         (seq (print ([LF] @ line ''Test 2: Signal blocking''))
         (bind (sigaction SIGUSR2 \<lparr>sa_handler = h, sa_flags = 0, sa_mask = push_bit 12 1\<rparr>) (\<lambda>r.
          if r <s 0 then print (line ''Failed to register signal handler'')
          else
            seq (print (line ''Registered handler for SIGUSR2 (blocked)''))
            (seq (print (line ''Sending SIGUSR2 to self...''))
            (seq (kill pid SIGUSR2)
            (seq (print ([LF] @ line ''Test 3: pause() functionality''))
            (seq (print (line ''Process will pause until SIGUSR1 is received...''))
            (seq pause (print (line ''Resumed after receiving signal''))))))))))))))))"

definition ipc_test :: "('z uproc_scheme, u32) kop" where
  "ipc_test =
     seq (print (line ''ipc test begin''))
     (bind (spawn 1 1000) (\<lambda>ping_pid.
      seq (if ping_pid \<noteq> -1 then print_num (line ''ping in process %d.'') ping_pid else print (line ''Failed to launch ping.''))
      (bind (spawn 2 1000) (\<lambda>pong_pid.
       seq (if pong_pid \<noteq> -1 then print_num (line ''pong in process %d.'') pong_pid else print (line ''Failed to launch pong.''))
       (seq (print (line ''ipc test pass!!'')) (ret 0))))))"

section \<open>Parsing\<close>

definition is_ws :: "char \<Rightarrow> bool" where
  "is_ws c \<longleftrightarrow> u_strchr (lit ([TAB, CHR 0x0D, LF] @ '' '')) c \<noteq> Some None"

text \<open>\<^verbatim>\<open>while (*p && P(*p)) p++;\<close>\<close>

function scan :: "(char \<Rightarrow> bool) \<Rightarrow> string \<Rightarrow> nat \<Rightarrow> nat option" where
  "scan P buf p =
     (if p < length buf then if buf ! p \<noteq> NUL \<and> P (buf ! p) then scan P buf (p + 1) else Some p else None)"
  by pat_completeness auto
termination by (relation "measure (\<lambda>(_, buf, p). length buf - p)") auto

text \<open>\<^verbatim>\<open>while (*cmd && strchr(WHITESPACE, *cmd)) *cmd++ = 0;\<close>\<close>

function blank_ws :: "string \<Rightarrow> nat \<Rightarrow> (string \<times> nat) option" where
  "blank_ws buf p =
     (if p < length buf then
        if buf ! p \<noteq> NUL \<and> is_ws (buf ! p) then blank_ws (buf[p := NUL]) (p + 1) else Some (buf, p)
      else None)"
  by pat_completeness auto
termination by (relation "measure (\<lambda>(buf, p). length buf - p)") auto

declare last_slash.simps [simp del] scan.simps [simp del] blank_ws.simps [simp del]

text \<open>
  The arguments found so far are offsets in the buffer. The result is the return value, the changed buffer and
  the offsets.
\<close>

definition parse_stage :: "string \<Rightarrow> nat \<Rightarrow> ('z uproc_scheme, u32 \<times> string \<times> nat list) kop" where
  "parse_stage buf cmd = iterate (\<lambda>(buf, cmd, argv).
     bind (opt_bounds (blank_ws buf cmd)) (\<lambda>(buf, cmd).
     if buf ! cmd = NUL then ret (Inr (0, buf, argv))
     else if length argv = MAXARGS - 1 then
       seq (print_num (line ''Too many arguments (max %d)'') (of_nat MAXARGS)) (ret (Inr (-1, buf, argv)))
     else
       bind (opt_bounds (scan (\<lambda>c. \<not> is_ws c) buf cmd)) (\<lambda>p. ret (Inl (buf, p, argv @ [cmd]))))) (buf, cmd, [])"

definition parse_pipeline :: "string \<Rightarrow> ('z uproc_scheme, u32 \<times> string \<times> nat list list) kop" where
  "parse_pipeline buf = iterate (\<lambda>(buf, seg, stages).
     bind (opt_bounds (scan is_ws buf seg)) (\<lambda>seg.
     if buf ! seg = NUL then ret (Inr (0, buf, stages))
     else if length stages = MAXARGS then
       seq (print (line ''Too many pipeline stages'')) (ret (Inr (-1, buf, stages)))
     else
       bind (opt_bounds (scan (\<lambda>c. c \<noteq> CHR ''|'') buf seg)) (\<lambda>end'.
       let found_pipe = (buf ! end' = CHR ''|'');
           buf = (if found_pipe then buf[end' := NUL] else buf) in
       bind (parse_stage buf seg) (\<lambda>(r, buf, stage).
       if r <s 0 then ret (Inr (-1, buf, stages))
       else if stage = [] then
         seq (print (line ''Invalid null command in pipeline'')) (ret (Inr (-1, buf, stages)))
       else if \<not> found_pipe then ret (Inr (0, buf, stages @ [stage]))
       else ret (Inl (buf, end' + 1, stages @ [stage])))))) (buf, 0, [])"

section \<open>Pipelines\<close>

definition is_process_cmd :: "string \<Rightarrow> ('z uproc_scheme, bool) kop" where
  "is_process_cmd name = is_one_of name [''CAT'', ''LS'', ''ROT13'', ''biral'', ''BIRAL'']"

definition elf_id_for_process :: "string \<Rightarrow> ('z uproc_scheme, u32) kop" where
  "elf_id_for_process name =
     bind (is_one_of name [''CAT'', ''biral'', ''BIRAL'']) (\<lambda>c.
     if c then ret 6
     else bind (str_is name ''ROT13'') (\<lambda>r.
       if r then ret 7 else bind (str_is name ''LS'') (\<lambda>l. ret (if l then 9 else -1))))"

definition shell_yield_briefly :: "('z uproc_scheme, unit) kop" where
  "shell_yield_briefly = for_loop 0 2000 (\<lambda>_. yield)"

text \<open>The branches of \<open>CAT\<close> and \<open>ROT13\<close>, which differ in the name in the messages.\<close>

definition launch_filter :: "string \<Rightarrow> u32 \<Rightarrow> string list \<Rightarrow> u32 \<Rightarrow> u32 \<Rightarrow> ('z uproc_scheme, u32) kop" where
  "launch_filter name elf_id argv stdin_fd stdout_fd =
     (if length argv > 2 then
        seq (print (name @ line '': only zero or one filename is supported in this module'')) (ret (-1))
      else
        bind (if length argv = 2 then sys_open (argv ! 1) O_RDONLY else ret stdin_fd) (\<lambda>input_fd.
        if length argv = 2 \<and> input_fd <s 0 then
          seq (print_str (name @ line '': cannot open %s'') (argv ! 1)) (ret (-1))
        else
          bind (spawn_with_fds elf_id 200 input_fd stdout_fd) (\<lambda>pid.
          seq (when_true (length argv = 2) (seq (sys_close input_fd) (ret ())))
          (if pid <s 0 then seq (print (name @ line '': spawn failed'')) (ret (-1)) else ret pid))))"

definition launch_process_stage :: "string list \<Rightarrow> u32 \<Rightarrow> u32 \<Rightarrow> ('z uproc_scheme, u32) kop" where
  "launch_process_stage argv stdin_fd stdout_fd =
     bind (arg argv 0) (\<lambda>name.
     bind (elf_id_for_process name) (\<lambda>elf_id.
     if elf_id <s 0 then
       seq (print_str (line (''Unknown process command '' @ [CHR 0x27] @ ''%s'' @ [CHR 0x27])) name) (ret (-1))
     else
       bind (str_is name ''LS'') (\<lambda>ls.
       if ls then
         if length argv > 2 then seq (print (line ''LS: too many arguments'')) (ret (-1))
         else if length argv = 2 then
           bind (local_array BUFLEN) (\<lambda>cwd.
           bind (sys_pwd cwd) (\<lambda>(_, cwd).
           bind (sys_chdir (argv ! 1)) (\<lambda>r.
           if r <s 0 then seq (print_str (line ''LS: cannot access %s'') (argv ! 1)) (ret (-1))
           else
             bind (spawn_with_fds elf_id 200 stdin_fd stdout_fd) (\<lambda>pid.
             seq (sys_chdir cwd)
             (if pid <s 0 then seq (print (line ''LS: spawn failed'')) (ret (-1)) else ret pid)))))
         else
           bind (spawn_with_fds elf_id 200 stdin_fd stdout_fd) (\<lambda>pid.
           if pid <s 0 then seq (print (line ''LS: spawn failed'')) (ret (-1)) else ret pid)
       else
         bind (is_one_of name [''CAT'', ''biral'', ''BIRAL'']) (\<lambda>cat.
         if cat then launch_filter ''CAT'' elf_id argv stdin_fd stdout_fd
         else bind (str_is name ''ROT13'') (\<lambda>rot.
           if rot then launch_filter ''ROT13'' elf_id argv stdin_fd stdout_fd else ret (-1))))))"

text \<open>One round of the loop that launches the stages: the descriptor of the next stage's input and the process.\<close>

definition close_if :: "u32 \<Rightarrow> ('z uproc_scheme, unit) kop" where
  "close_if fd = when_true (0 <=s fd) (seq (sys_close fd) (ret ()))"

definition run_stages :: "string list list \<Rightarrow> ('z uproc_scheme, (u32 \<times> u32 list) option) kop" where
  "run_stages stages = iterate (\<lambda>(i, in_fd, pids).
     if i < length stages then
       let last' = (i \<ge> length stages - 1) in
       bind (if last' then ret (0, -1, -1) else sys_pipe) (\<lambda>(r, pipefd0, pipefd1).
       if \<not> last' \<and> r <s 0 then
         seq (print (line ''pipe: failed'')) (seq (close_if in_fd) (ret (Inr None)))
       else
         let out_fd = (if last' then -1 else pipefd1) in
         bind (launch_process_stage (stages ! i) in_fd out_fd) (\<lambda>pid.
         if pid <s 0 then
           seq (close_if in_fd)
           (seq (when_true (\<not> last') (seq (sys_close pipefd0) (seq (sys_close pipefd1) (ret ()))))
           (ret (Inr None)))
         else
           seq (close_if in_fd)
           (seq (when_true (\<not> last') (seq (sys_close pipefd1) (ret ())))
           (ret (Inl (i + 1, if last' then in_fd else pipefd0, pids @ [pid]))))))
     else ret (Inr (Some (in_fd, pids)))) (0, -1, [])"

definition run_pipeline :: "string \<Rightarrow> ('z uproc_scheme, u32) kop" where
  "run_pipeline buf =
     bind (parse_pipeline buf) (\<lambda>(r, buf, stages).
     if r <s 0 \<or> stages = [] then ret 0
     else
       let argvs = map (map (\<lambda>p. drop p buf)) stages in
       bind (iterate (\<lambda>i.
         if i < length argvs then
           bind (is_process_cmd (argvs ! i ! 0)) (\<lambda>ok.
           if \<not> ok then
             seq (print (line ''Pipelines currently support only LS, CAT, and ROT13'')) (ret (Inr False))
           else ret (Inl (i + 1)))
         else ret (Inr True)) 0) (\<lambda>ok.
       if \<not> ok then ret 0
       else
         bind (run_stages argvs) (\<lambda>launched.
         case launched of
           None \<Rightarrow> ret 0
         | Some (in_fd, pids) \<Rightarrow>
             seq (close_if in_fd)
             (seq (block (map (\<lambda>pid. when_true (0 <=s pid) (sys_waitpid pid)) pids)) (ret 0)))))"

section \<open>The command loop\<close>

definition command_func :: "string \<Rightarrow> string list \<Rightarrow> ('z uproc_scheme, u32) kop" where
  "command_func name = (the (map_of [
     (''ls'', shell_ls), (''pwd'', shell_pwd), (''cd'', shell_cd), (''cp'', shell_cp), (''mv'', shell_mv),
     (''rm'', shell_rm), (''mkdir'', shell_mkdir), (''cat'', shell_cat), (''biral'', shell_cat), (''touch'', shell_touch),
     (''write'', shell_write), (''append'', shell_append), (''help'', shell_help), (''kill'', shell_kill),
     (''trap'', shell_trap), (''spawn'', shell_spawn)] name))"

text \<open>The search in the table \<open>commands\<close>.\<close>

primrec run_builtin :: "(string \<times> string) list \<Rightarrow> string list \<Rightarrow> ('z uproc_scheme, u32) kop" where
  "run_builtin [] argv =
     seq (print_str (line (''Unknown command '' @ [CHR 0x27] @ ''%s'' @ [CHR 0x27])) (argv ! 0))
     (seq (print (line (''try '' @ [CHR 0x27] @ ''help'' @ [CHR 0x27] @ '' to see all supported commands.''))) (ret 0))"
| "run_builtin (c # cs) argv =
     bind (str_is (argv ! 0) (fst c)) (\<lambda>b. if b then command_func (fst c) argv else run_builtin cs argv)"

definition runcmd :: "string \<Rightarrow> ('z uproc_scheme, u32 \<times> string) kop" where
  "runcmd buf =
     bind (local_array 1024) (\<lambda>procbuf.
     bind (opt_bounds (u_strcpy procbuf buf)) (\<lambda>procbuf.
     bind (opt_bounds (u_strchr procbuf (CHR ''|''))) (\<lambda>p.
     if p \<noteq> None then bind (run_pipeline procbuf) (\<lambda>r. ret (r, buf))
     else
       bind (parse_stage buf 0) (\<lambda>(r, buf, argv).
       if r <s 0 \<or> argv = [] then ret (0, buf)
       else
         let args = map (\<lambda>p. drop p buf) argv in
         bind (is_process_cmd (args ! 0)) (\<lambda>proc.
         bind (if proc then run_pipeline procbuf else run_builtin commands args) (\<lambda>r.
         ret (r, buf)))))))"

definition shell_readline :: "string \<Rightarrow> ('z uproc_scheme, string) kop" where
  "shell_readline buf = bind (sys_readline buf) (\<lambda>(_, buf). ret buf)"

definition shell_main :: "('z uproc_scheme, unit) kop" where
  "shell_main =
     bind (local_array 1024) (\<lambda>buf.
     seq (print ([LF, TAB, TAB] @ line ''************************ UNIX-Shell *************************''))
     (seq (print ([LF, TAB, TAB] @ line ''************************* Group 11 **************************''))
     (seq (print ([LF, TAB, TAB] @ line ''********************* IDs 09 42 49 66 ***********************'' @ [LF]))
     (iterate (\<lambda>buf.
        seq (print ''>: '')
        (bind (shell_readline buf) (\<lambda>buf.
         bind (runcmd buf) (\<lambda>(r, buf).
         ret (if r <s 0 then Inr () else Inl buf))))) buf))))"

end
