(* ===== verification/User_Programs.thy ===== *)
theory User_Programs
  imports Shell
begin

text \<open>
  The programs the shell can launch: \<open>user/cat\<close>, \<open>user/ls\<close>, \<open>user/rot13\<close>, \<open>user/echo\<close>, \<open>user/pingpong\<close>, \<open>user/idle\<close>
  and \<open>user/signal_test.c\<close>. A program started by the kernel has no arguments unless its caller pushed them.
\<close>

section \<open>cat.c\<close>

text \<open>The copying loop, from descriptor \<open>fd\<close> to standard output; it leaves the buffer to the next file.\<close>

definition cat_copy :: "u32 \<Rightarrow> string \<Rightarrow> ('z uproc_scheme, string) kop" where
  "cat_copy fd buf = iterate (\<lambda>buf.
     bind (sys_read fd buf 512) (\<lambda>(n, buf).
     if 0 <s n then seq (sys_write 1 buf n) (ret (Inl buf)) else ret (Inr buf))) buf"

primrec cat_files :: "string list \<Rightarrow> string \<Rightarrow> ('z uproc_scheme, unit) kop" where
  "cat_files [] buf = ret ()"
| "cat_files (a # as) buf =
     bind (sys_open a O_RDONLY) (\<lambda>fd.
     if fd <s 0 then seq (print_str (line ''CAT: cannot open %s'') a) (cat_files as buf)
     else
       bind (cat_copy fd buf) (\<lambda>buf.
       seq (sys_close fd) (cat_files as buf)))"

definition cat_main :: "string list \<Rightarrow> ('z uproc_scheme, u32) kop" where
  "cat_main argv =
     bind (local_array 512) (\<lambda>buf.
     seq (if length argv \<le> 1 then seq (cat_copy 0 buf) (ret ()) else cat_files (drop 1 argv) buf)
     (seq (sys_close 1) (ret 0)))"

section \<open>rot13.c\<close>

definition rot13_char :: "char \<Rightarrow> char" where
  "rot13_char c =
     (let n = (of_char c :: nat) in
      if 97 \<le> n \<and> n \<le> 122 then char_of (97 + (n - 97 + 13) mod 26)
      else if 65 \<le> n \<and> n \<le> 90 then char_of (65 + (n - 65 + 13) mod 26)
      else c)"

text \<open>\<^verbatim>\<open>for (i = 0; i < n; i++) buf[i] = rot13_char(buf[i]);\<close>\<close>

definition rot13_buf :: "u32 \<Rightarrow> string \<Rightarrow> string option" where
  "rot13_buf n buf =
     (if sint n \<le> int (length buf)
      then Some (map rot13_char (take (nat (sint n)) buf) @ drop (nat (sint n)) buf) else None)"

definition rot13_main :: "string list \<Rightarrow> ('z uproc_scheme, u32) kop" where
  "rot13_main argv =
     bind (local_array 512) (\<lambda>buf.
     seq (iterate (\<lambda>buf.
       bind (sys_read 0 buf 512) (\<lambda>(n, buf).
       if 0 <s n then
         bind (opt_bounds (rot13_buf n buf)) (\<lambda>buf.
         seq (sys_write 1 buf n) (ret (Inl buf)))
       else ret (Inr ()))) buf)
     (seq (sys_close 1) (seq (sys_close 0) (ret 0))))"

section \<open>ls.c\<close>

text \<open>The two inner loops: to the end of the token, and over the separators.\<close>

function ls_scan :: "(char \<Rightarrow> bool) \<Rightarrow> string \<Rightarrow> u32 \<Rightarrow> nat \<Rightarrow> nat option" where
  "ls_scan P buf n i =
     (if int i < sint n then
        if i < length buf then if P (buf ! i) then ls_scan P buf n (i + 1) else Some i else None
      else Some i)"
  by pat_completeness auto
termination by (relation "measure (\<lambda>(_, buf, _, i). length buf - i)") auto

definition ls_sep :: "char \<Rightarrow> bool" where
  "ls_sep c \<longleftrightarrow> c = CHR '' '' \<or> c = NUL"

definition ls_main :: "string list \<Rightarrow> ('z uproc_scheme, u32) kop" where
  "ls_main argv =
     bind (local_array 1024) (\<lambda>buf.
     bind (sys_ls buf 1023) (\<lambda>(n, buf).
     if n <=s 0 then seq (sys_close 1) (ret 0)
     else
       seq (iterate (\<lambda>i.
         if int i < sint n then
           bind (opt_bounds (ls_scan (\<lambda>c. \<not> ls_sep c) buf n i)) (\<lambda>j.
           seq (when_true (i < j) (seq (sys_write 1 (drop i buf) (of_nat (j - i))) (ret ())))
           (seq (sys_write 1 [LF] 1)
           (bind (opt_bounds (ls_scan ls_sep buf n j)) (\<lambda>i. ret (Inl i)))))
         else ret (Inr ())) 0)
       (seq (sys_close 1) (ret 0))))"

section \<open>echo.c\<close>

primrec echo_args :: "bool \<Rightarrow> string list \<Rightarrow> ('z uproc_scheme, unit) kop" where
  "echo_args first [] = ret ()"
| "echo_args first (a # as) =
     seq (when_true (\<not> first) (print '' '')) (seq (print_str ''%s'' a) (echo_args False as))"

definition echo_main :: "string list \<Rightarrow> ('z uproc_scheme, u32) kop" where
  "echo_main argv = seq (echo_args True (drop 1 argv)) (seq (print [LF]) (ret 0))"

section \<open>pingpong, idle and the signal test\<close>

definition forever :: "('z uproc_scheme, u32) kop" where
  "forever = iterate (\<lambda>_. ret (Inl ())) ()"

definition ping_main :: "('z uproc_scheme, u32) kop" where
  "ping_main =
     (let msg = lit ''Hello pong, this is ping.''; n = of_nat (length msg) in
      seq (print (line ''[ping] ping started.''))
      (seq (print (line ''[ping] sending msg...''))
      (seq (sys_sync_send 8 msg n)
      (seq (print (line ''[ping] msg sent.''))
      (seq (print (line ''[ping] recving msg...''))
      (bind (sys_sync_receive 8 msg n) (\<lambda>(_, msg).
       bind (text_of msg) (\<lambda>t.
       seq (printf (line ''[ping] msg from proc %d: %s'') [VWord 5, VStr (Some t)]) forever))))))))"

definition pong_main :: "('z uproc_scheme, u32) kop" where
  "pong_main =
     bind (local_array 100) (\<lambda>msg_buf.
     let msg = lit ''Hello ping, this is pong.'' in
     seq (print (line ''[pong] started.''))
     (seq (print (line ''[pong] recving msg...''))
     (bind (sys_sync_receive 7 msg_buf 100) (\<lambda>(_, msg_buf).
      bind (text_of msg_buf) (\<lambda>t.
      seq (printf (line ''[pong] msg from proc %d: %s'') [VWord 4, VStr (Some t)])
      (seq (print (line ''[pong] sending msg...''))
      (seq (sys_sync_send 7 msg (of_nat (length msg)))
      (seq (print ''[pong] msg sent.'') forever))))))))"

definition ding_main :: "('z uproc_scheme, u32) kop" where
  "ding_main = seq (print (line ''ding started.'')) forever"

definition idle_main :: "('z uproc_scheme, u32) kop" where
  "idle_main = seq (print (line ''idle'')) forever"

definition sigint_handler :: "u32 \<Rightarrow> ('z uproc_scheme, unit) kop" where
  "sigint_handler signum = print_num (line ''Received SIGINT (%d)'') signum"

definition sigusr1_handler :: "u32 \<Rightarrow> ('z uproc_scheme, unit) kop" where
  "sigusr1_handler signum = print_num (line ''Received SIGUSR1 (%d)'') signum"

text \<open>The addresses of the two handlers are arguments; some messages end in a backslash and an n.\<close>

definition signal_test_main :: "u32 \<Rightarrow> u32 \<Rightarrow> ('z uproc_scheme, u32) kop" where
  "signal_test_main sigint_at sigusr1_at =
     seq (print (''Signal test program'' @ [CHR 0x5C] @ ''n''))
     (bind (sigaction 2 \<lparr>sa_handler = sigint_at, sa_flags = 0, sa_mask = 0\<rparr>) (\<lambda>r.
      if r <s 0 then seq (print (''Failed to register SIGINT handler'' @ [CHR 0x5C] @ ''n'')) (ret (-1))
      else
        bind (sigaction SIGUSR1 \<lparr>sa_handler = sigusr1_at, sa_flags = 0, sa_mask = 0\<rparr>) (\<lambda>r.
        if r <s 0 then seq (print (line ''Failed to register SIGUSR1 handler'')) (ret (-1))
        else
          seq (print (line ''Handlers registered. Waiting for signals...''))
          (iterate (\<lambda>_. seq pause (ret (Inl ()))) ()))))"

section \<open>What the filters write\<close>

text \<open>The bytes written to standard output, and the number of reads from standard input.\<close>

definition written :: "(sysreq \<times> sysres) list \<Rightarrow> string" where
  "written h = concat (map (\<lambda>(r, _). case r of SYS_write fd d \<Rightarrow> if fd = 1 then d else [] | _ \<Rightarrow> []) h)"

definition reads :: "(sysreq \<times> sysres) list \<Rightarrow> nat" where
  "reads h = length (filter (\<lambda>(r, _). case r of SYS_read fd n \<Rightarrow> fd = 0 | _ \<Rightarrow> False) h)"

lemma written_simps [simp]: "written [] = []" "written (h @ h') = written h @ written h'"
  "written ((SYS_write 1 d, a) # h) = d @ written h" "written ((SYS_read fd n, a) # h) = written h"
  "written ((SYS_close fd, a) # h) = written h"
  by (simp_all add: written_def)

lemma reads_simps [simp]: "reads [] = 0" "reads (h @ h') = reads h + reads h'"
  "reads ((SYS_write fd d, a) # h) = reads h" "reads ((SYS_read 0 n, a) # h) = Suc (reads h)" "reads ((SYS_close fd, a) # h) = reads h"
  by (simp_all add: reads_def)

text \<open>
  The kernel delivers the chunks on standard input, one for each read, and then end of file: what \<open>read\<close>
  promises. Nothing is assumed about its other answers.
\<close>

definition input_is :: "uproc \<Rightarrow> string list \<Rightarrow> bool" where
  "input_is s chunks \<longleftrightarrow> (\<forall>c \<in> set chunks. c \<noteq> [] \<and> length c \<le> 512) \<and>
     (\<forall>h. let a = os s h (SYS_read 0 512) in errno a = 0 \<and>
        out a = (if reads h < length chunks then chunks ! reads h else []) \<and> retval a = of_nat (length (out a)))"

lemma sys_read_chunk:
  assumes "input_is s chunks" "length buf = 512" "reads h < length chunks"
  obtains a where "sys_read 0 buf 512 (s\<lparr>calls := h\<rparr>) =
    Inr ((of_nat (length (chunks ! reads h)), chunks ! reads h @ drop (length (chunks ! reads h)) buf), s\<lparr>calls := h @ [(SYS_read 0 512, a)]\<rparr>)"
    "chunks ! reads h \<noteq> []" "length (chunks ! reads h) \<le> 512"
proof
  let ?a = "os s h (SYS_read 0 512)"
  show c: "chunks ! reads h \<noteq> []" "length (chunks ! reads h) \<le> 512" using assms by (auto simp: input_is_def)
  have "errno ?a = 0" "out ?a = chunks ! reads h" "retval ?a = of_nat (length (chunks ! reads h))"
    using assms by (auto simp: input_is_def Let_def)
  then show "sys_read 0 buf 512 (s\<lparr>calls := h\<rparr>) =
    Inr ((of_nat (length (chunks ! reads h)), chunks ! reads h @ drop (length (chunks ! reads h)) buf), s\<lparr>calls := h @ [(SYS_read 0 512, ?a)]\<rparr>)"
    using c assms(2) by (simp add: sys_read_def fills_def store_def exec)
qed

lemma sys_read_eof:
  assumes "input_is s chunks" "\<not> reads h < length chunks"
  obtains a where "sys_read 0 buf 512 (s\<lparr>calls := h\<rparr>) = Inr ((0, buf), s\<lparr>calls := h @ [(SYS_read 0 512, a)]\<rparr>)"
proof
  let ?a = "os s h (SYS_read 0 512)"
  have "errno ?a = 0" "out ?a = []" "retval ?a = 0" using assms by (auto simp: input_is_def Let_def)
  then show "sys_read 0 buf 512 (s\<lparr>calls := h\<rparr>) = Inr ((0, buf), s\<lparr>calls := h @ [(SYS_read 0 512, ?a)]\<rparr>)"
    by (simp add: sys_read_def fills_def store_def exec)
qed

lemma sys_write_exec:
  assumes "unat n \<le> length p"
  obtains r a where "sys_write fd p n s = Inr (r, s\<lparr>calls := calls s @ [(SYS_write fd (take (unat n) p), a)]\<rparr>)"
  using assms by (auto simp: sys_write_def or_error_def exec)

lemma sys_close_exec:
  obtains r a where "sys_close fd s = Inr (r, s\<lparr>calls := calls s @ [(SYS_close fd, a)]\<rparr>)"
  by (auto simp: sys_close_def or_error_def exec)

text \<open>Both programs have a loop of this form; \<open>g\<close> is what happens to the buffer between reading and writing.\<close>

definition copy_loop :: "(u32 \<Rightarrow> string \<Rightarrow> string option) \<Rightarrow> (string \<Rightarrow> 'a) \<Rightarrow> string \<Rightarrow> (uproc, 'a) kop" where
  "copy_loop g h buf = iterate (\<lambda>buf.
     bind (sys_read 0 buf 512) (\<lambda>(n, buf).
     if 0 <s n then bind (opt_bounds (g n buf)) (\<lambda>buf. seq (sys_write 1 buf n) (ret (Inl buf)))
     else ret (Inr (h buf)))) buf"

lemma small_len: "length c \<le> 512 \<Longrightarrow> unat (of_nat (length c) :: u32) = length c"
  by (simp add: unat_of_nat take_bit_eq_mod)

lemma copy_loop_writes:
  fixes g :: "u32 \<Rightarrow> string \<Rightarrow> string option" and e :: "string \<Rightarrow> 'a"
  assumes "input_is s chunks" and "length buf = 512"
    and g: "\<And>c rest. c \<noteq> [] \<Longrightarrow> length c \<le> 512 \<Longrightarrow> length c + length rest = 512 \<Longrightarrow>
      g (of_nat (length c)) (c @ rest) = Some (map f c @ rest)"
  shows "\<exists>b h'. copy_loop g e buf (s\<lparr>calls := h\<rparr>) = Inr (b, s\<lparr>calls := h'\<rparr>) \<and>
    written h' = written h @ map f (concat (drop (reads h) chunks))"
  using assms(2)
proof (induction "length chunks - reads h" arbitrary: h buf rule: less_induct)
  case less
  show ?case
  proof (cases "reads h < length chunks")
    case False
    from sys_read_eof [OF assms(1) this, of buf] obtain a where
      "sys_read 0 buf 512 (s\<lparr>calls := h\<rparr>) = Inr ((0, buf), s\<lparr>calls := h @ [(SYS_read 0 512, a)]\<rparr>)" by blast
    then have "copy_loop g e buf (s\<lparr>calls := h\<rparr>) = Inr (e buf, s\<lparr>calls := h @ [(SYS_read 0 512, a)]\<rparr>)"
      unfolding copy_loop_def by (intro iterate_done) (simp add: exec)
    with False show ?thesis by (intro exI) auto
  next
    case True
    let ?c = "chunks ! reads h"
    let ?rest = "drop (length ?c) buf"
    from sys_read_chunk [OF assms(1) less.prems True] obtain a where
      r: "sys_read 0 buf 512 (s\<lparr>calls := h\<rparr>) =
        Inr ((of_nat (length ?c), ?c @ ?rest), s\<lparr>calls := h @ [(SYS_read 0 512, a)]\<rparr>)"
      and c: "?c \<noteq> []" "length ?c \<le> 512" by blast
    have n: "unat (of_nat (length ?c) :: u32) = length ?c" using c(2) by (rule small_len)
    have pos: "0 <s (of_nat (length ?c) :: u32)"
      using c n by (simp add: sless_small word_less_nat_alt)
    have gc: "g (of_nat (length ?c)) (?c @ ?rest) = Some (map f ?c @ ?rest)"
      using c less.prems by (intro g) auto
    obtain r' b where w: "sys_write 1 (map f ?c @ ?rest) (of_nat (length ?c)) (s\<lparr>calls := h @ [(SYS_read 0 512, a)]\<rparr>) =
        Inr (r', s\<lparr>calls := h @ [(SYS_read 0 512, a)] @ [(SYS_write 1 (map f ?c), b)]\<rparr>)"
      using sys_write_exec [of "of_nat (length ?c)" "map f ?c @ ?rest" 1 "s\<lparr>calls := h @ [(SYS_read 0 512, a)]\<rparr>"] n by auto
    let ?h = "h @ [(SYS_read 0 512, a)] @ [(SYS_write 1 (map f ?c), b)]"
    have "copy_loop g e buf (s\<lparr>calls := h\<rparr>) = copy_loop g e (map f ?c @ ?rest) (s\<lparr>calls := ?h\<rparr>)"
      unfolding copy_loop_def by (intro iterate_next) (simp add: exec r pos gc w)
    moreover have "\<exists>b h'. copy_loop g e (map f ?c @ ?rest) (s\<lparr>calls := ?h\<rparr>) = Inr (b, s\<lparr>calls := h'\<rparr>) \<and>
        written h' = written ?h @ map f (concat (drop (reads ?h) chunks))"
      using True less.prems c by (intro less.hyps) auto
    moreover have "drop (reads h) chunks = ?c # drop (reads ?h) chunks" using True by (simp add: Cons_nth_drop_Suc)
    ultimately show ?thesis by auto
  qed
qed

lemma rot13_shift: "k < 26 \<Longrightarrow> ((k + 13) mod 26 + 13) mod 26 = (k :: nat)"
  by presburger

lemma rot13_involution: "rot13_char (rot13_char c) = c"
proof -
  define n where "n = (of_char c :: nat)"
  have c: "c = char_of n" by (simp add: n_def)
  consider "97 \<le> n" "n \<le> 122" | "65 \<le> n" "n \<le> 90" | "\<not> (97 \<le> n \<and> n \<le> 122)" "\<not> (65 \<le> n \<and> n \<le> 90)" by blast
  then show ?thesis
  proof cases
    case 1
    define k where "k = n - 97"
    have k: "n = 97 + k" "k < 26" "(k + 13) mod 26 < 26" using 1 by (auto simp: k_def)
    then show ?thesis using rot13_shift [OF k(2)]
      by (simp add: rot13_char_def c Let_def del: mod_add_left_eq mod_add_right_eq)
  next
    case 2
    define k where "k = n - 65"
    have k: "n = 65 + k" "k < 26" "(k + 13) mod 26 < 26" using 2 by (auto simp: k_def)
    then show ?thesis using rot13_shift [OF k(2)]
      by (simp add: rot13_char_def c Let_def del: mod_add_left_eq mod_add_right_eq)
  next
    case 3
    then show ?thesis by (auto simp: rot13_char_def Let_def n_def)
  qed
qed

lemma rot13_buf_chunk:
  "c \<noteq> [] \<Longrightarrow> length c \<le> 512 \<Longrightarrow> rot13_buf (of_nat (length c)) (c @ rest) = Some (map rot13_char c @ rest)"
  using small_len [of c] by (simp add: rot13_buf_def sint_small uint_nat)

lemma bind_opt_bounds_Some: "bind (opt_bounds (Some a)) f = f a"
  by (rule ext) (simp add: exec)

lemma cat_copy_loop: "cat_copy 0 = (copy_loop (\<lambda>_. Some) (\<lambda>b. b) :: string \<Rightarrow> (uproc, string) kop)"
  by (rule ext) (simp add: cat_copy_def copy_loop_def bind_opt_bounds_Some cong: if_cong)

lemma rot13_main_exec:
  assumes "calls s = []" "input_is s chunks"
  obtains h a b where "rot13_main argv s = Inr (0, s\<lparr>calls := h @ [(SYS_close 1, a), (SYS_close 0, b)]\<rparr>)"
    "written h = map rot13_char (concat chunks)"
proof -
  have s: "s = s\<lparr>calls := []\<rparr>" using assms(1) by simp
  let ?buf = "map (junk s) [0..<512]"
  from copy_loop_writes [OF assms(2), of ?buf rot13_buf rot13_char "\<lambda>_. ()" "[]"] rot13_buf_chunk obtain h where
    h: "copy_loop rot13_buf (\<lambda>_. ()) ?buf (s\<lparr>calls := []\<rparr>) = Inr ((), s\<lparr>calls := h\<rparr>)"
    "written h = map rot13_char (concat chunks)" by auto
  have "rot13_main argv s = Inr (0, s\<lparr>calls := h @ [(SYS_close 1, os s h (SYS_close 1)),
      (SYS_close 0, os s (h @ [(SYS_close 1, os s h (SYS_close 1))]) (SYS_close 0))]\<rparr>)"
    using h(1) unfolding s [symmetric]
    by (simp add: rot13_main_def local_array_def copy_loop_def sys_close_def or_error_def exec)
  with h(2) that show ?thesis by blast
qed

lemma cat_main_exec:
  assumes "calls s = []" "input_is s chunks"
  obtains h a where "cat_main [] s = Inr (0, s\<lparr>calls := h @ [(SYS_close 1, a)]\<rparr>)" "written h = concat chunks"
proof -
  have s: "s = s\<lparr>calls := []\<rparr>" using assms(1) by simp
  let ?buf = "map (junk s) [0..<512]"
  from copy_loop_writes [OF assms(2), of ?buf "\<lambda>_. Some" "\<lambda>c. c" "\<lambda>b. b" "[]"] obtain b h where
    h: "cat_copy 0 ?buf (s\<lparr>calls := []\<rparr>) = Inr (b, s\<lparr>calls := h\<rparr>)" "written h = concat chunks"
    by (auto simp: cat_copy_loop)
  have "cat_main [] s = Inr (0, s\<lparr>calls := h @ [(SYS_close 1, os s h (SYS_close 1))]\<rparr>)"
    using h(1) unfolding s [symmetric]
    by (simp add: cat_main_def local_array_def sys_close_def or_error_def exec)
  with h(2) that show ?thesis by blast
qed

section \<open>Property\<close>


definition sample_input :: "string list \<Rightarrow> uproc" where
  "sample_input chunks = \<lparr>os = \<lambda>h r. let o' = (if reads h < length chunks then chunks ! reads h else []) in
       \<lparr>errno = 0, retval = of_nat (length o'), out = o', fds = (0, 0)\<rparr>,
     calls = [], shell_buf = [], junk = \<lambda>_. CHR ''?'', stack_room = 0, signal_handler_at = 0\<rparr>"


end
