(* ===== verification/Shell_Parse.thy ===== *)
theory Shell_Parse
  imports Shell
begin

text \<open>
  What the parser of the shell computes: the stages of a pipeline are the parts of the line between the bars, the
  arguments of a stage its words.
\<close>

section \<open>Specification\<close>

function words :: "string \<Rightarrow> string list" where
  "words s = (let t = dropWhile is_ws s in
     if t = [] then [] else takeWhile (\<lambda>c. \<not> is_ws c) t # words (dropWhile (\<lambda>c. \<not> is_ws c) t))"
  by pat_completeness auto

lemma dropWhile_shorter: "xs \<noteq> [] \<Longrightarrow> P (hd xs) \<Longrightarrow> length (dropWhile P xs) < length xs"
  by (cases xs) (auto intro: le_imp_less_Suc length_dropWhile_le)

lemma words_shorter:
  "dropWhile is_ws s \<noteq> [] \<Longrightarrow> length (dropWhile (\<lambda>c. \<not> is_ws c) (dropWhile is_ws s)) < length s"
  using dropWhile_shorter [of "dropWhile is_ws s" "\<lambda>c. \<not> is_ws c"] hd_dropWhile [of is_ws s] length_dropWhile_le [of is_ws s]
  by simp

termination words by (relation "measure length") (auto simp: words_shorter)

text \<open>
  A line with \<open>n\<close> stages before it: \<open>None\<close> is a stage without words or with more than 15, or a seventeenth stage.
  A bar at the end of the line is ignored.
\<close>

function stage_spec :: "nat \<Rightarrow> string \<Rightarrow> string list list option" where
  "stage_spec n s = (let t = dropWhile is_ws s in
     if t = [] then Some []
     else if n = MAXARGS then None
     else
       let ws = words (takeWhile (\<lambda>c. c \<noteq> CHR ''|'') t); rest = dropWhile (\<lambda>c. c \<noteq> CHR ''|'') t in
       if ws = [] \<or> MAXARGS - 1 < length ws then None
       else if rest = [] then Some [ws] else map_option (Cons ws) (stage_spec (n + 1) (tl rest)))"
  by pat_completeness auto

lemma stage_shorter:
  assumes "dropWhile P (dropWhile is_ws s) \<noteq> []"
  shows "length (tl (dropWhile P (dropWhile is_ws s))) < length s"
proof -
  have "length (dropWhile P (dropWhile is_ws s)) \<le> length s"
    using length_dropWhile_le [of P "dropWhile is_ws s"] length_dropWhile_le [of is_ws s] by linarith
  with assms show ?thesis by (cases "dropWhile P (dropWhile is_ws s)") auto
qed

declare words.simps [simp del]

termination stage_spec
  by (relation "measure (\<lambda>(_, s). length s)") (auto dest: stage_shorter simp del: length_tl dropWhile_eq_Nil_conv)

declare stage_spec.simps [simp del]

text \<open>The string at an offset of a buffer.\<close>

definition cstr :: "string \<Rightarrow> nat \<Rightarrow> string" where
  "cstr buf p = takeWhile (\<lambda>c. c \<noteq> NUL) (drop p buf)"

lemma cstr_append: "length pre \<le> p \<Longrightarrow> cstr (pre @ x) p = cstr x (p - length pre)"
  by (simp add: cstr_def)

lemma cstr_prefix: "NUL \<in> set (drop p pre) \<Longrightarrow> cstr (pre @ x) p = cstr (pre @ y) p"
  by (cases "p \<le> length pre") (auto simp: cstr_def)

section \<open>The loops\<close>

lemma scan_text:
  "NUL \<notin> set tx \<Longrightarrow> scan P (pre @ tx @ NUL # rest) (length pre) = Some (length pre + length (takeWhile P tx))"
proof (induction tx arbitrary: pre)
  case Nil
  show ?case by (subst scan.simps) (simp add: nth_append)
next
  case (Cons c tx)
  show ?case
  proof (cases "P c")
    case True
    then have "scan P (pre @ (c # tx) @ NUL # rest) (length pre) = scan P ((pre @ [c]) @ tx @ NUL # rest) (length (pre @ [c]))"
      using Cons.prems by (subst scan.simps) (auto simp: nth_append)
    also have "\<dots> = Some (length (pre @ [c]) + length (takeWhile P tx))" using Cons.prems by (intro Cons.IH) simp
    finally show ?thesis using True by simp
  next
    case False
    then show ?thesis by (subst scan.simps) (simp add: nth_append)
  qed
qed

lemma blank_ws_text:
  "NUL \<notin> set tx \<Longrightarrow> blank_ws (pre @ tx @ NUL # rest) (length pre) =
     Some (pre @ replicate (length (takeWhile is_ws tx)) NUL @ dropWhile is_ws tx @ NUL # rest,
       length pre + length (takeWhile is_ws tx))"
proof (induction tx arbitrary: pre)
  case Nil
  show ?case by (subst blank_ws.simps) (simp add: nth_append)
next
  case (Cons c tx)
  show ?case
  proof (cases "is_ws c")
    case True
    then have "blank_ws (pre @ (c # tx) @ NUL # rest) (length pre) = blank_ws ((pre @ [NUL]) @ tx @ NUL # rest) (length (pre @ [NUL]))"
      using Cons.prems by (subst blank_ws.simps) (auto simp: nth_append)
    also have "\<dots> = Some ((pre @ [NUL]) @ replicate (length (takeWhile is_ws tx)) NUL @ dropWhile is_ws tx @ NUL # rest,
        length (pre @ [NUL]) + length (takeWhile is_ws tx))" using Cons.prems by (intro Cons.IH) simp
    finally show ?thesis using True by simp
  next
    case False
    then show ?thesis by (subst blank_ws.simps) (simp add: nth_append)
  qed
qed

text \<open>The loop of \<open>parse_stage\<close>.\<close>

definition stage_body :: "string \<times> nat \<times> nat list \<Rightarrow> ('z uproc_scheme, (string \<times> nat \<times> nat list) + (u32 \<times> string \<times> nat list)) kop" where
  "stage_body = (\<lambda>(buf, cmd, argv).
     bind (opt_bounds (blank_ws buf cmd)) (\<lambda>(buf, cmd).
     if buf ! cmd = NUL then ret (Inr (0, buf, argv))
     else if length argv = MAXARGS - 1 then
       seq (print_num (line ''Too many arguments (max %d)'') (of_nat MAXARGS)) (ret (Inr (-1, buf, argv)))
     else
       bind (opt_bounds (scan (\<lambda>c. \<not> is_ws c) buf cmd)) (\<lambda>p. ret (Inl (buf, p, argv @ [cmd])))))"

lemma parse_stage_loop: "parse_stage buf cmd = iterate stage_body (buf, cmd, [])"
  by (simp add: parse_stage_def stage_body_def)

lemma too_many_args: "runs s (print_num (line ''Too many arguments (max %d)'') n) (\<lambda>_. only_prints)"
  using runs_print_num [of "''Too many arguments (max ''" "'')'' @ [LF]"] by (simp add: line_def)

lemma words_word:
  assumes "dropWhile is_ws tx = c # u"
  shows "words tx = takeWhile (\<lambda>c. \<not> is_ws c) (c # u) # words (dropWhile (\<lambda>c. \<not> is_ws c) (c # u))"
  using assms by (subst words.simps) (simp add: Let_def)

lemma stage_word:
  fixes argv :: "nat list"
  assumes "NUL \<notin> set tx" "dropWhile is_ws tx = c # u" "length argv \<noteq> 15"
  defines "k \<equiv> length (takeWhile is_ws tx)" and "w \<equiv> takeWhile (\<lambda>c. \<not> is_ws c) (c # u)" and "v \<equiv> dropWhile (\<lambda>c. \<not> is_ws c) (c # u)"
  shows "iterate stage_body (pre @ tx @ NUL # rest, length pre, argv) s =
    iterate stage_body ((pre @ replicate k NUL @ w) @ v @ NUL # rest, length (pre @ replicate k NUL @ w), argv @ [length pre + k]) s"
proof (rule iterate_next)
  have n: "NUL \<notin> set (c # u)" using assms(1,2) by (metis set_dropWhileD)
  have b: "pre @ replicate k NUL @ (c # u) @ NUL # rest = (pre @ replicate k NUL) @ (c # u) @ NUL # rest" by simp
  have "scan (\<lambda>c. \<not> is_ws c) (pre @ replicate k NUL @ (c # u) @ NUL # rest) (length pre + k) = Some (length pre + k + length w)"
    using scan_text [OF n, of "\<lambda>c. \<not> is_ws c" "pre @ replicate k NUL" rest] by (simp add: w_def)
  moreover have "w @ v = c # u" by (simp add: w_def v_def)
  moreover have "(pre @ replicate k NUL @ (c # u) @ NUL # rest) ! (length pre + k) = c"
    by (simp add: nth_append)
  ultimately show "stage_body (pre @ tx @ NUL # rest, length pre, argv) s =
      Inr (Inl ((pre @ replicate k NUL @ w) @ v @ NUL # rest, length (pre @ replicate k NUL @ w), argv @ [length pre + k]), s)"
    using blank_ws_text [OF assms(1), of pre rest] assms(2,3) n by (auto simp: stage_body_def exec k_def)
qed

lemma stage_loop_ok:
  assumes "NUL \<notin> set tx" "length argv + length (words tx) \<le> 15"
  shows "\<exists>tx' new. iterate stage_body (pre @ tx @ NUL # rest, length pre, argv) s = Inr ((0, pre @ tx' @ NUL # rest, argv @ new), s) \<and>
    length tx' = length tx \<and> map (cstr (pre @ tx' @ NUL # rest)) new = words tx \<and>
    (\<forall>p \<in> set new. length pre \<le> p \<and> p < length pre + length tx) \<and> (tx \<noteq> [] \<longrightarrow> is_ws (hd tx) \<longrightarrow> hd tx' = NUL)"
  using assms
proof (induction "length tx" arbitrary: tx pre argv rule: less_induct)
  case less
  let ?k = "length (takeWhile is_ws tx)"
  have k: "?k + length (dropWhile is_ws tx) = length tx" by (metis length_append takeWhile_dropWhile_id)
  have hd: "tx \<noteq> [] \<Longrightarrow> is_ws (hd tx) \<Longrightarrow> 0 < ?k" by (cases tx) auto
  show ?case
  proof (cases "dropWhile is_ws tx")
    case Nil
    then have "iterate stage_body (pre @ tx @ NUL # rest, length pre, argv) s = Inr ((0, pre @ replicate ?k NUL @ NUL # rest, argv), s)"
      using blank_ws_text [OF less.prems(1), of pre rest] by (intro iterate_done) (simp add: stage_body_def exec nth_append)
    moreover have "words tx = []" using Nil by (subst words.simps) simp
    ultimately show ?thesis using k Nil hd
      by (intro exI [of _ "replicate ?k NUL"] exI [of _ "[]"]) (auto simp: hd_replicate)
  next
    case (Cons c u)
    define w where "w = takeWhile (\<lambda>c. \<not> is_ws c) (c # u)"
    define v where "v = dropWhile (\<lambda>c. \<not> is_ws c) (c # u)"
    have c: "\<not> is_ws c" using hd_dropWhile [of is_ws tx] Cons by simp
    have wv: "w @ v = c # u" "w \<noteq> []" using c by (simp_all add: w_def v_def)
    have len: "?k + length w + length v = length tx" using k Cons wv(1) by (metis length_append add.assoc)
    have nul: "NUL \<notin> set w" "NUL \<notin> set v"
      using less.prems(1) Cons wv(1) by (metis Un_iff set_append set_dropWhileD)+
    have ws: "words tx = w # words v" using words_word [OF Cons] by (simp add: w_def v_def)
    let ?pre = "pre @ replicate ?k NUL @ w"
    have "length argv \<noteq> 15" using less.prems(2) ws by simp
    note step = stage_word [OF less.prems(1) Cons this, of pre rest s, folded w_def v_def]
    have "length v < length tx" using len wv(2) by (cases w) auto
    from less.hyps [OF this nul(2), of "argv @ [length pre + ?k]" ?pre] less.prems(2) ws obtain tx' new where
      IH: "iterate stage_body (?pre @ v @ NUL # rest, length ?pre, argv @ [length pre + ?k]) s =
        Inr ((0, ?pre @ tx' @ NUL # rest, (argv @ [length pre + ?k]) @ new), s)"
      "length tx' = length v" "map (cstr (?pre @ tx' @ NUL # rest)) new = words v"
      "\<forall>p \<in> set new. length ?pre \<le> p \<and> p < length ?pre + length v" "v \<noteq> [] \<longrightarrow> is_ws (hd v) \<longrightarrow> hd tx' = NUL"
      by auto
    have "takeWhile (\<lambda>c. c \<noteq> NUL) (w @ tx' @ NUL # rest) = w"
    proof -
      have "tx' = [] \<or> hd tx' = NUL"
      proof (cases "v = []")
        case True then show ?thesis using IH(2) by simp
      next
        case False
        then have "is_ws (hd v)" using hd_dropWhile [of "\<lambda>c. \<not> is_ws c" "c # u"] by (simp add: v_def)
        with False IH(5) show ?thesis by simp
      qed
      then have "takeWhile (\<lambda>c. c \<noteq> NUL) (tx' @ NUL # rest) = []" by (cases tx') auto
      with nul(1) show ?thesis by (simp add: takeWhile_append2 takeWhile_append)
    qed
    then have first: "cstr (?pre @ tx' @ NUL # rest) (length pre + ?k) = w" by (simp add: cstr_def)
    let ?tx = "replicate ?k NUL @ w @ tx'"
    have "iterate stage_body (pre @ tx @ NUL # rest, length pre, argv) s =
        Inr ((0, pre @ ?tx @ NUL # rest, argv @ (length pre + ?k) # new), s)" using step IH(1) by simp
    moreover have "map (cstr (pre @ ?tx @ NUL # rest)) ((length pre + ?k) # new) = words tx"
      using first IH(3) ws by simp
    moreover have "\<forall>p \<in> set ((length pre + ?k) # new). length pre \<le> p \<and> p < length pre + length tx"
      using IH(4) len wv(2) by (cases w) force+
    moreover have "tx \<noteq> [] \<longrightarrow> is_ws (hd tx) \<longrightarrow> hd ?tx = NUL" using hd by (cases ?k) auto
    moreover have "length ?tx = length tx" using len IH(2) by simp
    ultimately show ?thesis by blast
  qed
qed

definition parse_fails :: "u32 \<times> 'a \<Rightarrow> (sysreq \<times> sysres) list \<Rightarrow> bool" where
  "parse_fails r h \<longleftrightarrow> fst r = -1 \<and> only_prints h"

lemma parse_fails_simps [simp]: "parse_fails (r, x) h \<longleftrightarrow> r = -1 \<and> only_prints h"
  by (simp add: parse_fails_def)

lemma stage_loop_fails:
  assumes "NUL \<notin> set tx" "length argv \<le> 15" "15 < length argv + length (words tx)"
  shows "runs s (iterate stage_body (pre @ tx @ NUL # rest, length pre, argv)) parse_fails"
  using assms
proof (induction "length tx" arbitrary: tx pre argv rule: less_induct)
  case less
  obtain c u where u: "dropWhile is_ws tx = c # u"
    using less.prems(2,3) words.simps [of tx] by (cases "dropWhile is_ws tx") auto
  define w where "w = takeWhile (\<lambda>c. \<not> is_ws c) (c # u)"
  define v where "v = dropWhile (\<lambda>c. \<not> is_ws c) (c # u)"
  have c: "\<not> is_ws c" "c \<noteq> NUL"
    using hd_dropWhile [of is_ws tx] less.prems(1) u by (auto dest!: arg_cong [where f = set] dest: set_dropWhileD)
  show ?case
  proof (cases "length argv = 15")
    case True
    obtain a h where p: "print_num (line ''Too many arguments (max %d)'') 16 s = Inr (a, after s h)" "only_prints h"
      using too_many_args [of s 16] by (auto simp: runs_def)
    have "stage_body (pre @ tx @ NUL # rest, length pre, argv) s =
        Inr (Inr (-1, pre @ replicate (length (takeWhile is_ws tx)) NUL @ dropWhile is_ws tx @ NUL # rest, argv), after s h)"
      using blank_ws_text [OF less.prems(1), of pre rest] u c True p(1) by (simp add: stage_body_def exec nth_append)
    then show ?thesis using p(2) iterate_done [of stage_body "(pre @ tx @ NUL # rest, length pre, argv)" s] by (auto simp: runs_def)
  next
    case False
    let ?pre = "pre @ replicate (length (takeWhile is_ws tx)) NUL @ w"
    have "length v < length tx" using words_shorter [of tx] u by (simp add: v_def)
    moreover have "NUL \<notin> set v" using less.prems(1) u unfolding v_def by (metis set_dropWhileD)
    moreover have "words tx = w # words v" using words_word [OF u] by (simp add: w_def v_def)
    ultimately have "runs s (iterate stage_body (?pre @ v @ NUL # rest, length ?pre, argv @ [length pre + length (takeWhile is_ws tx)]))
        parse_fails"
      using less.prems False by (intro less.hyps) auto
    then show ?thesis
      unfolding runs_def stage_word [OF less.prems(1) u False, of pre rest s, folded w_def v_def] .
  qed
qed

lemma parse_stage_ok:
  assumes "NUL \<notin> set tx" "length (words tx) \<le> 15"
  shows "\<exists>tx' st. parse_stage (pre @ tx @ NUL # rest) (length pre) s = Inr ((0, pre @ tx' @ NUL # rest, st), s) \<and>
    length tx' = length tx \<and> map (cstr (pre @ tx' @ NUL # rest)) st = words tx \<and>
    (\<forall>p \<in> set st. length pre \<le> p \<and> p < length pre + length tx)"
  using stage_loop_ok [OF assms(1), of "[]" pre rest s] assms(2) unfolding parse_stage_loop by auto

lemma parse_stage_fails:
  assumes "NUL \<notin> set tx" "\<not> length (words tx) \<le> 15"
  shows "runs s (parse_stage (pre @ tx @ NUL # rest) (length pre)) parse_fails"
  using stage_loop_fails [OF assms(1), of "[]"] assms(2) unfolding parse_stage_loop by auto

section \<open>Pipelines\<close>

definition pipe_body :: "string \<times> nat \<times> nat list list \<Rightarrow>
    ('z uproc_scheme, (string \<times> nat \<times> nat list list) + (u32 \<times> string \<times> nat list list)) kop" where
  "pipe_body = (\<lambda>(buf, seg, stages).
     bind (opt_bounds (scan is_ws buf seg)) (\<lambda>seg.
     if buf ! seg = NUL then ret (Inr (0, buf, stages))
     else if length stages = MAXARGS then
       seq (print (line ''Too many pipeline stages'')) (ret (Inr (-1, buf, stages)))
     else
       bind (opt_bounds (scan (\<lambda>c. c \<noteq> CHR ''|'') buf seg)) (\<lambda>end'.
       let found_pipe = (buf ! end' = CHR ''|'');
           buf = (if found_pipe then buf[end' := NUL] else buf) in
       bind (parse_stage buf seg) (\<lambda>(r, buf, stage).
       if r <s 0 then ret (Inr (-1, buf, stages))
       else if stage = [] then
         seq (print (line ''Invalid null command in pipeline'')) (ret (Inr (-1, buf, stages)))
       else if \<not> found_pipe then ret (Inr (0, buf, stages @ [stage]))
       else ret (Inl (buf, end' + 1, stages @ [stage]))))))"

lemma parse_pipeline_loop: "parse_pipeline buf = iterate pipe_body (buf, 0, [])"
  by (simp add: parse_pipeline_def pipe_body_def)

text \<open>
  One stage: with the blanks \<open>b\<close> before it, its text \<open>x\<close> and the rest of the line \<open>y\<close>, which is empty or begins with the bar.
\<close>

lemma pipe_body_stage:
  assumes "NUL \<notin> set (b @ x @ y)" "\<forall>c \<in> set b. is_ws c" "x @ y \<noteq> []" "\<not> is_ws (hd (x @ y))"
    and "CHR ''|'' \<notin> set x" "y \<noteq> [] \<Longrightarrow> hd y = CHR ''|''" "length stages \<noteq> 16"
  shows "pipe_body (pre @ (b @ x @ y) @ NUL # rest, length pre, stages) s =
    (let post = (if y = [] then NUL # rest else NUL # tl y @ NUL # rest) in
     bind (parse_stage ((pre @ b) @ x @ post) (length (pre @ b))) (\<lambda>(r, buf, stage).
       if r <s 0 then ret (Inr (-1, buf, stages))
       else if stage = [] then
         seq (print (line ''Invalid null command in pipeline'')) (ret (Inr (-1, buf, stages)))
       else if y = [] then ret (Inr (0, buf, stages @ [stage]))
       else ret (Inl (buf, length (pre @ b @ x) + 1, stages @ [stage]))) s)"
proof -
  let ?buf = "pre @ (b @ x @ y) @ NUL # rest"
  have tw: "takeWhile is_ws (b @ x @ y) = b"
    using assms(2-4) by (cases "x @ y") (auto simp: takeWhile_append2)
  have s1: "scan is_ws ?buf (length pre) = Some (length (pre @ b))"
    using scan_text [OF assms(1), of is_ws pre rest] tw by simp
  have tx: "takeWhile (\<lambda>c. c \<noteq> CHR ''|'') (x @ y) = x"
    using assms(5,6) by (subst takeWhile_append2; cases y) auto
  have s2: "scan (\<lambda>c. c \<noteq> CHR ''|'') ?buf (length (pre @ b)) = Some (length (pre @ b @ x))"
    using scan_text [of "x @ y" "\<lambda>c. c \<noteq> CHR ''|''" "pre @ b" rest] assms(1) tx by simp
  have h: "?buf ! length (pre @ b) \<noteq> NUL" using assms(1,3) by (cases "x @ y") (auto simp: nth_append)
  show ?thesis
  proof (cases y)
    case Nil
    have "?buf ! length (pre @ b @ x) = NUL" using Nil by (simp add: nth_append)
    with s1 s2 h Nil assms(7) show ?thesis by (simp add: pipe_body_def exec cong: if_cong)
  next
    case (Cons c z)
    have "?buf ! length (pre @ b @ x) = CHR ''|''" using Cons assms(6) by (simp add: nth_append)
    moreover have "?buf[length (pre @ b @ x) := NUL] = (pre @ b) @ x @ NUL # z @ NUL # rest"
      using Cons by (simp add: list_update_append)
    ultimately show ?thesis using s1 s2 h Cons assms(7) by (simp add: pipe_body_def exec Let_def cong: if_cong)
  qed
qed

text \<open>The text of a line, cut at its first stage.\<close>

lemma line_cases:
  obtains "dropWhile is_ws tx = []"
  | b x y where "tx = b @ x @ y" "\<forall>c \<in> set b. is_ws c" "x @ y \<noteq> []" "\<not> is_ws (hd (x @ y))"
    "CHR ''|'' \<notin> set x" "y \<noteq> [] \<Longrightarrow> hd y = CHR ''|''" "dropWhile is_ws tx = x @ y"
proof (cases "dropWhile is_ws tx = []")
  case False
  let ?t = "dropWhile is_ws tx"
  show ?thesis
  proof (rule that(2) [of "takeWhile is_ws tx" "takeWhile (\<lambda>c. c \<noteq> CHR ''|'') ?t" "dropWhile (\<lambda>c. c \<noteq> CHR ''|'') ?t"])
    show "\<forall>c \<in> set (takeWhile is_ws tx). is_ws c" by (auto dest: set_takeWhileD)
    show "CHR ''|'' \<notin> set (takeWhile (\<lambda>c. c \<noteq> CHR ''|'') ?t)" by (auto dest: set_takeWhileD)
    show "dropWhile (\<lambda>c. c \<noteq> CHR ''|'') ?t \<noteq> [] \<Longrightarrow> hd (dropWhile (\<lambda>c. c \<noteq> CHR ''|'') ?t) = CHR ''|''"
      using hd_dropWhile [of "\<lambda>c. c \<noteq> CHR ''|''" ?t] by auto
  qed (use False hd_dropWhile [of is_ws tx] in auto)
qed (use that(1) in auto)

lemma stage_spec_cut:
  assumes "dropWhile is_ws tx = x @ y" "x @ y \<noteq> []" "CHR ''|'' \<notin> set x" "y \<noteq> [] \<Longrightarrow> hd y = CHR ''|''" "n \<noteq> 16"
  shows "stage_spec n tx = (if words x = [] \<or> 15 < length (words x) then None
    else if y = [] then Some [words x] else map_option (Cons (words x)) (stage_spec (n + 1) (tl y)))"
proof -
  have "takeWhile (\<lambda>c. c \<noteq> CHR ''|'') (x @ y) = x" "dropWhile (\<lambda>c. c \<noteq> CHR ''|'') (x @ y) = y"
    using assms(3,4) by (subst takeWhile_append2 dropWhile_append2; cases y; auto)+
  with assms(1,2,5) show ?thesis by (subst stage_spec.simps) (simp only: Let_def refl if_False, simp)
qed

definition terminated :: "string \<Rightarrow> nat list list \<Rightarrow> bool" where
  "terminated buf stages \<longleftrightarrow> (\<forall>st \<in> set stages. \<forall>p \<in> set st. NUL \<in> set (drop p buf))"

lemma terminated_append: "terminated pre stages \<Longrightarrow> terminated (pre @ post) stages"
  by (auto simp: terminated_def)

lemma map_cstr_prefix: "terminated pre stages \<Longrightarrow> map (map (cstr (pre @ x))) stages = map (map (cstr (pre @ y))) stages"
  by (auto simp: terminated_def intro!: cstr_prefix)

lemma pipe_loop_end:
  assumes "NUL \<notin> set tx" "dropWhile is_ws tx = []"
  shows "iterate pipe_body (pre @ tx @ NUL # rest, length pre, stages) s = Inr ((0, pre @ tx @ NUL # rest, stages), s)"
proof (rule iterate_done)
  have "takeWhile is_ws tx = tx" using assms(2) by (metis append_Nil2 takeWhile_dropWhile_id)
  then have "length (takeWhile is_ws tx) = length tx" by metis
  then show "pipe_body (pre @ tx @ NUL # rest, length pre, stages) s = Inr (Inr (0, pre @ tx @ NUL # rest, stages), s)"
    using scan_text [OF assms(1), of is_ws pre rest] by (simp add: pipe_body_def exec nth_append)
qed

lemma iterate_runs_done:
  assumes "runs s (f a) (\<lambda>r h. \<exists>b. r = Inr b \<and> Q b h)"
  shows "runs s (iterate f a) Q"
proof -
  obtain b h where "f a s = Inr (Inr b, after s h)" "Q b h" using assms by (auto simp: runs_def)
  then show ?thesis using iterate_done [of f a s b "after s h"] by (auto simp: runs_def)
qed

lemma iterate_runs_next:
  assumes "f a s = Inr (Inl a', s)" "runs s (iterate f a') Q"
  shows "runs s (iterate f a) Q"
  using assms iterate_next [of f a s a' s] by (simp add: runs_def)

lemma pipe_loop_too_many:
  assumes "NUL \<notin> set tx" "dropWhile is_ws tx \<noteq> []" "length stages = 16"
  shows "runs s (iterate pipe_body (pre @ tx @ NUL # rest, length pre, stages)) parse_fails"
proof (rule iterate_runs_done)
  let ?p = "length pre + length (takeWhile is_ws tx)"
  have tx: "tx = takeWhile is_ws tx @ dropWhile is_ws tx" by simp
  have "(pre @ (takeWhile is_ws tx @ dropWhile is_ws tx) @ NUL # rest) ! ?p = hd (dropWhile is_ws tx)"
    using assms(2) by (cases "dropWhile is_ws tx") (simp_all add: nth_append del: takeWhile_dropWhile_id)
  then have "(pre @ tx @ NUL # rest) ! ?p \<noteq> NUL"
    using assms(1,2) by (metis hd_in_set set_dropWhileD takeWhile_dropWhile_id)
  then show "runs s (pipe_body (pre @ tx @ NUL # rest, length pre, stages))
      (\<lambda>r h. \<exists>b. r = Inr b \<and> parse_fails b h)"
    unfolding pipe_body_def prod.case
    by (intro runs_bind [OF runs_opt [OF scan_text [OF assms(1)], where Q = "\<lambda>a h. a = ?p \<and> h = []"]])
      (use assms(3) in \<open>auto intro!: runs_seq [OF runs_print] runs_ret simp: line_def\<close>)
qed

lemma pipe_stage_fails:
  assumes "NUL \<notin> set (b @ x @ y)" "\<forall>c \<in> set b. is_ws c" "x @ y \<noteq> []" "\<not> is_ws (hd (x @ y))"
    and "CHR ''|'' \<notin> set x" "y \<noteq> [] \<Longrightarrow> hd y = CHR ''|''" "length stages \<noteq> 16"
    and "words x = [] \<or> 15 < length (words x)"
  shows "runs s (iterate pipe_body (pre @ (b @ x @ y) @ NUL # rest, length pre, stages)) parse_fails"
proof (rule iterate_runs_done)
  obtain rest' where r: "(if y = [] then NUL # rest else NUL # tl y @ NUL # rest) = NUL # rest'" by metis
  have x: "NUL \<notin> set x" using assms(1) by simp
  have "runs s (parse_stage ((pre @ b) @ x @ NUL # rest') (length (pre @ b)))
      (\<lambda>(r, _, st) h. (r = -1 \<or> r = 0 \<and> st = []) \<and> only_prints h)"
  proof (cases "15 < length (words x)")
    case True
    then show ?thesis by (intro runs_weaken [OF parse_stage_fails [OF x]]) auto
  next
    case False
    with assms(8) parse_stage_ok [OF x, of "pre @ b" rest' s] show ?thesis
      by (auto simp: runs_def intro!: exI [of _ "[]"])
  qed
  then have "runs s (bind (parse_stage ((pre @ b) @ x @ NUL # rest') (length (pre @ b))) (\<lambda>(r, buf, stage).
       if r <s 0 then ret (Inr (-1, buf, stages))
       else if stage = [] then
         seq (print (line ''Invalid null command in pipeline'')) (ret (Inr (-1, buf, stages)))
       else if y = [] then ret (Inr (0, buf, stages @ [stage]))
       else ret (Inl (buf, length (pre @ b @ x) + 1, stages @ [stage]))))
      (\<lambda>r h. \<exists>b. r = Inr b \<and> parse_fails b h)"
    by (rule runs_bind) (auto intro!: runs_seq [OF runs_print] runs_ret simp: line_def)
  then show "runs s (pipe_body (pre @ (b @ x @ y) @ NUL # rest, length pre, stages))
      (\<lambda>r h. \<exists>b. r = Inr b \<and> parse_fails b h)"
    unfolding runs_def using pipe_body_stage [OF assms(1-7), of pre rest s] unfolding r Let_def by simp
qed

lemma pipe_loop:
  assumes "NUL \<notin> set tx" "length stages \<le> 16" "terminated pre stages"
  shows "case stage_spec (length stages) tx of
      None \<Rightarrow> runs s (iterate pipe_body (pre @ tx @ NUL # rest, length pre, stages)) parse_fails
    | Some ss \<Rightarrow> \<exists>post st. iterate pipe_body (pre @ tx @ NUL # rest, length pre, stages) s = Inr ((0, pre @ post, stages @ st), s) \<and>
        length post = length (tx @ NUL # rest) \<and> map (map (cstr (pre @ post))) st = ss \<and> terminated (pre @ post) st"
  using assms
proof (induction "length tx" arbitrary: tx pre stages rule: less_induct)
  case less
  note spec = stage_spec.simps [of "length stages" tx]
  from line_cases [of tx] show ?case
  proof cases
    case 1
    then have sp: "stage_spec (length stages) tx = Some []" using spec by simp
    show ?thesis unfolding sp option.case
      by (intro exI [of _ "tx @ NUL # rest"] exI [of _ "[]"])
        (simp add: pipe_loop_end [OF less.prems(1) 1] terminated_def)
  next
    case (2 b x y)
    have nul: "NUL \<notin> set (b @ x @ y)" "NUL \<notin> set x" using less.prems(1) 2(1) by auto
    show ?thesis
    proof (cases "length stages = 16")
      case True
      then have "stage_spec (length stages) tx = None" using spec 2(3,7) by (simp add: Let_def)
      with pipe_loop_too_many [OF less.prems(1) _ True, of s pre rest] 2(3,7) show ?thesis by simp
    next
      case False
      show ?thesis
      proof (cases "words x = [] \<or> 15 < length (words x)")
        case True
        then have "stage_spec (length stages) tx = None" using stage_spec_cut [OF 2(7,3,5,6) False] by simp
        with pipe_stage_fails [OF nul(1) 2(2-6) False True, of s pre rest] 2(1) show ?thesis by simp
      next
        case ok: False
        let ?rest = "if y = [] then rest else tl y @ NUL # rest"
        have post: "(if y = [] then NUL # rest else NUL # tl y @ NUL # rest) = NUL # ?rest" by simp
        obtain x' st where st: "parse_stage ((pre @ b) @ x @ NUL # ?rest) (length (pre @ b)) s = Inr ((0, (pre @ b) @ x' @ NUL # ?rest, st), s)"
          "length x' = length x" "map (cstr ((pre @ b) @ x' @ NUL # ?rest)) st = words x"
          "\<forall>p \<in> set st. length (pre @ b) \<le> p \<and> p < length (pre @ b) + length x"
          using parse_stage_ok [OF nul(2), of "pre @ b" ?rest s] ok by auto
        let ?pre = "pre @ b @ x' @ [NUL]"
        have st_ne: "st \<noteq> []" using st(3) ok by auto
        have tm: "terminated ?pre [st]" using st(2,4) by (auto simp: terminated_def)
        have "pipe_body (pre @ tx @ NUL # rest, length pre, stages) s =
          (if y = [] then Inr (Inr (0, ?pre @ rest, stages @ [st]), s)
           else Inr (Inl (?pre @ tl y @ NUL # rest, length ?pre, stages @ [st]), s))"
          using pipe_body_stage [OF nul(1) 2(2-6) False, of pre rest s] st(1,2) st_ne unfolding 2(1) post Let_def
          by (simp add: exec)
        note step = this
        show ?thesis
        proof (cases "y = []")
          case True
          have sp: "stage_spec (length stages) tx = Some [words x]" using stage_spec_cut [OF 2(7,3,5,6) False] ok True by simp
          have it: "iterate pipe_body (pre @ tx @ NUL # rest, length pre, stages) s = Inr ((0, ?pre @ rest, stages @ [st]), s)"
            using step True by (intro iterate_done) simp
          show ?thesis unfolding sp option.case
            by (intro exI [of _ "b @ x' @ NUL # rest"] exI [of _ "[st]"])
              (use it st(2,3) True 2(1) terminated_append [OF tm, of rest] in simp)
        next
          case y: False
          have sp: "stage_spec (length stages) tx = map_option (Cons (words x)) (stage_spec (length (stages @ [st])) (tl y))"
            using stage_spec_cut [OF 2(7,3,5,6) False] ok y by simp
          have nx: "pipe_body (pre @ tx @ NUL # rest, length pre, stages) s =
              Inr (Inl (?pre @ tl y @ NUL # rest, length ?pre, stages @ [st]), s)" using step y by simp
          have "length (tl y) < length tx" using 2(1) y by (cases y) auto
          moreover have "NUL \<notin> set (tl y)" using nul(1) y by (cases y) auto
          moreover have "terminated ?pre (stages @ [st])" using tm terminated_append [OF less.prems(3), of "b @ x' @ [NUL]"]
            by (auto simp: terminated_def)
          ultimately have IH: "case stage_spec (length (stages @ [st])) (tl y) of
              None \<Rightarrow> runs s (iterate pipe_body (?pre @ tl y @ NUL # rest, length ?pre, stages @ [st])) parse_fails
            | Some ss \<Rightarrow> \<exists>post st'. iterate pipe_body (?pre @ tl y @ NUL # rest, length ?pre, stages @ [st]) s =
                  Inr ((0, ?pre @ post, (stages @ [st]) @ st'), s) \<and>
                length post = length (tl y @ NUL # rest) \<and> map (map (cstr (?pre @ post))) st' = ss \<and> terminated (?pre @ post) st'"
            using less.prems(2) False by (intro less.hyps) auto
          show ?thesis
          proof (cases "stage_spec (length (stages @ [st])) (tl y)")
            case None
            with IH iterate_runs_next [where f = pipe_body, OF nx] show ?thesis unfolding sp None by simp
          next
            case (Some ss)
            with IH obtain post st' where p: "iterate pipe_body (?pre @ tl y @ NUL # rest, length ?pre, stages @ [st]) s =
                  Inr ((0, ?pre @ post, (stages @ [st]) @ st'), s)"
                "length post = length (tl y @ NUL # rest)" "map (map (cstr (?pre @ post))) st' = ss" "terminated (?pre @ post) st'"
              by auto
            have it: "iterate pipe_body (pre @ tx @ NUL # rest, length pre, stages) s = Inr ((0, ?pre @ post, (stages @ [st]) @ st'), s)"
              using iterate_next [where f = pipe_body, OF nx] p(1) by simp
            have c: "map (map (cstr (?pre @ post))) [st] = [words x]"
              using map_cstr_prefix [OF tm, of post "?rest"] st(3) by (simp del: map_eq_conv)
            have t: "terminated (?pre @ post) (st # st')"
              using terminated_append [OF tm, of post] p(4) by (auto simp: terminated_def)
            have l: "length ((b @ x' @ [NUL]) @ post) = length (tx @ NUL # rest)"
              using p(2) 2(1) st(2) y by (cases y) auto
            show ?thesis unfolding sp Some option.map option.case
              by (intro exI [of _ "(b @ x' @ [NUL]) @ post"] exI [of _ "st # st'"]) (use it c t l p(3) in simp)
          qed
        qed
      qed
    qed
  qed
qed

lemma parse_pipeline_spec:
  assumes "NUL \<notin> set tx"
  shows "case stage_spec 0 tx of
      None \<Rightarrow> runs s (parse_pipeline (tx @ NUL # rest)) parse_fails
    | Some ss \<Rightarrow> \<exists>buf st. parse_pipeline (tx @ NUL # rest) s = Inr ((0, buf, st), s) \<and>
        length buf = length (tx @ NUL # rest) \<and> map (map (cstr buf)) st = ss \<and> terminated buf st"
  using pipe_loop [OF assms, of "[]" "[]" s rest]
  by (cases "stage_spec 0 tx") (simp_all add: parse_pipeline_loop terminated_def)

section \<open>Property\<close>

text \<open>
  C33. The parser of the shell. A line is cut at its bars, and each part at blanks: \<open>parse_pipeline\<close> returns, makes no
  system call when it succeeds, and the strings its offsets point to are exactly the words of the stages, in order, each
  properly terminated inside the buffer. It fails, having printed a message, exactly when a stage before a bar or the
  only one is empty, when a stage has more than 15 words or when there are more than 16 stages; a bar at the end of the line is
  ignored. No line makes it read or write outside the buffer.
\<close>

theorem parse_pipeline_correct:
  assumes "NUL \<notin> set tx"
  shows "case stage_spec 0 tx of
      None \<Rightarrow> \<exists>buf st h. parse_pipeline (tx @ NUL # rest) s = Inr ((-1, buf, st), after s h) \<and> only_prints h
    | Some ss \<Rightarrow> \<exists>buf st. parse_pipeline (tx @ NUL # rest) s = Inr ((0, buf, st), s) \<and>
        length buf = length (tx @ NUL # rest) \<and> map (map (cstr buf)) st = ss \<and> (\<forall>x \<in> set st. \<forall>p \<in> set x. NUL \<in> set (drop p buf))"
  using parse_pipeline_spec [OF assms, of s rest]
  by (auto simp: runs_def terminated_def split: option.splits)

text \<open>A kernel that answers everything with success and descriptor or process 3.\<close>

definition sample_shell :: uproc where
  "sample_shell = \<lparr>os = \<lambda>_ _. \<lparr>errno = 0, retval = 3, out = [], fds = (3, 4)\<rparr>, calls = [], shell_buf = replicate 1024 NUL,
     junk = \<lambda>_. NUL, stack_room = 10, signal_handler_at = 0x40001000\<rparr>"

theorem parse_pipeline_correct_witness:
  "(\<exists>buf st. parse_pipeline ('' LS  dir | ROT13'' @ NUL # ''??'') sample_shell = Inr ((0, buf, st), sample_shell) \<and>
      map (map (cstr buf)) st = [[''LS'', ''dir''], [''ROT13'']]) \<and>
   (\<exists>buf st h. parse_pipeline (''LS || CAT'' @ NUL # []) sample_shell = Inr ((-1, buf, st), after sample_shell h) \<and> only_prints h)"
proof -
  have "NUL \<notin> set '' LS  dir | ROT13''" "stage_spec 0 '' LS  dir | ROT13'' = Some [[''LS'', ''dir''], [''ROT13'']]"
    "NUL \<notin> set ''LS || CAT''" "stage_spec 0 ''LS || CAT'' = None" by code_simp+
  with parse_pipeline_correct [of "'' LS  dir | ROT13''" "''??''" sample_shell] parse_pipeline_correct [of "''LS || CAT''" "[]" sample_shell]
  show ?thesis by auto
qed

end
