(* ===== verification/Shell_Pipeline.thy ===== *)
theory Shell_Pipeline
  imports Shell_Parse "HOL-Library.Multiset"
begin

text \<open>
  Descriptors and processes of a pipeline: what \<open>run_pipeline\<close> opens it closes, and whom it starts it waits for.
\<close>

section \<open>Accounting\<close>

text \<open>
  The descriptors obtained and closed by a sequence of calls, the read ends of its pipes, the processes started and
  waited for.
\<close>

definition opened :: "(sysreq \<times> sysres) list \<Rightarrow> u32 list" where
  "opened h = concat (map (\<lambda>(r, a). case r of
     SYS_pipe \<Rightarrow> if errno a = 0 then [fst (fds a), snd (fds a)] else []
   | SYS_open _ _ \<Rightarrow> if errno a = 0 \<and> 0 <=s retval a then [retval a] else []
   | _ \<Rightarrow> []) h)"

definition closed :: "(sysreq \<times> sysres) list \<Rightarrow> u32 list" where
  "closed h = concat (map (\<lambda>(r, a). case r of SYS_close fd \<Rightarrow> [fd] | _ \<Rightarrow> []) h)"

definition read_ends :: "(sysreq \<times> sysres) list \<Rightarrow> u32 list" where
  "read_ends h = concat (map (\<lambda>(r, a). case r of SYS_pipe \<Rightarrow> if errno a = 0 then [fst (fds a)] else [] | _ \<Rightarrow> []) h)"

definition spawned :: "(sysreq \<times> sysres) list \<Rightarrow> u32 list" where
  "spawned h = concat (map (\<lambda>(r, a). case r of
     SYS_spawn _ _ _ _ \<Rightarrow> if errno a = 0 \<and> 0 <=s retval a then [retval a] else [] | _ \<Rightarrow> []) h)"

definition waited :: "(sysreq \<times> sysres) list \<Rightarrow> u32 list" where
  "waited h = concat (map (\<lambda>(r, a). case r of SYS_waitpid p \<Rightarrow> [p] | _ \<Rightarrow> []) h)"

lemmas account_defs = opened_def closed_def read_ends_def spawned_def waited_def

lemma account_append [simp]:
  "opened (h @ h') = opened h @ opened h'" "closed (h @ h') = closed h @ closed h'"
  "read_ends (h @ h') = read_ends h @ read_ends h'" "spawned (h @ h') = spawned h @ spawned h'"
  "waited (h @ h') = waited h @ waited h'"
  by (simp_all add: account_defs)

lemma account_Nil [simp]:
  "opened [] = []" "closed [] = []" "read_ends [] = []" "spawned [] = []" "waited [] = []"
  by (simp_all add: account_defs)

definition neutral :: "(sysreq \<times> sysres) list \<Rightarrow> bool" where
  "neutral h \<longleftrightarrow> opened h = [] \<and> closed h = [] \<and> read_ends h = [] \<and> spawned h = [] \<and> waited h = []"

lemma neutral_simps [simp]: "neutral []" "neutral (h @ h') \<longleftrightarrow> neutral h \<and> neutral h'"
  by (auto simp: neutral_def account_defs)

lemma only_prints_neutral [intro]: "only_prints h \<Longrightarrow> neutral h"
  by (induction h) (auto simp: only_prints_def neutral_def account_defs)

lemma neutralD [dest]: "neutral h \<Longrightarrow> opened h = [] \<and> closed h = [] \<and> read_ends h = [] \<and> spawned h = [] \<and> waited h = []"
  by (simp add: neutral_def)

section \<open>The calls of one stage\<close>

lemma u_strcmp_terminated: "NUL \<in> set p \<Longrightarrow> NUL \<in> set q \<Longrightarrow> u_strcmp p q \<noteq> None"
  by (induction p q rule: u_strcmp.induct) auto

lemma runs_str_is: "NUL \<in> set p \<Longrightarrow> runs s (str_is p t) (\<lambda>_ h. h = [])"
proof -
  assume "NUL \<in> set p"
  then obtain r where "u_strcmp p (lit t) = Some r" using u_strcmp_terminated [of p "lit t"] by (auto simp: lit_def)
  then show ?thesis unfolding str_is_def
    by (intro runs_bind [OF runs_opt [where Q = "\<lambda>_ h. h = []"]] runs_ret) auto
qed

lemma runs_is_one_of: "NUL \<in> set p \<Longrightarrow> runs s (is_one_of p ts) (\<lambda>_ h. h = [])"
proof (induction ts arbitrary: s)
  case Nil
  show ?case unfolding is_one_of.simps by (rule runs_ret) simp
next
  case (Cons t ts)
  show ?case unfolding is_one_of.simps
    by (rule runs_bind [OF runs_str_is [OF Cons.prems]]) (auto intro!: runs_ret runs_weaken [OF Cons.IH [OF Cons.prems]])
qed

lemma runs_elf_id: "NUL \<in> set p \<Longrightarrow> runs s (elf_id_for_process p) (\<lambda>_ h. h = [])"
  unfolding elf_id_for_process_def
  by (rule runs_bind [OF runs_is_one_of], assumption)
    (auto intro!: runs_ret runs_bind [OF runs_str_is])

lemma runs_chdir: "NUL \<in> set p \<Longrightarrow> runs s (sys_chdir p) (\<lambda>_. neutral)"
  unfolding sys_chdir_def
  by (rule runs_bind [OF runs_text [where Q = "\<lambda>_ h. h = []"]])
    (auto intro!: runs_or_error simp: neutral_def account_defs)

lemma sle_not_less: "0 <=s x \<longleftrightarrow> \<not> x <s (0 :: u32)"
  by (simp add: word_sle_eq word_sless_alt not_less)

lemma minus_one_neg [simp]: "(-1 :: u32) <s 0"
  by (simp add: word_sless_alt)

lemma runs_spawn:
  "runs s (spawn_with_fds e q i o') (\<lambda>pid h. opened h = [] \<and> closed h = [] \<and> read_ends h = [] \<and> waited h = [] \<and>
     (0 <=s pid \<longrightarrow> spawned h = [pid]))"
  unfolding spawn_with_fds_def sys_spawn_def
  by (rule runs_or_error) (auto simp: account_defs sle_not_less)

lemma runs_open:
  "NUL \<in> set p \<Longrightarrow> runs s (sys_open p m) (\<lambda>fd h. opened h = (if 0 <=s fd then [fd] else []) \<and> closed h = [] \<and>
     read_ends h = [] \<and> spawned h = [] \<and> waited h = [])"
  unfolding sys_open_def
  by (rule runs_bind [OF runs_text [where Q = "\<lambda>_ h. h = []"]])
    (auto intro!: runs_or_error simp: account_defs sle_not_less)

lemma runs_close:
  "runs s (sys_close fd) (\<lambda>_ h. opened h = [] \<and> closed h = [fd] \<and> read_ends h = [] \<and> spawned h = [] \<and> waited h = [])"
  unfolding sys_close_def by (rule runs_or_error) (auto simp: account_defs)

text \<open>
  What the launching of \<^verbatim>\<open>LS dir\<close> relies on: after \<open>sys_pwd\<close> the buffer for the working directory holds a
  terminated string.
\<close>

definition pwd_ok :: "'z uproc_scheme \<Rightarrow> bool" where
  "pwd_ok s \<longleftrightarrow> (\<forall>h. let o' = out (os s h SYS_pwd) in
     length o' \<le> 1024 \<and> NUL \<in> set (o' @ drop (length o') (map (junk s) [0..<1024])))"

lemma pwd_ok_after [simp]: "pwd_ok (after s h) = pwd_ok s"
  by (simp add: pwd_ok_def)

lemma runs_pwd:
  assumes "pwd_ok s"
  shows "runs s (sys_pwd (map (junk s) [0..<1024])) (\<lambda>r h. neutral h \<and> NUL \<in> set (snd r))"
proof -
  let ?a = "os s (calls s) SYS_pwd"
  have o': "length (out ?a) \<le> 1024" "NUL \<in> set (out ?a @ drop (length (out ?a)) (map (junk s) [0..<1024]))"
    using assms unfolding pwd_ok_def Let_def by blast+
  have "neutral [(SYS_pwd, ?a)]" by (simp add: neutral_def account_defs)
  with o' show ?thesis unfolding sys_pwd_def fills_def
    by (intro runs_bind [OF runs_int48 [where Q = "\<lambda>a h. a = ?a \<and> h = [(SYS_pwd, ?a)]"]])
      (auto intro!: runs_bind [OF runs_opt [where Q = "\<lambda>b h. NUL \<in> set b \<and> h = []"]] runs_ret simp: store_def)
qed

definition stage_calls :: "u32 \<Rightarrow> (sysreq \<times> sysres) list \<Rightarrow> bool" where
  "stage_calls pid h \<longleftrightarrow> opened h = closed h \<and> read_ends h = [] \<and> waited h = [] \<and> (0 <=s pid \<longrightarrow> spawned h = [pid])"

lemma stage_calls_fail: "neutral h \<Longrightarrow> stage_calls (-1) h"
  by (auto simp: stage_calls_def sle_not_less)

lemma stage_calls_neutral_right: "stage_calls pid h \<Longrightarrow> neutral h' \<Longrightarrow> stage_calls pid (h @ h')"
  by (auto simp: stage_calls_def)

lemma runs_launch_filter:
  assumes "CHR ''%'' \<notin> set name" "length argv = 2 \<Longrightarrow> NUL \<in> set (argv ! 1)"
  shows "runs s (launch_filter name e argv i o') stage_calls"
proof -
  let ?launch = "\<lambda>fd. bind (spawn_with_fds e 200 fd o') (\<lambda>pid.
      seq (when_true (length argv = 2) (seq (sys_close fd) (ret ())))
      (if pid <s 0 then seq (print (name @ line '': spawn failed'')) (ret (-1)) else ret pid))"
  have spawn: "runs t (?launch fd)
    (\<lambda>pid h. opened h = [] \<and> closed h = (if length argv = 2 then [fd] else []) \<and> read_ends h = [] \<and> waited h = [] \<and>
       (0 <=s pid \<longrightarrow> spawned h = [pid]))" for t fd
  proof (rule runs_bind [OF runs_spawn])
    fix pid h
    assume sp: "opened h = [] \<and> closed h = [] \<and> read_ends h = [] \<and> waited h = [] \<and> (0 <=s pid \<longrightarrow> spawned h = [pid])"
    have cl: "runs (after t h) (when_true (length argv = 2) (seq (sys_close fd) (ret ())))
      (\<lambda>_ h. opened h = [] \<and> closed h = (if length argv = 2 then [fd] else []) \<and> read_ends h = [] \<and> spawned h = [] \<and> waited h = [])"
      by (rule runs_when) (auto intro!: runs_seq [OF runs_close] runs_ret)
    show "runs (after t h) (seq (when_true (length argv = 2) (seq (sys_close fd) (ret ())))
        (if pid <s 0 then seq (print (name @ line '': spawn failed'')) (ret (-1)) else ret pid))
      (\<lambda>b h'. opened (h @ h') = [] \<and> closed (h @ h') = (if length argv = 2 then [fd] else []) \<and> read_ends (h @ h') = [] \<and>
         waited (h @ h') = [] \<and> (0 <=s b \<longrightarrow> spawned (h @ h') = [b]))"
    proof (rule runs_seq [OF cl])
      fix a :: unit and h'
      assume c: "opened h' = [] \<and> closed h' = (if length argv = 2 then [fd] else []) \<and> read_ends h' = [] \<and> spawned h' = [] \<and> waited h' = []"
      have pr: "runs u (print (name @ line '': spawn failed'')) (\<lambda>_. only_prints)" for u :: "'b uproc_scheme"
        using assms(1) by (intro runs_print) (auto simp: line_def)
      show "runs (after (after t h) h') (if pid <s 0 then seq (print (name @ line '': spawn failed'')) (ret (-1)) else ret pid)
        (\<lambda>b h''. opened (h @ h' @ h'') = [] \<and> closed (h @ h' @ h'') = (if length argv = 2 then [fd] else []) \<and>
           read_ends (h @ h' @ h'') = [] \<and> waited (h @ h' @ h'') = [] \<and> (0 <=s b \<longrightarrow> spawned (h @ h' @ h'') = [b]))"
        using sp c by (auto intro!: runs_seq [OF pr] runs_ret dest!: only_prints_neutral neutralD simp: sle_not_less)
    qed
  qed
  have too_many: "runs s (seq (print (name @ line '': only zero or one filename is supported in this module'')) (ret (-1))) stage_calls"
    using assms(1) by (intro runs_seq [OF runs_print] runs_ret) (auto simp: line_def intro: stage_calls_fail)
  have cannot: "runs t (seq (print_str (name @ line '': cannot open %s'') (argv ! 1)) (ret (-1)))
      (\<lambda>pid h. pid = -1 \<and> neutral h)" if "length argv = 2" for t
    using runs_print_str [OF assms(2) [OF that], of "name @ '': cannot open ''" "[LF]" t] assms(1)
    by (intro runs_seq [where P = "\<lambda>_. only_prints"] runs_ret) (auto simp: line_def)
  consider "length argv > 2" | "length argv = 2" | "length argv < 2" by linarith
  then show ?thesis
  proof cases
    case 1
    with too_many show ?thesis by (simp add: launch_filter_def)
  next
    case 2
    have "runs s (bind (sys_open (argv ! 1) O_RDONLY) (\<lambda>fd.
        if fd <s 0 then seq (print_str (name @ line '': cannot open %s'') (argv ! 1)) (ret (-1)) else ?launch fd)) stage_calls"
    proof (rule runs_bind [OF runs_open [OF assms(2) [OF 2]]])
      fix fd h
      assume acc: "opened h = (if 0 <=s fd then [fd] else []) \<and> closed h = [] \<and> read_ends h = [] \<and> spawned h = [] \<and> waited h = []"
      have "runs (after s h) (seq (print_str (name @ line '': cannot open %s'') (argv ! 1)) (ret (-1)))
          (\<lambda>pid h'. stage_calls pid (h @ h'))" if "fd <s 0"
        by (rule runs_weaken [OF cannot [OF 2]]) (use acc that in \<open>auto simp: stage_calls_def sle_not_less\<close>)
      moreover have "runs (after s h) (?launch fd) (\<lambda>pid h'. stage_calls pid (h @ h'))" if "\<not> fd <s 0"
        by (rule runs_weaken [OF spawn]) (use acc that 2 in \<open>auto simp: stage_calls_def sle_not_less\<close>)
      ultimately show "runs (after s h) (if fd <s 0 then seq (print_str (name @ line '': cannot open %s'') (argv ! 1)) (ret (-1)) else ?launch fd)
          (\<lambda>pid h'. stage_calls pid (h @ h'))" by simp
    qed
    then show ?thesis using 2 by (simp add: launch_filter_def)
  next
    case 3
    have "runs s (bind (ret i) ?launch) stage_calls"
    proof (rule runs_bind [OF runs_ret [where Q = "\<lambda>_ h. h = []"]])
      show "runs (after s h) (?launch fd) (\<lambda>pid h'. stage_calls pid (h @ h'))" if "h = []" for fd h
        by (rule runs_weaken [OF spawn]) (use that 3 in \<open>auto simp: stage_calls_def\<close>)
    qed simp
    then show ?thesis using 3 by (simp add: launch_filter_def)
  qed
qed

lemma runs_ls_failed: "runs t (seq (print (line ''LS: spawn failed'')) (ret (-1))) (\<lambda>pid h. pid = -1 \<and> neutral h)"
  by (rule runs_seq [OF runs_print]) (auto simp: line_def intro!: runs_ret)

lemma runs_ls_result:
  "runs t (if pid <s 0 then seq (print (line ''LS: spawn failed'')) (ret (-1)) else ret pid)
     (\<lambda>r h. neutral h \<and> r = (if pid <s 0 then -1 else pid))"
  by (cases "pid <s 0") (auto intro!: runs_ret runs_weaken [OF runs_ls_failed])

lemma runs_ls_plain:
  "runs t (bind (spawn_with_fds e 200 i o') (\<lambda>pid.
     if pid <s 0 then seq (print (line ''LS: spawn failed'')) (ret (-1)) else ret pid)) stage_calls"
proof (rule runs_bind [OF runs_spawn])
  fix pid h assume acc: "opened h = [] \<and> closed h = [] \<and> read_ends h = [] \<and> waited h = [] \<and> (0 <=s pid \<longrightarrow> spawned h = [pid])"
  show "runs (after t h) (if pid <s 0 then seq (print (line ''LS: spawn failed'')) (ret (-1)) else ret pid) (\<lambda>r h'. stage_calls r (h @ h'))"
    by (rule runs_weaken [OF runs_ls_result]) (use acc in \<open>auto simp: stage_calls_def sle_not_less\<close>)
qed

lemma runs_ls_dir:
  assumes "pwd_ok s" "NUL \<in> set dir"
  shows "runs s (bind (local_array 1024) (\<lambda>cwd.
     bind (sys_pwd cwd) (\<lambda>(_, cwd).
     bind (sys_chdir dir) (\<lambda>r.
     if r <s 0 then seq (print_str (line ''LS: cannot access %s'') dir) (ret (-1))
     else
       bind (spawn_with_fds e 200 i o') (\<lambda>pid.
       seq (sys_chdir cwd)
       (if pid <s 0 then seq (print (line ''LS: spawn failed'')) (ret (-1)) else ret pid)))))) stage_calls"
proof -
  let ?go = "\<lambda>cwd. bind (spawn_with_fds e 200 i o') (\<lambda>pid. seq (sys_chdir cwd)
       (if pid <s 0 then seq (print (line ''LS: spawn failed'')) (ret (-1)) else ret pid))"
  let ?no = "seq (print_str (line ''LS: cannot access %s'') dir) (ret (-1))"
  have no: "runs t ?no (\<lambda>r h. r = -1 \<and> neutral h)" for t
    using runs_print_str [OF assms(2), of "''LS: cannot access ''" "[LF]" t]
    by (intro runs_seq [where P = "\<lambda>_. only_prints"]) (auto simp: line_def intro!: runs_ret)
  have go: "runs t (?go cwd) stage_calls" if "NUL \<in> set cwd" for cwd t
  proof (rule runs_bind [OF runs_spawn])
    fix pid h assume acc: "opened h = [] \<and> closed h = [] \<and> read_ends h = [] \<and> waited h = [] \<and> (0 <=s pid \<longrightarrow> spawned h = [pid])"
    have "runs (after t h) (seq (sys_chdir cwd) (if pid <s 0 then seq (print (line ''LS: spawn failed'')) (ret (-1)) else ret pid))
        (\<lambda>r h. neutral h \<and> r = (if pid <s 0 then -1 else pid))"
      by (rule runs_seq [OF runs_chdir [OF that]], rule runs_weaken [OF runs_ls_result]) auto
    then show "runs (after t h) (seq (sys_chdir cwd) (if pid <s 0 then seq (print (line ''LS: spawn failed'')) (ret (-1)) else ret pid))
        (\<lambda>r h'. stage_calls r (h @ h'))"
      by (rule runs_weaken) (use acc in \<open>auto simp: stage_calls_def sle_not_less\<close>)
  qed
  have cd: "runs t (bind (sys_chdir dir) (\<lambda>r. if r <s 0 then ?no else ?go cwd)) stage_calls" if "NUL \<in> set cwd" for cwd t
  proof (rule runs_bind [OF runs_chdir [OF assms(2)]])
    fix r h assume h: "neutral h"
    show "runs (after t h) (if r <s 0 then ?no else ?go cwd) (\<lambda>r h'. stage_calls r (h @ h'))"
      using neutralD [OF h] by (cases "r <s 0")
        (auto intro!: runs_weaken [OF no] runs_weaken [OF go [OF that]] simp: stage_calls_def sle_not_less)
  qed
  have "runs s (bind (sys_pwd (map (junk s) [0..<1024])) (\<lambda>(_, cwd). bind (sys_chdir dir) (\<lambda>r. if r <s 0 then ?no else ?go cwd))) stage_calls"
  proof (rule runs_bind [OF runs_pwd [OF assms(1)]])
    fix a :: "u32 \<times> string" and h assume a: "neutral h \<and> NUL \<in> set (snd a)"
    show "runs (after s h) (case a of (_, cwd) \<Rightarrow> bind (sys_chdir dir) (\<lambda>r. if r <s 0 then ?no else ?go cwd)) (\<lambda>r h'. stage_calls r (h @ h'))"
      unfolding case_prod_beta
      by (rule runs_weaken [OF cd]) (use a neutralD [of h] in \<open>auto simp: stage_calls_def\<close>)
  qed
  then show ?thesis by (simp add: runs_def local_array_def exec)
qed

lemma runs_pure: "runs s m (\<lambda>_ h. h = []) \<Longrightarrow> (\<And>a. runs s (f a) Q) \<Longrightarrow> runs s (bind m f) Q"
  by (rule runs_bind [where P = "\<lambda>_ h. h = []"]) auto

lemma runs_if: "(b \<Longrightarrow> runs s m Q) \<Longrightarrow> (\<not> b \<Longrightarrow> runs s n Q) \<Longrightarrow> runs s (if b then m else n) Q"
  by simp

lemma arg_bind: "i < length argv \<Longrightarrow> bind (arg argv i) f = f (argv ! i)"
  by (rule ext) (simp add: arg_def exec)

lemma runs_launch:
  assumes "pwd_ok s" "argv \<noteq> []" "\<forall>a \<in> set argv. NUL \<in> set a"
  shows "runs s (launch_process_stage argv i o') stage_calls"
proof -
  let ?n = "argv ! 0"
  have n: "NUL \<in> set ?n" using assms(2,3) by simp
  have a1: "length argv = 2 \<Longrightarrow> NUL \<in> set (argv ! 1)" using assms(3) by simp
  have unknown: "runs s (seq (print_str (line (''Unknown process command '' @ [CHR 0x27] @ ''%s'' @ [CHR 0x27])) ?n) (ret (-1))) stage_calls"
    using runs_print_str [OF n, of "''Unknown process command '' @ [CHR 0x27]" "[CHR 0x27, LF]" s]
    by (intro runs_seq [where P = "\<lambda>_. only_prints"]) (auto simp: line_def intro!: runs_ret stage_calls_fail)
  have too_many: "runs s (seq (print (line ''LS: too many arguments'')) (ret (-1))) stage_calls"
    by (rule runs_seq [OF runs_print]) (auto simp: line_def intro!: runs_ret stage_calls_fail)
  have none: "runs s (ret (-1)) stage_calls" by (rule runs_ret) (rule stage_calls_fail, simp)
  let ?filter = "\<lambda>e. bind (is_one_of ?n [''CAT'', ''biral'', ''BIRAL'']) (\<lambda>cat.
         if cat then launch_filter ''CAT'' e argv i o'
         else bind (str_is ?n ''ROT13'') (\<lambda>rot. if rot then launch_filter ''ROT13'' e argv i o' else ret (-1)))"
  have filter: "runs s (?filter e) stage_calls" for e
    by (rule runs_pure [OF runs_is_one_of [OF n]])
      (auto intro!: runs_pure [OF runs_str_is [OF n]] runs_launch_filter a1 none)
  have n0: "0 < length argv" using assms(2) by simp
  show ?thesis unfolding launch_process_stage_def arg_bind [OF n0]
    by (intro runs_pure [OF runs_elf_id [OF n]] runs_if unknown runs_pure [OF runs_str_is [OF n]] too_many filter
      runs_ls_plain runs_ls_dir [OF assms(1) a1])
qed

section \<open>The loop over the stages\<close>

lemma iterate_runs_step:
  assumes "runs s (f a) (\<lambda>r h. case r of Inr b \<Rightarrow> Q b h | Inl a' \<Rightarrow> runs (after s h) (iterate f a') (\<lambda>b h'. Q b (h @ h')))"
  shows "runs s (iterate f a) Q"
proof -
  obtain r h where r: "f a s = Inr (r, after s h)" "case r of Inr b \<Rightarrow> Q b h | Inl a' \<Rightarrow> runs (after s h) (iterate f a') (\<lambda>b h'. Q b (h @ h'))"
    using assms by (auto simp: runs_def)
  show ?thesis
  proof (cases r)
    case (Inr b)
    then show ?thesis using r iterate_done [of f a s b "after s h"] by (auto simp: runs_def)
  next
    case (Inl a')
    then show ?thesis using r iterate_next [of f a s a' "after s h"] by (auto simp: runs_def)
  qed
qed

definition launch_body :: "string list list \<Rightarrow> nat \<times> u32 \<times> u32 list \<Rightarrow>
    ('z uproc_scheme, (nat \<times> u32 \<times> u32 list) + (u32 \<times> u32 list) option) kop" where
  "launch_body stages = (\<lambda>(i, in_fd, pids).
     if i < length stages then
       let last' = (i \<ge> length stages - 1) in
       bind (if last' then ret (0, -1, -1) else sys_pipe) (\<lambda>(r, pipefd0, pipefd1).
       if \<not> last' \<and> r <s 0 then
         seq (print (line ''pipe: failed'')) (seq (close_if in_fd) (ret (Inr None)))
       else
         let out_fd = (if last' then -1 else pipefd1) in
         bind (launch_process_stage (stages ! i) in_fd out_fd) (\<lambda>pid.
         if pid <s 0 then
           seq (close_if in_fd)
           (seq (when_true (\<not> last') (seq (sys_close pipefd0) (seq (sys_close pipefd1) (ret ()))))
           (ret (Inr None)))
         else
           seq (close_if in_fd)
           (seq (when_true (\<not> last') (seq (sys_close pipefd1) (ret ())))
           (ret (Inl (i + 1, if last' then in_fd else pipefd0, pids @ [pid]))))))
     else ret (Inr (Some (in_fd, pids))))"

text \<open>The end of a round, once the stage is launched.\<close>

definition finish_stage :: "bool \<Rightarrow> u32 \<Rightarrow> u32 \<Rightarrow> u32 \<Rightarrow> nat \<Rightarrow> u32 list \<Rightarrow> u32 \<Rightarrow>
    ('z uproc_scheme, (nat \<times> u32 \<times> u32 list) + (u32 \<times> u32 list) option) kop" where
  "finish_stage last' in_fd p0 p1 i pids pid =
     (if pid <s 0 then
        seq (close_if in_fd)
        (seq (when_true (\<not> last') (seq (sys_close p0) (seq (sys_close p1) (ret ()))))
        (ret (Inr None)))
      else
        seq (close_if in_fd)
        (seq (when_true (\<not> last') (seq (sys_close p1) (ret ())))
        (ret (Inl (i + 1, if last' then in_fd else p0, pids @ [pid])))))"

lemma bind_ret: "bind (ret a) f = f a"
  by (rule ext) (simp add: exec)

lemma launch_body_last:
  assumes "i < length stages" "\<not> i + 1 < length stages"
  shows "launch_body stages (i, in_fd, pids) =
     bind (launch_process_stage (stages ! i) in_fd (-1)) (finish_stage True in_fd (-1) (-1) i pids)"
proof -
  have "length stages - 1 \<le> i" using assms by linarith
  with assms(1) show ?thesis by (simp add: launch_body_def finish_stage_def [abs_def] Let_def bind_ret cong: if_cong)
qed

lemma launch_body_more:
  assumes "i + 1 < length stages"
  shows "launch_body stages (i, in_fd, pids) =
     bind sys_pipe (\<lambda>(r, p0, p1).
       if r <s 0 then seq (print (line ''pipe: failed'')) (seq (close_if in_fd) (ret (Inr None)))
       else bind (launch_process_stage (stages ! i) in_fd p1) (finish_stage False in_fd p0 p1 i pids))"
proof -
  have "\<not> length stages - 1 \<le> i" using assms by linarith
  with assms show ?thesis by (simp add: launch_body_def finish_stage_def [abs_def] Let_def cong: if_cong)
qed

lemma run_stages_loop: "run_stages stages = iterate (launch_body stages) (0, -1, [])"
  by (simp add: run_stages_def launch_body_def)

lemma runs_close_if:
  "runs s (close_if fd) (\<lambda>_ h. opened h = [] \<and> closed h = (if 0 <=s fd then [fd] else []) \<and> read_ends h = [] \<and> spawned h = [] \<and> waited h = [])"
  unfolding close_if_def by (rule runs_when) (auto intro!: runs_seq [OF runs_close] runs_ret)

lemma runs_pipe:
  "runs s sys_pipe (\<lambda>x h. let a = os s (calls s) SYS_pipe in snd x = fds a \<and> closed h = [] \<and> spawned h = [] \<and> waited h = [] \<and>
     (if errno a = 0 then fst x = 0 \<and> opened h = [fst (fds a), snd (fds a)] \<and> read_ends h = [fst (fds a)]
      else fst x = -1 \<and> opened h = [] \<and> read_ends h = []))"
  unfolding sys_pipe_def
  by (rule runs_bind [OF runs_int48 [where Q = "\<lambda>a h. a = os s (calls s) SYS_pipe \<and> h = [(SYS_pipe, a)]"]])
    (auto intro!: runs_ret simp: account_defs Let_def)

text \<open>What one round does: it ends the loop or goes on to the next stage, which holds the read end of the new pipe.\<close>

definition round_calls :: "nat \<Rightarrow> nat \<Rightarrow> u32 \<Rightarrow> u32 list \<Rightarrow> (nat \<times> u32 \<times> u32 list) + (u32 \<times> u32 list) option \<Rightarrow> (sysreq \<times> sysres) list \<Rightarrow> bool" where
  "round_calls n i in_fd pids r h \<longleftrightarrow> waited h = [] \<and>
     (let held = (if 0 <=s in_fd then {#in_fd#} else {#}) in
      case r of
        Inr None \<Rightarrow> mset (closed h) = mset (opened h) + held
      | Inr (Some _) \<Rightarrow> False
      | Inl (i', fd, ps) \<Rightarrow> i' = i + 1 \<and> ps = pids @ spawned h \<and> length (spawned h) = 1 \<and>
          (if i + 1 < n then read_ends h = [fd] \<and> 0 <=s fd \<and> mset (closed h) + {#fd#} = mset (opened h) + held
           else read_ends h = [] \<and> fd = in_fd \<and> mset (closed h) = mset (opened h) + held))"

lemma runs_after_launch:
  assumes "stage_calls pid h0" "if last' then opened hp = [] \<and> read_ends hp = [] else opened hp = [p0, p1] \<and> read_ends hp = [p0] \<and> 0 <=s p0"
    and "closed hp = [] \<and> spawned hp = [] \<and> waited hp = []" "last' \<longleftrightarrow> \<not> i + 1 < n"
  shows "runs t (finish_stage last' in_fd p0 p1 i pids pid)
     (\<lambda>r h. round_calls n i in_fd pids r (hp @ h0 @ h))"
proof -
  note acc = assms [unfolded stage_calls_def]
  have both: "runs u (when_true (\<not> last') (seq (sys_close p0) (seq (sys_close p1) (ret ()))))
      (\<lambda>_ h. opened h = [] \<and> closed h = (if last' then [] else [p0, p1]) \<and> read_ends h = [] \<and> spawned h = [] \<and> waited h = [])" for u :: "'b uproc_scheme"
    by (rule runs_when) (auto intro!: runs_seq [OF runs_close] runs_ret)
  have one: "runs u (when_true (\<not> last') (seq (sys_close p1) (ret ())))
      (\<lambda>_ h. opened h = [] \<and> closed h = (if last' then [] else [p1]) \<and> read_ends h = [] \<and> spawned h = [] \<and> waited h = [])" for u :: "'b uproc_scheme"
    by (rule runs_when) (auto intro!: runs_seq [OF runs_close] runs_ret)
  show ?thesis unfolding finish_stage_def
  proof (rule runs_if)
    assume "pid <s 0"
    show "runs t (seq (close_if in_fd)
       (seq (when_true (\<not> last') (seq (sys_close p0) (seq (sys_close p1) (ret ())))) (ret (Inr None))))
       (\<lambda>r h. round_calls n i in_fd pids r (hp @ h0 @ h))"
      by (rule runs_seq [OF runs_close_if], rule runs_seq [OF both], rule runs_ret)
        (use acc in \<open>auto simp: round_calls_def split: if_splits\<close>)
  next
    assume "\<not> pid <s 0"
    then show "runs t (seq (close_if in_fd) (seq (when_true (\<not> last') (seq (sys_close p1) (ret ())))
       (ret (Inl (i + 1, if last' then in_fd else p0, pids @ [pid])))))
       (\<lambda>r h. round_calls n i in_fd pids r (hp @ h0 @ h))"
      by (intro runs_seq [OF runs_close_if] runs_seq [OF one] runs_ret)
        (use acc in \<open>auto simp: round_calls_def sle_not_less split: if_splits\<close>)
  qed
qed

text \<open>What the kernel promises: the descriptors of a new pipe are not negative.\<close>

definition pipes_ok :: "'z uproc_scheme \<Rightarrow> bool" where
  "pipes_ok s \<longleftrightarrow> (\<forall>h. errno (os s h SYS_pipe) = 0 \<longrightarrow> 0 <=s fst (fds (os s h SYS_pipe)))"

lemma pipes_ok_after [simp]: "pipes_ok (after s h) = pipes_ok s"
  by (simp add: pipes_ok_def)

definition stages_ok :: "string list list \<Rightarrow> bool" where
  "stages_ok stages \<longleftrightarrow> (\<forall>argv \<in> set stages. argv \<noteq> [] \<and> (\<forall>a \<in> set argv. NUL \<in> set a))"

lemma runs_round:
  assumes "pwd_ok s" "pipes_ok s" "stages_ok stages" "i < length stages"
  shows "runs s (launch_body stages (i, in_fd, pids)) (round_calls (length stages) i in_fd pids)"
proof -
  let ?n = "length stages"
  have st: "stages ! i \<noteq> []" "\<forall>a \<in> set (stages ! i). NUL \<in> set a" using assms(3,4) by (auto simp: stages_ok_def)
  show ?thesis
  proof (cases "i + 1 < ?n")
    case last: False
    show ?thesis unfolding launch_body_last [OF assms(4) last]
    proof (rule runs_bind [OF runs_launch [OF assms(1) st]])
      fix pid h0 assume "stage_calls pid h0"
      from runs_after_launch [OF this, where hp = "[]" and last' = True and i = i and n = ?n] last
      show "runs (after s h0) (finish_stage True in_fd (-1) (-1) i pids pid) (\<lambda>r h. round_calls ?n i in_fd pids r (h0 @ h))" by simp
    qed
  next
    case more: True
    show ?thesis unfolding launch_body_more [OF more]
    proof (rule runs_bind [OF runs_pipe])
      fix x :: "u32 \<times> u32 \<times> u32" and h
      let ?a = "os s (calls s) SYS_pipe"
      assume x: "let a = ?a in snd x = fds a \<and> closed h = [] \<and> spawned h = [] \<and> waited h = [] \<and>
        (if errno a = 0 then fst x = 0 \<and> opened h = [fst (fds a), snd (fds a)] \<and> read_ends h = [fst (fds a)]
         else fst x = -1 \<and> opened h = [] \<and> read_ends h = [])"
      obtain p0 p1 where p: "fds ?a = (p0, p1)" by (cases "fds ?a")
      have failed: "runs (after s h) (seq (print (line ''pipe: failed'')) (seq (close_if in_fd) (ret (Inr None))))
          (\<lambda>r h'. round_calls ?n i in_fd pids r (h @ h'))" if "opened h = []" "closed h = []" "waited h = []"
        by (rule runs_seq [OF runs_print], simp add: line_def, rule runs_seq [OF runs_close_if], rule runs_ret)
          (use that in \<open>auto simp: round_calls_def dest!: only_prints_neutral neutralD\<close>)
      have launch: "runs (after s h) (bind (launch_process_stage (stages ! i) in_fd p1) (finish_stage False in_fd p0 p1 i pids))
          (\<lambda>r h'. round_calls ?n i in_fd pids r (h @ h'))"
        if "opened h = [p0, p1]" "read_ends h = [p0]" "0 <=s p0" "closed h = []" "spawned h = []" "waited h = []"
      proof (rule runs_bind [OF runs_launch [of "after s h", OF _ st]])
        show "pwd_ok (after s h)" using assms(1) by simp
      next
        fix pid h0 assume "stage_calls pid h0"
        from runs_after_launch [OF this, where hp = h and last' = False and i = i and n = ?n and ?p0.0 = p0 and ?p1.0 = p1] that more
        show "runs (after (after s h) h0) (finish_stage False in_fd p0 p1 i pids pid)
          (\<lambda>r h'. round_calls ?n i in_fd pids r (h @ h0 @ h'))" by simp
      qed
      show "runs (after s h) (case x of (r, p0, p1) \<Rightarrow>
       if r <s 0 then seq (print (line ''pipe: failed'')) (seq (close_if in_fd) (ret (Inr None)))
       else bind (launch_process_stage (stages ! i) in_fd p1) (finish_stage False in_fd p0 p1 i pids))
          (\<lambda>r h'. round_calls ?n i in_fd pids r (h @ h'))"
        using x p failed launch assms(2) [unfolded pipes_ok_def, rule_format, of "calls s"]
        by (cases x; cases "errno ?a = 0") (auto simp: Let_def)
    qed
  qed
qed

lemma stages_loop:
  assumes "pwd_ok s" "pipes_ok s" "stages_ok stages" "i \<le> length stages"
  shows "runs s (iterate (launch_body stages) (i, in_fd, pids)) (\<lambda>r h. waited h = [] \<and>
    mset (closed h) = mset (opened h) + (if i < length stages \<and> 0 <=s in_fd then {#in_fd#} else {#}) \<and>
    (case r of None \<Rightarrow> True | Some (fd, ps) \<Rightarrow> ps = pids @ spawned h \<and> length stages = i + length (spawned h) \<and>
       (read_ends h = [] \<longrightarrow> fd = in_fd) \<and> (read_ends h \<noteq> [] \<longrightarrow> fd = last (read_ends h) \<and> 0 <=s fd)))"
  using assms
proof (induction "length stages - i" arbitrary: i in_fd pids s rule: less_induct)
  case less
  let ?n = "length stages"
  show ?case
  proof (cases "i < ?n")
    case False
    then show ?thesis using less.prems(4)
      by (intro iterate_runs_done) (auto simp: launch_body_def intro!: runs_ret)
  next
    case True
    show ?thesis
    proof (rule iterate_runs_step, rule runs_weaken [OF runs_round [OF less.prems(1-3) True]])
      fix r h assume r: "round_calls ?n i in_fd pids r h"
      show "case r of Inr b \<Rightarrow> waited h = [] \<and>
            mset (closed h) = mset (opened h) + (if i < ?n \<and> 0 <=s in_fd then {#in_fd#} else {#}) \<and>
            (case b of None \<Rightarrow> True | Some (fd, ps) \<Rightarrow> ps = pids @ spawned h \<and> ?n = i + length (spawned h) \<and>
              (read_ends h = [] \<longrightarrow> fd = in_fd) \<and> (read_ends h \<noteq> [] \<longrightarrow> fd = last (read_ends h) \<and> 0 <=s fd))
        | Inl a' \<Rightarrow> runs (after s h) (iterate (launch_body stages) a') (\<lambda>r h'. waited (h @ h') = [] \<and>
            mset (closed (h @ h')) = mset (opened (h @ h')) + (if i < ?n \<and> 0 <=s in_fd then {#in_fd#} else {#}) \<and>
            (case r of None \<Rightarrow> True | Some (fd, ps) \<Rightarrow> ps = pids @ spawned (h @ h') \<and> ?n = i + length (spawned (h @ h')) \<and>
              (read_ends (h @ h') = [] \<longrightarrow> fd = in_fd) \<and> (read_ends (h @ h') \<noteq> [] \<longrightarrow> fd = last (read_ends (h @ h')) \<and> 0 <=s fd)))"
      proof (cases r)
        case (Inr b)
        then show ?thesis using r True by (cases b) (auto simp: round_calls_def Let_def)
      next
        case (Inl a')
        obtain i' fd ps where a': "a' = (i', fd, ps)" by (cases a')
        have acc: "waited h = []" "i' = i + 1" "ps = pids @ spawned h" "length (spawned h) = 1"
          using r Inl a' by (auto simp: round_calls_def Let_def)
        have IH: "runs (after s h) (iterate (launch_body stages) (i + 1, fd, ps)) (\<lambda>r h'. waited h' = [] \<and>
            mset (closed h') = mset (opened h') + (if i + 1 < ?n \<and> 0 <=s fd then {#fd#} else {#}) \<and>
            (case r of None \<Rightarrow> True | Some (fd', ps') \<Rightarrow> ps' = ps @ spawned h' \<and> ?n = i + 1 + length (spawned h') \<and>
              (read_ends h' = [] \<longrightarrow> fd' = fd) \<and> (read_ends h' \<noteq> [] \<longrightarrow> fd' = last (read_ends h') \<and> 0 <=s fd')))"
          using less.prems True by (intro less.hyps) auto
        have "runs (after s h) (iterate (launch_body stages) (i + 1, fd, ps)) (\<lambda>r h'. waited (h @ h') = [] \<and>
            mset (closed (h @ h')) = mset (opened (h @ h')) + (if i < ?n \<and> 0 <=s in_fd then {#in_fd#} else {#}) \<and>
            (case r of None \<Rightarrow> True | Some (fd, ps) \<Rightarrow> ps = pids @ spawned (h @ h') \<and> ?n = i + length (spawned (h @ h')) \<and>
              (read_ends (h @ h') = [] \<longrightarrow> fd = in_fd) \<and> (read_ends (h @ h') \<noteq> [] \<longrightarrow> fd = last (read_ends (h @ h')) \<and> 0 <=s fd)))"
          by (rule runs_weaken [OF IH])
            (use r True Inl a' acc in \<open>auto simp: round_calls_def Let_def split: option.splits if_splits\<close>)
        then show ?thesis using Inl a' acc(2) by simp
      qed
    qed
  qed
qed

section \<open>The whole pipeline\<close>

lemma runs_wait:
  "\<forall>p \<in> set ps. 0 <=s p \<Longrightarrow> runs s (block (map (\<lambda>pid. when_true (0 <=s pid) (sys_waitpid pid)) ps))
     (\<lambda>_ h. opened h = [] \<and> closed h = [] \<and> read_ends h = [] \<and> spawned h = [] \<and> waited h = ps)"
proof (induction ps arbitrary: s)
  case Nil
  show ?case by (rule runsI [where h = "[]"]) (simp_all add: exec)
next
  case (Cons p ps)
  have "runs s (when_true (0 <=s p) (sys_waitpid p)) (\<lambda>_ h. opened h = [] \<and> closed h = [] \<and> read_ends h = [] \<and> spawned h = [] \<and> waited h = [p])"
    unfolding sys_waitpid_def using Cons.prems
    by (intro runs_when runs_seq [OF runs_int48 [where Q = "\<lambda>a h. h = [(SYS_waitpid p, os s (calls s) (SYS_waitpid p))]"]] runs_ret)
      (auto simp: account_defs)
  then show ?case unfolding list.map block.simps
    by (rule runs_seq) (use Cons in \<open>auto intro!: runs_weaken [OF Cons.IH]\<close>)
qed

lemma spawned_nonneg: "p \<in> set (spawned h) \<Longrightarrow> 0 <=s p"
  by (auto simp: spawned_def split: sysreq.splits if_splits)

lemma runs_check_cmds:
  assumes "stages_ok argvs"
  shows "runs s (iterate (\<lambda>i.
         if i < length argvs then
           bind (is_process_cmd (argvs ! i ! 0)) (\<lambda>ok.
           if \<not> ok then
             seq (print (line ''Pipelines currently support only LS, CAT, and ROT13'')) (ret (Inr False))
           else ret (Inl (i + 1)))
         else ret (Inr True)) i) (\<lambda>_. only_prints)" (is "runs s (iterate ?f i) _")
proof (induction "length argvs - i" arbitrary: i s rule: less_induct)
  case less
  show ?case
  proof (cases "i < length argvs")
    case False
    then show ?thesis by (intro iterate_runs_done) (auto intro!: runs_ret)
  next
    case True
    then have "argvs ! i \<in> set argvs" by simp
    with assms have "argvs ! i \<noteq> []" and a: "\<forall>a \<in> set (argvs ! i). NUL \<in> set a" by (auto simp only: stages_ok_def)
    then have n: "NUL \<in> set (argvs ! i ! 0)" by simp
    have "runs s (?f i) (\<lambda>r h. case r of Inr b \<Rightarrow> only_prints h | Inl i' \<Rightarrow> h = [] \<and> i' = i + 1)"
      unfolding is_process_cmd_def if_P [OF True]
      by (rule runs_pure [OF runs_is_one_of [OF n]]) (auto intro!: runs_ret runs_seq [OF runs_print] simp: line_def)
    then show ?thesis
      by (intro iterate_runs_step, elim runs_weaken) (use less True in \<open>auto split: sum.splits\<close>)
  qed
qed

lemma stage_spec_nonempty: "stage_spec n tx = Some ss \<Longrightarrow> [] \<notin> set ss"
proof (induction "length tx" arbitrary: n tx ss rule: less_induct)
  case less
  show ?case
  proof (rule line_cases [of tx])
    assume "dropWhile is_ws tx = []"
    then have "stage_spec n tx = Some []" by (subst stage_spec.simps) (simp only: Let_def if_True simp_thms)
    then show ?thesis using less.prems by simp
  next
    fix b x y
    assume c: "tx = b @ x @ y" "x @ y \<noteq> []" "CHR ''|'' \<notin> set x" "y \<noteq> [] \<Longrightarrow> hd y = CHR ''|''" "dropWhile is_ws tx = x @ y"
    have "n \<noteq> 16"
    proof
      assume "n = 16"
      then have "stage_spec n tx = None" using c(2,5) by (subst stage_spec.simps) (simp only: Let_def if_False if_True simp_thms)
      then show False using less.prems by simp
    qed
    note cut = stage_spec_cut [OF c(5,2,3,4) this]
    show ?thesis
    proof (cases "y = []")
      case True
      then show ?thesis using cut less.prems by (auto split: if_splits)
    next
      case False
      then have "length (tl y) < length tx" using c(1) by (cases y) auto
      from less.hyps [OF this] show ?thesis using False cut less.prems
        by (cases "stage_spec (n + 1) (tl y)") (auto split: if_splits)
    qed
  qed
qed


lemma parsed_stages_ok:
  assumes "stage_spec 0 tx = Some (map (map (cstr buf)) st)" "terminated buf st"
  shows "stages_ok (map (map (\<lambda>p. drop p buf)) st)"
  using stage_spec_nonempty [OF assms(1)] assms(2) by (force simp: stages_ok_def terminated_def)

text \<open>The calls of a pipeline: the descriptors balance but for the second close of the last read end.\<close>

definition balanced :: "(sysreq \<times> sysres) list \<Rightarrow> bool" where
  "balanced h \<longleftrightarrow> mset (closed h) =
      mset (opened h) + (if waited h \<noteq> [] \<and> read_ends h \<noteq> [] then {#last (read_ends h)#} else {#}) \<and>
    (waited h = [] \<or> waited h = spawned h)"

lemma balanced_neutral: "neutral h \<Longrightarrow> balanced h"
  by (auto simp: balanced_def dest: neutralD)

lemma balanced_neutral_left: "neutral h \<Longrightarrow> balanced h' \<Longrightarrow> balanced (h @ h')"
  by (drule neutralD) (simp add: balanced_def)

lemma runs_launched:
  assumes "pwd_ok s" "pipes_ok s" "stages_ok stages" "stages \<noteq> []"
  shows "runs s (bind (run_stages stages) (\<lambda>launched.
     case launched of
       None \<Rightarrow> ret 0
     | Some (in_fd, pids) \<Rightarrow>
         seq (close_if in_fd)
         (seq (block (map (\<lambda>pid. when_true (0 <=s pid) (sys_waitpid pid)) pids)) (ret 0)))) (\<lambda>r h. r = (0 :: u32) \<and> balanced h)"
  unfolding run_stages_loop
proof (rule runs_bind [OF stages_loop [OF assms(1-3), of 0 "-1" "[]"]])
  fix launched h
  assume l: "waited h = [] \<and>
    mset (closed h) = mset (opened h) + (if 0 < length stages \<and> 0 <=s (-1 :: u32) then {#-1#} else {#}) \<and>
    (case launched of None \<Rightarrow> True | Some (fd, ps) \<Rightarrow> ps = [] @ spawned h \<and> length stages = 0 + length (spawned h) \<and>
       (read_ends h = [] \<longrightarrow> fd = -1) \<and> (read_ends h \<noteq> [] \<longrightarrow> fd = last (read_ends h) \<and> 0 <=s fd))"
  show "runs (after s h) (case launched of
       None \<Rightarrow> ret 0
     | Some (in_fd, pids) \<Rightarrow>
         seq (close_if in_fd)
         (seq (block (map (\<lambda>pid. when_true (0 <=s pid) (sys_waitpid pid)) pids)) (ret 0)))
     (\<lambda>r h'. r = (0 :: u32) \<and> balanced (h @ h'))"
  proof (cases launched)
    case None
    then show ?thesis using l by (auto intro!: runs_ret simp: balanced_def sle_not_less)
  next
    case (Some x)
    obtain fd ps where x: "x = (fd, ps)" by (cases x)
    have ps: "ps = spawned h" "ps \<noteq> []" "\<forall>p \<in> set ps. 0 <=s p" and eq: "mset (closed h) = mset (opened h)"
      using l Some x assms(4) by (auto simp: sle_not_less dest: spawned_nonneg)
    show ?thesis unfolding Some x option.case prod.case
      by (rule runs_seq [OF runs_close_if], rule runs_seq [OF runs_wait [OF ps(3)]], rule runs_ret)
        (use l Some x ps eq in \<open>auto simp: balanced_def sle_not_less\<close>)
  qed
qed simp

lemma runs_pipeline:
  assumes "pwd_ok s" "pipes_ok s" "NUL \<in> set buf"
  shows "runs s (run_pipeline buf) (\<lambda>r h. r = 0 \<and> balanced h)"
proof -
  obtain tx rest where b: "buf = tx @ NUL # rest" "NUL \<notin> set tx" using split_list_first [OF assms(3)] by auto
  show ?thesis
  proof (cases "stage_spec 0 tx")
    case None
    then have "runs s (parse_pipeline buf) parse_fails" using parse_pipeline_spec [OF b(2), of s rest] b(1) by simp
    then show ?thesis unfolding run_pipeline_def
      by (rule runs_bind) (auto simp: parse_fails_def intro!: runs_ret balanced_neutral only_prints_neutral)
  next
    case (Some ss)
    obtain buf' st where p: "parse_pipeline buf s = Inr ((0, buf', st), s)" "map (map (cstr buf')) st = ss" "terminated buf' st"
      using parse_pipeline_spec [OF b(2), of s rest] b(1) Some by auto
    have ok: "stages_ok (map (map (\<lambda>p. drop p buf')) st)" (is "stages_ok ?argvs")
      using parsed_stages_ok [of tx buf' st] Some p(2,3) by simp
    have "runs s (parse_pipeline buf) (\<lambda>r h. r = (0, buf', st) \<and> h = [])"
      using p(1) by (auto simp: runs_def intro!: exI [of _ "[]"])
    then show ?thesis unfolding run_pipeline_def
    proof (rule runs_bind, elim conjE, goal_cases)
      case (1 r h)
      show ?case
      proof (cases "st = []")
        case True
        then show ?thesis using 1 by (auto intro!: runs_ret balanced_neutral)
      next
        case False
        have "runs s (bind (iterate (\<lambda>i.
            if i < length ?argvs then
              bind (is_process_cmd (?argvs ! i ! 0)) (\<lambda>ok.
              if \<not> ok then
                seq (print (line ''Pipelines currently support only LS, CAT, and ROT13'')) (ret (Inr False))
              else ret (Inl (i + 1)))
            else ret (Inr True)) 0) (\<lambda>ok.
          if \<not> ok then ret 0
          else
            bind (run_stages ?argvs) (\<lambda>launched.
            case launched of
              None \<Rightarrow> ret 0
            | Some (in_fd, pids) \<Rightarrow>
                seq (close_if in_fd)
                (seq (block (map (\<lambda>pid. when_true (0 <=s pid) (sys_waitpid pid)) pids)) (ret 0)))))
          (\<lambda>r h. r = (0 :: u32) \<and> balanced h)"
          using False assms(1,2) ok
          by (intro runs_bind [OF runs_check_cmds [OF ok]] runs_if)
            (rule runs_ret runs_weaken [OF runs_launched [OF _ _ ok]], auto intro: balanced_neutral balanced_neutral_left only_prints_neutral)+
        then show ?thesis unfolding 1 prod.case Let_def using False by simp
      qed
    qed
  qed
qed

section \<open>Property\<close>



end
