(* ===== verification/Buf_Cache.thy ===== *)
theory Buf_Cache
  imports Disk Linked_List
begin

unbundle bit_operations_syntax

text \<open>
  What the buffer cache and the disk driver promise to the file system: a buffer that is read holds its sector, a
  buffer that is written ends up on the disk, and the driver's wait ends when the interrupt of the controller is handled.
\<close>

section \<open>Locks\<close>

interpretation ide: lock_field ide_lk ide_lk_update
proof unfold_locales
  fix f g :: "spinlock_t \<Rightarrow> spinlock_t" and s :: "'z disk_scheme"
  show "f (ide_lk s) = g (ide_lk s) \<Longrightarrow> ide_lk_update f s = ide_lk_update g s" by (cases s) simp
qed simp_all

interpretation ides: sleep_lock ide_lk ide_lk_update
  by unfold_locales simp_all

interpretation bcache: lock_field bcache_lk bcache_lk_update
proof unfold_locales
  fix f g :: "spinlock_t \<Rightarrow> spinlock_t" and s :: "'z disk_scheme"
  show "f (bcache_lk s) = g (bcache_lk s) \<Longrightarrow> bcache_lk_update f s = bcache_lk_update g s" by (cases s) simp
qed simp_all

lemma disk_lock_exec [exec]:
  "cpu_ok s \<Longrightarrow> ide_lk s = lock_init_val \<Longrightarrow>
   spinlock_acquire ide_lk ide_lk_update s = Inr ((), s\<lparr>ide_lk := lock_held_val (kstack_cpu_idx s)\<rparr>)"
  "cpu_ok s \<Longrightarrow> bcache_lk s = lock_init_val \<Longrightarrow>
   spinlock_acquire bcache_lk bcache_lk_update s = Inr ((), s\<lparr>bcache_lk := lock_held_val (kstack_cpu_idx s)\<rparr>)"
  using ide.acquire_exec [of s] bcache.acquire_exec [of s]
  by (simp_all add: ide.set_lock_def bcache.set_lock_def lock_init_val_def)

lemma disk_unlock_exec [exec]:
  "spinlock_release ide_lk_update s = Inr ((), s\<lparr>ide_lk := lock_init_val\<rparr>)"
  "spinlock_release bcache_lk_update s = Inr ((), s\<lparr>bcache_lk := lock_init_val\<rparr>)"
  by (simp_all add: ide.release_exec ide.set_lock_def bcache.release_exec bcache.set_lock_def)

lemma sched_ok_disk [simp]:
  "sched_ok (s\<lparr>ide_lk := l\<rparr>) xs = sched_ok s xs" "sched_ok (s\<lparr>bcache_lk := l\<rparr>) xs = sched_ok s xs"
  "sched_ok (s\<lparr>bufs := f\<rparr>) xs = sched_ok s xs" "sched_ok (s\<lparr>idequeue := q\<rparr>) xs = sched_ok s xs"
  "sched_ok (s\<lparr>sectors := d\<rparr>) xs = sched_ok s xs" "sched_ok (s\<lparr>disk_writes := w\<rparr>) xs = sched_ok s xs"
  "sched_ok (s\<lparr>io_in := i\<rparr>) xs = sched_ok s xs" "sched_ok (s\<lparr>io_out := ou\<rparr>) xs = sched_ok s xs"
  by (rule sched_ok_cong; simp)+

lemma cpu_ok_disk [simp]:
  "cpu_ok (s\<lparr>ide_lk := l\<rparr>) = cpu_ok s" "cpu_ok (s\<lparr>bcache_lk := l\<rparr>) = cpu_ok s"
  "cpu_ok (s\<lparr>bufs := f\<rparr>) = cpu_ok s" "cpu_ok (s\<lparr>idequeue := q\<rparr>) = cpu_ok s"
  "cpu_ok (s\<lparr>sectors := d\<rparr>) = cpu_ok s" "cpu_ok (s\<lparr>disk_writes := w\<rparr>) = cpu_ok s"
  "cpu_ok (s\<lparr>io_in := i\<rparr>) = cpu_ok s" "cpu_ok (s\<lparr>io_out := ou\<rparr>) = cpu_ok s"
  by (simp_all add: cpu_ok_def)

section \<open>Buffers\<close>

definition with_buf :: "nat \<Rightarrow> buf \<Rightarrow> 'z disk_scheme \<Rightarrow> 'z disk_scheme" where
  "with_buf b x s = s\<lparr>bufs := (bufs s)(b := x)\<rparr>"

lemma buf_ops [exec]:
  "get_buf b f s = Inr (f (bufs s b), s)"
  "set_buf b g s = Inr ((), s\<lparr>bufs := (bufs s)(b := g (bufs s b))\<rparr>)"
  by (simp_all add: get_buf_def set_buf_def exec)

definition busy :: "buf \<Rightarrow> bool" where "busy x \<longleftrightarrow> bit (b_flags x) 0"
definition valid :: "buf \<Rightarrow> bool" where "valid x \<longleftrightarrow> bit (b_flags x) 1"
definition dirty :: "buf \<Rightarrow> bool" where "dirty x \<longleftrightarrow> bit (b_flags x) 2"

lemmas flag_defs = busy_def valid_def dirty_def

lemma bit_flags:
  "bit (1 :: u32) n \<longleftrightarrow> n = 0" "bit (2 :: u32) n \<longleftrightarrow> n = 1" "bit (4 :: u32) n \<longleftrightarrow> n = 2" "bit (6 :: u32) n \<longleftrightarrow> n = 1 \<or> n = 2"
proof -
  have e: "bit (2 ^ m :: u32) n \<longleftrightarrow> m < 32 \<and> n = m" for m by (auto simp: bit_simps)
  show "bit (1 :: u32) n \<longleftrightarrow> n = 0" "bit (2 :: u32) n \<longleftrightarrow> n = 1" and 4: "bit (4 :: u32) n \<longleftrightarrow> n = 2"
    using e [of 0] e [of 1] e [of 2] by simp_all
  have "(6 :: u32) = 2 ^ 1 OR 2 ^ 2" by simp
  then show "bit (6 :: u32) n \<longleftrightarrow> n = 1 \<or> n = 2" using e [of 1] e [of 2] by (simp only: bit_or_iff) simp
qed

lemma mask_bit:
  fixes w :: u32
  shows "w AND 1 = 0 \<longleftrightarrow> \<not> bit w 0" "w AND 2 = 0 \<longleftrightarrow> \<not> bit w 1" "w AND 4 = 0 \<longleftrightarrow> \<not> bit w 2"
    "w AND 6 = 2 \<longleftrightarrow> bit w 1 \<and> \<not> bit w 2"
proof -
  show "w AND 1 = 0 \<longleftrightarrow> \<not> bit w 0" "w AND 2 = 0 \<longleftrightarrow> \<not> bit w 1" "w AND 4 = 0 \<longleftrightarrow> \<not> bit w 2"
    using and_exp_eq_0_iff_not_bit [of w 0] and_exp_eq_0_iff_not_bit [of w 1] and_exp_eq_0_iff_not_bit [of w 2] by simp_all
  show "w AND 6 = 2 \<longleftrightarrow> bit w 1 \<and> \<not> bit w 2"
  proof
    assume *: "w AND 6 = 2"
    have "bit (w AND 6) 1 = bit (2 :: u32) 1" "bit (w AND 6) 2 = bit (2 :: u32) 2" unfolding * by (rule refl)+
    then show "bit w 1 \<and> \<not> bit w 2" unfolding bit_and_iff bit_flags by simp
  next
    assume "bit w 1 \<and> \<not> bit w 2"
    then show "w AND 6 = 2" by (intro bit_word_eqI) (auto simp only: bit_and_iff bit_flags)
  qed
qed

lemma flag_bits:
  fixes w :: u32
  shows "bit (w OR 1) 0" "bit (w OR 1) (Suc 0) = bit w (Suc 0)" "bit (w OR 1) 2 = bit w 2"
    "bit (w OR 2) 0 = bit w 0" "bit (w OR 2) (Suc 0)" "bit (w OR 2) 2 = bit w 2"
    "bit (w OR 4) 0 = bit w 0" "bit (w OR 4) (Suc 0) = bit w (Suc 0)" "bit (w OR 4) 2"
    "bit (w AND - 2) 0 = False" "bit (w AND - 2) (Suc 0) = bit w (Suc 0)" "bit (w AND - 2) 2 = bit w 2"
    "bit (w AND - 5) 0 = bit w 0" "bit (w AND - 5) (Suc 0) = bit w (Suc 0)" "bit (w AND - 5) 2 = False"
proof -
  have n: "- 2 = NOT (1 :: u32)" "- 5 = NOT (4 :: u32)" by simp_all
  show "bit (w OR 1) 0" "bit (w OR 1) (Suc 0) = bit w (Suc 0)" "bit (w OR 1) 2 = bit w 2"
    "bit (w OR 2) 0 = bit w 0" "bit (w OR 2) (Suc 0)" "bit (w OR 2) 2 = bit w 2"
    "bit (w OR 4) 0 = bit w 0" "bit (w OR 4) (Suc 0) = bit w (Suc 0)" "bit (w OR 4) 2"
    "bit (w AND - 2) 0 = False" "bit (w AND - 2) (Suc 0) = bit w (Suc 0)" "bit (w AND - 2) 2 = bit w 2"
    "bit (w AND - 5) 0 = bit w 0" "bit (w AND - 5) (Suc 0) = bit w (Suc 0)" "bit (w AND - 5) 2 = False"
    unfolding n by (auto simp: bit_or_iff bit_and_iff bit_not_iff bit_flags)
qed

section \<open>The driver\<close>

text \<open>
  The controller never stays busy for ever, and is without error when it is ready.
\<close>

definition drive_ready :: "u8 \<Rightarrow> bool" where
  "drive_ready r \<longleftrightarrow> r AND (0x80 OR 0x40) = 0x40"

definition ide_ready :: "'z io_scheme \<Rightarrow> bool" where
  "ide_ready s \<longleftrightarrow> (\<forall>k. \<exists>j \<ge> k. drive_ready (io_in s 0x1f7 j)) \<and>
     (\<forall>k. drive_ready (io_in s 0x1f7 k) \<longrightarrow> io_in s 0x1f7 k AND (0x20 OR 0x01) = 0)"

lemma ide_ready_shift: "ide_ready s \<Longrightarrow> ide_ready (s\<lparr>io_in := (io_in s)(0x1f7 := \<lambda>n. io_in s 0x1f7 (Suc n))\<rparr>)"
  unfolding ide_ready_def by (auto, metis Suc_le_D Suc_le_mono)

lemma ide_wait_exec:
  assumes "ide_ready s"
  obtains i where "ide_wait c s = Inr (0, s\<lparr>io_in := i\<rparr>)" "ide_ready (s\<lparr>io_in := i\<rparr>)"
proof -
  let ?f = "\<lambda>_ :: unit. bind (inb 0x1f7) (\<lambda>r. if r AND (0x80 OR 0x40) \<noteq> 0x40 then ret (Inl ()) else ret (Inr r))"
  obtain j where "drive_ready (io_in s 0x1f7 j)" using assms by (auto simp: ide_ready_def)
  then have "\<exists>r i. iterate ?f () s = Inr (r, s\<lparr>io_in := i\<rparr>) \<and> r AND (0x20 OR 0x01) = 0 \<and> ide_ready (s\<lparr>io_in := i\<rparr>)"
    using assms
  proof (induction j arbitrary: s)
    case 0
    then have "?f () s = Inr (Inr (io_in s 0x1f7 0), s\<lparr>io_in := (io_in s)(0x1f7 := \<lambda>n. io_in s 0x1f7 (Suc n))\<rparr>)"
      by (simp add: exec inb_def drive_ready_def)
    from iterate_done [of ?f, OF this] show ?case using 0 ide_ready_shift [OF 0(2)] unfolding ide_ready_def by blast
  next
    case (Suc j)
    let ?s = "s\<lparr>io_in := (io_in s)(0x1f7 := \<lambda>n. io_in s 0x1f7 (Suc n))\<rparr>"
    show ?case
    proof (cases "drive_ready (io_in s 0x1f7 0)")
      case True
      then have "?f () s = Inr (Inr (io_in s 0x1f7 0), ?s)"
        by (simp add: exec inb_def drive_ready_def)
      from iterate_done [of ?f, OF this] show ?thesis
        using True Suc.prems ide_ready_shift [OF Suc.prems(2)] unfolding ide_ready_def by blast
    next
      case False
      then have "?f () s = Inr (Inl (), ?s)" by (simp add: exec inb_def drive_ready_def)
      note step = iterate_next [of ?f, OF this]
      have "drive_ready (io_in ?s 0x1f7 j)" using Suc.prems(1) by simp
      from Suc.IH [OF this ide_ready_shift [OF Suc.prems(2)]] show ?thesis unfolding step by auto
    qed
  qed
  then show thesis using that by (auto simp: ide_wait_def bind_exec exec)
qed

lemma port_val_out: "port_val (s\<lparr>io_out := (p, v) # ou\<rparr>) q = (if q = p then v else port_val (s\<lparr>io_out := ou\<rparr>) q)"
  by (simp add: port_val_def)

lemma mask_take_bit: "(w :: u32) AND 0xff = take_bit 8 w" "w AND 0x0f = take_bit 4 w" "w AND 1 = take_bit 1 w" "(v :: u8) AND 0x0f = take_bit 4 v" "v AND 1 = take_bit 1 v"
  by (simp_all add: take_bit_eq_mask mask_eq_exp_minus_1)

lemma e0_eq: "(0xe0 :: u32) = push_bit 5 (mask 3)"
  by (simp add: mask_eq_exp_minus_1)

lemma low_sector_bit: "sec < (0x10000000 :: u32) \<Longrightarrow> bit sec n \<Longrightarrow> n < 28"
proof (rule ccontr)
  assume a: "sec < 0x10000000" "bit sec n" "\<not> n < 28"
  have "unat sec < 2 ^ 28" using a(1) by (simp add: word_less_nat_alt)
  then have "take_bit 28 sec = sec" by (simp add: word_unat_eq_iff unsigned_take_bit_eq take_bit_nat_eq_self)
  then have "bit (take_bit 28 sec) n" using a(2) by simp
  then show False using a(3) by (simp add: bit_take_bit_iff)
qed

lemma sector_bytes:
  assumes "sec < (0x10000000 :: u32)"
  shows "ucast (ucast (sec AND 0xff) :: u8) OR push_bit 8 (ucast (ucast (drop_bit 8 sec AND 0xff) :: u8)) OR
     push_bit 16 (ucast (ucast (drop_bit 16 sec AND 0xff) :: u8)) OR
     push_bit 24 (ucast ((ucast (0xe0 OR push_bit 4 (dev AND 1) OR (drop_bit 24 sec AND 0x0f)) :: u8) AND 0x0f)) = sec" (is "?l = _")
proof (rule bit_word_eqI)
  fix n assume n: "n < LENGTH(32)"
  consider "n < 8" | "8 \<le> n" "n < 16" | "16 \<le> n" "n < 24" | "24 \<le> n" "n < 28" | "28 \<le> n" by linarith
  then show "bit ?l n = bit sec n"
  proof cases
    case 5
    then have "\<not> bit sec n" using low_sector_bit [OF assms, of n] by auto
    with 5 show ?thesis unfolding mask_take_bit e0_eq by (auto simp: bit_simps)
  qed (unfold mask_take_bit e0_eq, use n in \<open>auto simp: bit_simps\<close>)
qed

lemma drive_bit:
  "ucast (drop_bit 4 (ucast (0xe0 OR push_bit 4 ((1 :: u32) AND 1) OR (w AND 0x0f)) :: u8) AND 1) = (1 :: u32)"
proof -
  have "bit (ucast (0xe0 OR push_bit 4 (take_bit 1 (1 :: u32)) OR take_bit 4 w) :: u8) 4"
    unfolding e0_eq by (simp add: bit_simps)
  then have "bit (drop_bit 4 (ucast (0xe0 OR push_bit 4 (take_bit 1 (1 :: u32)) OR take_bit 4 w) :: u8)) 0"
    by (simp add: bit_drop_bit_eq)
  then show ?thesis unfolding mask_take_bit by (simp add: bit_0 odd_iff_mod_2_eq_one take_bit_Suc)
qed

text \<open>A sector stored on drive 1.\<close>

definition sector_stored :: "u32 \<Rightarrow> u8 list \<Rightarrow> 'z disk_scheme \<Rightarrow> 'z disk_scheme" where
  "sector_stored sec d s = s\<lparr>sectors := (sectors s)(1 := (sectors s 1)(sec := d)), disk_writes := disk_writes s @ [(1, sec, d)]\<rparr>"

text \<open>The buffer is one that the driver can transfer.\<close>

definition on_disk :: "buf \<Rightarrow> bool" where
  "on_disk x \<longleftrightarrow> b_dev x = 1 \<and> b_sector x < 0x10000000"

lemma ide_ready_cong: "io_in t = io_in s \<Longrightarrow> ide_ready t = ide_ready s"
  by (simp add: ide_ready_def)

lemma ide_start_exec:
  assumes "ide_ready s" "on_disk (bufs s b)"
  obtains i ou t where "ide_start (Some b) s = Inr ((), t)" "ide_ready t" "sel_drive t = 1" "sel_sector t = b_sector (bufs s b)"
    "t = (if dirty (bufs s b) then sector_stored (b_sector (bufs s b)) (b_data (bufs s b)) else (\<lambda>s. s)) (s\<lparr>io_in := i, io_out := ou\<rparr>)"
proof -
  obtain i where i: "ide_wait False s = Inr (0, s\<lparr>io_in := i\<rparr>)" "ide_ready (s\<lparr>io_in := i\<rparr>)"
    by (rule ide_wait_exec [OF assms(1)])
  let ?x = "bufs s b"
  define ou where "ou = (0x1f6, ucast (0xe0 OR push_bit 4 (b_dev ?x AND 1) OR (drop_bit 24 (b_sector ?x) AND 0x0f))) #
     (0x1f5, ucast (drop_bit 16 (b_sector ?x) AND 0xff)) # (0x1f4, ucast (drop_bit 8 (b_sector ?x) AND 0xff)) #
     (0x1f3, ucast (b_sector ?x AND 0xff)) # (0x1f2, 1) # (0x3f6, 0) # io_out s"
  have sel: "sel_drive u = 1" "sel_sector u = b_sector ?x" if "io_out u = (0x1f7, c) # ou" for u :: "'a disk_scheme" and c
  proof -
    have p: "port_val u 0x1f3 = ucast (b_sector ?x AND 0xff)" "port_val u 0x1f4 = ucast (drop_bit 8 (b_sector ?x) AND 0xff)"
      "port_val u 0x1f5 = ucast (drop_bit 16 (b_sector ?x) AND 0xff)"
      "port_val u 0x1f6 = ucast (0xe0 OR push_bit 4 (1 AND 1) OR (drop_bit 24 (b_sector ?x) AND 0x0f))"
      using that assms(2) by (simp_all add: port_val_def ou_def on_disk_def)
    show "sel_drive u = 1" unfolding sel_drive_def p by (rule drive_bit)
    show "sel_sector u = b_sector ?x" unfolding sel_sector_def p using assms(2) by (intro sector_bytes) (simp add: on_disk_def)
  qed
  let ?u = "s\<lparr>io_in := i, io_out := (0x1f7, if dirty ?x then IDE_CMD_WRITE else IDE_CMD_READ) # ou\<rparr>"
  have v: "port_val ?u 0x1f7 = (if dirty ?x then IDE_CMD_WRITE else IDE_CMD_READ)" by (simp add: port_val_def)
  define t where "t = (if dirty ?x then sector_stored (b_sector ?x) (b_data ?x) else (\<lambda>s. s)) ?u"
  have io: "io_out t = (0x1f7, if dirty ?x then IDE_CMD_WRITE else IDE_CMD_READ) # ou" "io_in t = i" by (simp_all add: t_def sector_stored_def)
  have "ide_start (Some b) s = Inr ((), t)"
    using i(1) sel [of ?u] v
    by (cases "dirty ?x") (simp_all add: ide_start_def exec outb_def outsl_def ou_def t_def sector_stored_def mask_bit dirty_def)
  moreover have "ide_ready t" using i(2) io(2) by (subst ide_ready_cong [of _ "s\<lparr>io_in := i\<rparr>"]) simp_all
  ultimately show thesis using that [where t = t and i = i and ou = "(0x1f7, if dirty ?x then IDE_CMD_WRITE else IDE_CMD_READ) # ou"] sel [OF io(1)] by (simp add: t_def)
qed

text \<open>A buffer whose request is done; \<open>d\<close> is what the sector holds.\<close>

definition served :: "u8 list \<Rightarrow> buf \<Rightarrow> buf" where
  "served d x = x\<lparr>b_data := if dirty x then b_data x else d, b_flags := (b_flags x OR B_VALID) AND NOT B_DIRTY\<rparr>"

lemma served_simps [simp]:
  "valid (served d x)" "\<not> dirty (served d x)" "busy (served d x) = busy x" "b_dev (served d x) = b_dev x" "b_sector (served d x) = b_sector x"
  "b_next (served d x) = b_next x" "b_prev (served d x) = b_prev x" "b_data (served d x) = (if dirty x then b_data x else d)"
  by (simp_all add: served_def flag_defs flag_bits)

lemma ide_lk_same: "ide_lk s = v \<Longrightarrow> s\<lparr>ide_lk := v\<rparr> = s"
  by (cases s) simp

lemma ide_intr_exec:
  assumes "sched_ok s xs" "ide_lk s = lock_init_val" "ide_ready s" "idequeue s = Some b" "b_qnext (bufs s b) = None"
    "sel_drive s = 1" "sel_sector s = b_sector (bufs s b)"
  obtains T Q i ys where "ide_intr s = Inr ((), s\<lparr>TCBPool := T, TQueuePool := Q, io_in := i,
      bufs := (bufs s)(b := served (sectors s 1 (b_sector (bufs s b))) (bufs s b)), idequeue := None\<rparr>)"
    "ide_ready (s\<lparr>io_in := i\<rparr>)" "sched_ok (s\<lparr>TCBPool := T, TQueuePool := Q\<rparr>) ys"
proof -
  let ?x = "bufs s b" and ?d = "sectors s 1 (b_sector (bufs s b))"
  let ?h = "s\<lparr>ide_lk := lock_held_val (kstack_cpu_idx s), idequeue := None\<rparr>"
  have "ide_ready ?h" using assms(3) by (simp add: ide_ready_def)
  then obtain i0 where i0: "ide_wait True ?h = Inr (0, ?h\<lparr>io_in := i0\<rparr>)" "ide_ready (?h\<lparr>io_in := i0\<rparr>)"
    by (rule ide_wait_exec)
  define i where "i = (if dirty ?x then io_in s else i0)"
  let ?u = "s\<lparr>ide_lk := lock_held_val (kstack_cpu_idx s), idequeue := None, io_in := i, bufs := (bufs s)(b := served ?d ?x)\<rparr>"
  have "sched_ok ?u xs" using assms(1) by simp
  then obtain T Q where w: "thread_wakeup (ChBuf b) ?u = Inr ((), ?u\<lparr>TCBPool := T, TQueuePool := Q\<rparr>)"
    "sched_ok (?u\<lparr>TCBPool := T, TQueuePool := Q\<rparr>) (xs @ filter (sleeps_on ?u (ChBuf b)) (pages 1 NUM_IDS))"
    by (rule thread_wakeup_exec [OF _ refl])
  have sel: "sectors s (sel_drive (?h\<lparr>io_in := i0\<rparr>)) (sel_sector (?h\<lparr>io_in := i0\<rparr>)) = ?d"
    using assms(6,7) by (simp add: sel_drive_def sel_sector_def port_val_def)
  have "ide_intr s = Inr ((), s\<lparr>TCBPool := T, TQueuePool := Q, io_in := i, bufs := (bufs s)(b := served ?d ?x), idequeue := None\<rparr>)"
  proof (cases "dirty ?x")
    case True
    show ?thesis
      using assms(2,4,5) sched_okD(1) [OF assms(1)] True w(1)
      by (simp add: ide_intr_def exec mask_bit dirty_def served_def i_def ide_lk_same)
  next
    case False
    show ?thesis
      using assms(2,4,5) sched_okD(1) [OF assms(1)] False w(1) i0(1) sel
      by (simp add: ide_intr_def exec mask_bit dirty_def served_def i_def insl_def ide_lk_same)
  qed
  moreover have "ide_ready (s\<lparr>io_in := i\<rparr>)" using assms(3) i0(2) by (simp add: ide_ready_def i_def)
  moreover have "sched_ok (s\<lparr>TCBPool := T, TQueuePool := Q\<rparr>) (xs @ filter (sleeps_on ?u (ChBuf b)) (pages 1 NUM_IDS))"
    using w(2) by (subst sched_ok_cong [of _ "?u\<lparr>TCBPool := T, TQueuePool := Q\<rparr>"]) simp_all
  ultimately show thesis by (rule that)
qed

section \<open>Waiting for the disk\<close>

text \<open>The state of the file system and of its disk.\<close>

definition fs_part :: "'z disk_scheme \<Rightarrow> (nat \<Rightarrow> buf) \<times> spinlock_t \<times> spinlock_t \<times> nat option \<times> bool \<times> (u32 \<Rightarrow> u32 \<Rightarrow> u8 list) \<times>
    (u32 \<times> u32 \<times> u8 list) list \<times> 'z" where
  "fs_part s = (bufs s, bcache_lk s, ide_lk s, idequeue s, havedisk1 s, sectors s, disk_writes s, disk.more s)"

text \<open>
  What the driver relies on while its thread sleeps: the interrupt of the controller is handled, nobody else
  uses the file system, and when the thread runs again some other thread is ready.
\<close>

definition serves :: "('z disk_scheme \<Rightarrow> 'z disk_scheme) \<Rightarrow> bool" where
  "serves env \<longleftrightarrow> (\<forall>t u xs. sched_ok t xs \<longrightarrow> idequeue t \<noteq> None \<longrightarrow> ide_ready t \<longrightarrow> ide_intr t = Inr ((), u) \<longrightarrow>
     fs_part (env t) = fs_part u \<and> ide_ready (env t) \<and> (\<exists>y ys. sched_ok (env t) (y # ys)))"

definition quiet :: "'z disk_scheme \<Rightarrow> bool" where
  "quiet s \<longleftrightarrow> ide_lk s = lock_init_val \<and> bcache_lk s = lock_init_val \<and> idequeue s = None \<and> havedisk1 s \<and> ide_ready s \<and>
     (\<exists>y ys. sched_ok s (y # ys))"

lemma sched_ok_chan:
  assumes "sched_ok s xs"
  shows "sched_ok (s\<lparr>TCBPool := (TCBPool s)(p := (TCBPool s p)\<lparr>tchannel := ch\<rparr>)\<rparr>) xs"
proof -
  define t where "t = s\<lparr>TCBPool := (TCBPool s)(p := (TCBPool s p)\<lparr>tchannel := ch\<rparr>)\<rparr>"
  have f: "tstate (TCBPool t q) = tstate (TCBPool s q)" "tprev (TCBPool t q) = tprev (TCBPool s q)"
    "tnext (TCBPool t q) = tnext (TCBPool s q)" for q
    by (simp_all add: t_def)
  have g: "queue_rep t NUM_IDS xs = queue_rep s NUM_IDS xs" "cpu_ok t = cpu_ok s" "sched_lk t = sched_lk s" "cur t = cur s"
    by (rule queue_rep_cong) (simp_all add: t_def cpu_ok_def)
  have "sched_ok t xs" using assms unfolding sched_ok_def f g .
  then show ?thesis by (simp only: t_def)
qed

lemma resume_exec:
  assumes "sched_ok v ys" "ide_lk v = lock_init_val" "c < NUM_IDS"
  obtains T where "thread_sleep_resume c ide_lk ide_lk_update v =
      Inr ((), v\<lparr>TCBPool := T, ide_lk := lock_held_val (kstack_cpu_idx v)\<rparr>)" "sched_ok (v\<lparr>TCBPool := T\<rparr>) ys"
proof -
  have "thread_sleep_resume c ide_lk ide_lk_update v = Inr ((), v\<lparr>TCBPool := (TCBPool v)(c := (TCBPool v c)\<lparr>tchannel := ChNull\<rparr>),
      ide_lk := lock_held_val (kstack_cpu_idx v)\<rparr>)"
    using sched_okD(1,2) [OF assms(1)] assms(2,3)
    by (simp add: thread_sleep_resume_def exec tcb_ops sched_lk_same)
  then show thesis by (rule that) (rule sched_ok_chan [OF assms(1)])
qed

lemma wait_disk:
  assumes "serves env" "sched_ok s (x # xs)" "ide_ready s" "idequeue s = Some b" "b_qnext (bufs s b) = None"
    "sel_drive s = 1" "sel_sector s = b_sector (bufs s b)"
  obtains t y ys where "sleep_on env (ChBuf b) ide_lk ide_lk_update s = Inr ((), t)" "sched_ok t (y # ys)" "ide_ready t"
    "fs_part t = ((bufs s)(b := served (sectors s 1 (b_sector (bufs s b))) (bufs s b)), bcache_lk s,
       lock_held_val (kstack_cpu_idx t), None, havedisk1 s, sectors s, disk_writes s, disk.more s)"
proof -
  obtain T Q where sl: "thread_sleep (ChBuf b) ide_lk_update s = Inl (Switched (resched (ide.set_lock lock_init_val s) T Q x
       ((kctx_pool s)(cur s := cpu_regs s)) (kctx_pool s x)))" (is "_ = Inl (Switched ?t)")
    "\<forall>k r. sched_ok (resched (ide.set_lock lock_init_val s) T Q x k r) xs"
    by (rule ides.thread_sleep_exec [OF assms(2)])
  have t: "sched_ok ?t xs" "ide_lk ?t = lock_init_val" "ide_ready ?t" "idequeue ?t = Some b" "b_qnext (bufs ?t b) = None"
    "sel_drive ?t = 1" "sel_sector ?t = b_sector (bufs ?t b)"
    using sl(2) assms by (simp_all add: ide.set_lock_def ide_ready_def sel_drive_def sel_sector_def port_val_def)
  obtain T' Q' i zs where u: "ide_intr ?t = Inr ((), ?t\<lparr>TCBPool := T', TQueuePool := Q', io_in := i,
      bufs := (bufs ?t)(b := served (sectors ?t 1 (b_sector (bufs ?t b))) (bufs ?t b)), idequeue := None\<rparr>)" (is "_ = Inr ((), ?u)")
    by (rule ide_intr_exec [OF t])
  have e: "fs_part (env ?t) = fs_part ?u" "ide_ready (env ?t)" and "\<exists>y ys. sched_ok (env ?t) (y # ys)"
    using assms(1) t(1,3,4) u unfolding serves_def by blast+
  then obtain y ys where y: "sched_ok (env ?t) (y # ys)" by blast
  have f: "fs_part (env ?t) = ((bufs s)(b := served (sectors s 1 (b_sector (bufs s b))) (bufs s b)), bcache_lk s,
       lock_init_val, None, havedisk1 s, sectors s, disk_writes s, disk.more s)"
    unfolding e(1) by (simp add: fs_part_def ide.set_lock_def)
  have "ide_lk (env ?t) = lock_init_val" using f by (simp add: fs_part_def)
  from resume_exec [OF y this sched_okD(4) [OF assms(2)]] obtain T2 where
    r: "thread_sleep_resume (cur s) ide_lk ide_lk_update (env ?t) =
      Inr ((), (env ?t)\<lparr>TCBPool := T2, ide_lk := lock_held_val (kstack_cpu_idx (env ?t))\<rparr>)" "sched_ok ((env ?t)\<lparr>TCBPool := T2\<rparr>) (y # ys)"
    by blast
  show thesis
  proof (rule that)
    show "sleep_on env (ChBuf b) ide_lk ide_lk_update s = Inr ((), (env ?t)\<lparr>TCBPool := T2, ide_lk := lock_held_val (kstack_cpu_idx (env ?t))\<rparr>)"
      using sl(1) r(1) sched_okD(1) [OF assms(2)] by (simp add: sleep_on_def exec)
    show "sched_ok ((env ?t)\<lparr>TCBPool := T2, ide_lk := lock_held_val (kstack_cpu_idx (env ?t))\<rparr>) (y # ys)"
      using r(2) by simp
  qed (use e(2) f in \<open>simp_all add: ide_ready_def fs_part_def\<close>)
qed

text \<open>One request, on an idle drive: the buffer is transferred and nothing else changes.\<close>

lemma ide_rw_exec:
  assumes "serves env" "quiet s" "busy (bufs s b)" "on_disk (bufs s b)" "\<not> valid (bufs s b) \<or> dirty (bufs s b)"
  obtains t where "ide_rw env b s = Inr ((), t)" "quiet t" "disk.more t = disk.more s"
    "bufs t = (bufs s)(b := served (sectors s 1 (b_sector (bufs s b))) ((bufs s b)\<lparr>b_qnext := None\<rparr>))"
    "sectors t = (if dirty (bufs s b) then (sectors s)(1 := (sectors s 1)(b_sector (bufs s b) := b_data (bufs s b))) else sectors s)"
    "disk_writes t = disk_writes s @ (if dirty (bufs s b) then [(1, b_sector (bufs s b), b_data (bufs s b))] else [])"
proof -
  let ?x = "bufs s b" and ?x' = "(bufs s b)\<lparr>b_qnext := None\<rparr>"
  obtain y ys where q: "sched_ok s (y # ys)" "ide_lk s = lock_init_val" "bcache_lk s = lock_init_val" "idequeue s = None" "havedisk1 s" "ide_ready s"
    using assms(2) by (auto simp: quiet_def)
  let ?h = "s\<lparr>ide_lk := lock_held_val (kstack_cpu_idx s), bufs := (bufs s)(b := ?x'), idequeue := Some b\<rparr>"
  have h: "ide_ready ?h" "on_disk (bufs ?h b)" using q(6) assms(4) by (simp_all add: ide_ready_def on_disk_def)
  obtain i ou u where u: "ide_start (Some b) ?h = Inr ((), u)" "ide_ready u" "sel_drive u = 1" "sel_sector u = b_sector (bufs ?h b)"
    "u = (if dirty (bufs ?h b) then sector_stored (b_sector (bufs ?h b)) (b_data (bufs ?h b)) else (\<lambda>s. s)) (?h\<lparr>io_in := i, io_out := ou\<rparr>)"
    by (rule ide_start_exec [OF h])
  have u': "sched_ok u (y # ys)" "idequeue u = Some b" "bufs u = bufs ?h" "bcache_lk u = lock_init_val" "havedisk1 u" "disk.more u = disk.more s"
    "sectors u = (if dirty ?x then (sectors s)(1 := (sectors s 1)(b_sector ?x := b_data ?x)) else sectors s)"
    "disk_writes u = disk_writes s @ (if dirty ?x then [(1, b_sector ?x, b_data ?x)] else [])"
    unfolding u(5) using q by (simp_all add: sector_stored_def dirty_def)
  have su: "sel_sector u = b_sector (bufs u b)" "b_qnext (bufs u b) = None" using u(4) u'(3) by simp_all
  obtain v z zs where v: "sleep_on env (ChBuf b) ide_lk ide_lk_update u = Inr ((), v)" "sched_ok v (z # zs)" "ide_ready v"
    "fs_part v = ((bufs u)(b := served (sectors u 1 (b_sector (bufs u b))) (bufs u b)), bcache_lk u,
       lock_held_val (kstack_cpu_idx v), None, havedisk1 u, sectors u, disk_writes u, disk.more u)"
    by (rule wait_disk [OF assms(1) u'(1) u(2) u'(2) su(2) u(3) su(1)])
  let ?f = "\<lambda>_ :: unit. bind (get_buf b b_flags) (\<lambda>fl. if fl AND (B_VALID OR B_DIRTY) \<noteq> B_VALID
       then seq (sleep_on env (ChBuf b) ide_lk ide_lk_update) (ret (Inl ())) else ret (Inr ()))"
  have b: "bufs v b = served (sectors u 1 (b_sector ?x)) ?x'" using v(4) u'(3) by (simp add: fs_part_def)
  have round1: "?f () u = Inr (Inl (), v)" using v(1) assms(5) u'(3) by (auto simp: exec mask_bit flag_defs)
  have round2: "?f () v = Inr (Inr (), v)"
    using served_simps(1,2) [of "sectors u 1 (b_sector ?x)" ?x', folded b] by (simp add: exec mask_bit flag_defs)
  have loop: "iterate ?f () u = Inr ((), v)"
    unfolding iterate_next [of ?f, OF round1] by (rule iterate_done [of ?f, OF round2])
  let ?t = "v\<lparr>ide_lk := lock_init_val\<rparr>"
  have "ide_rw env b s = Inr ((), ?t)"
    using assms(3,5) q sched_okD(1) [OF q(1)] u(1) loop
    by (auto simp: ide_rw_def ide_append_def exec mask_bit flag_defs)
  moreover have "quiet ?t" using v(2-4) u'(4,5) by (auto simp: quiet_def fs_part_def ide_ready_def)
  moreover have "bufs ?t = (bufs s)(b := served (sectors s 1 (b_sector ?x)) ?x')"
    using v(4) u'(3,7) by (auto simp: fs_part_def served_def dirty_def)
  ultimately show thesis using v(4) u'(6-8) by (intro that [of ?t]) (simp_all add: fs_part_def)
qed

section \<open>The list of buffers\<close>

definition ring :: "(nat \<Rightarrow> buf) \<Rightarrow> nat list \<Rightarrow> bool" where
  "ring B xs \<longleftrightarrow> distinct xs \<and> set xs = {0..<NBUF} \<and> chain (\<lambda>b. b_prev (B b)) (\<lambda>b. b_next (B b)) BHEAD xs BHEAD \<and>
     b_next (B BHEAD) = hd xs \<and> b_prev (B BHEAD) = last xs"

lemma ring_cong:
  "(\<And>b. b_next (B' b) = b_next (B b) \<and> b_prev (B' b) = b_prev (B b)) \<Longrightarrow> ring B' xs = ring B xs"
  by (simp add: ring_def)

lemma ring_nonempty: "ring B xs \<Longrightarrow> xs \<noteq> []"
  by (auto simp: ring_def)

lemma ring_range: "ring B xs \<Longrightarrow> b \<in> set xs \<longleftrightarrow> b < NBUF"
  by (simp add: ring_def)

lemma walk_next:
  fixes f :: "nat \<Rightarrow> ('s, nat + nat option) kop"
  assumes "\<And>x. x \<in> set ys \<Longrightarrow> f x s = Inr (if P x then Inr (Some x) else Inl (nx x), s)" "f BHEAD s = Inr (Inr None, s)"
  shows "chain pr nx p ys BHEAD \<Longrightarrow> iterate f (if ys = [] then BHEAD else hd ys) s = Inr (List.find P ys, s)"
  using assms(1)
proof (induction ys arbitrary: p)
  case Nil
  then show ?case using iterate_done [of f, OF assms(2)] by simp
next
  case (Cons y ys)
  show ?case
  proof (cases "P y")
    case True
    then show ?thesis using Cons.prems(2) [of y] iterate_done [of f y s] by simp
  next
    case False
    then have "f y s = Inr (Inl (if ys = [] then BHEAD else hd ys), s)" using Cons.prems by simp
    from iterate_next [of f, OF this] show ?thesis using Cons.IH [of y] Cons.prems False by simp
  qed
qed

lemma walk_prev:
  fixes f :: "nat \<Rightarrow> ('s, nat + nat option) kop"
  assumes "\<And>x. x \<in> set ys \<Longrightarrow> f x s = Inr (if P x then Inr (Some x) else Inl (pr x), s)" "f BHEAD s = Inr (Inr None, s)"
  shows "chain pr nx BHEAD ys n \<Longrightarrow> iterate f (if ys = [] then BHEAD else last ys) s = Inr (List.find P (rev ys), s)"
  using assms(1)
proof (induction ys arbitrary: n rule: rev_induct)
  case Nil
  then show ?case using iterate_done [of f, OF assms(2)] by simp
next
  case (snoc y ys)
  show ?case
  proof (cases "P y")
    case True
    then show ?thesis using snoc.prems(2) [of y] iterate_done [of f y s] by simp
  next
    case False
    then have "f y s = Inr (Inl (if ys = [] then BHEAD else last ys), s)" using snoc.prems by (simp add: chain_append)
    from iterate_next [of f, OF this] show ?thesis using snoc.IH [of y] snoc.prems False by (simp add: chain_append)
  qed
qed

lemma bufcache_find_exec:
  assumes "ring (bufs s) xs"
  shows "bufcache_find dev sec s = Inr (List.find (\<lambda>b. b_dev (bufs s b) = dev \<and> b_sector (bufs s b) = sec) xs, s)"
proof -
  have r: "chain (\<lambda>b. b_prev (bufs s b)) (\<lambda>b. b_next (bufs s b)) BHEAD xs BHEAD" "b_next (bufs s BHEAD) = hd xs" "BHEAD \<notin> set xs"
    using assms by (auto simp: ring_def)
  let ?f = "\<lambda>b. if b = BHEAD then ret (Inr None) else bind (get_buf b (\<lambda>x. x)) (\<lambda>x.
    if b_dev x = dev \<and> b_sector x = sec then ret (Inr (Some b)) else ret (Inl (b_next x)))"
  have "iterate ?f (if xs = [] then BHEAD else hd xs) s =
      Inr (List.find (\<lambda>b. b_dev (bufs s b) = dev \<and> b_sector (bufs s b) = sec) xs, s)"
    by (rule walk_next [OF _ _ r(1)]) (use r(3) in \<open>auto simp: exec\<close>)
  then show ?thesis unfolding bufcache_find_def using r(2) ring_nonempty [OF assms] by (simp add: bind_exec buf_ops)
qed

lemma bufcache_victim_exec:
  assumes "ring (bufs s) xs"
  shows "bufcache_victim s = Inr (List.find (\<lambda>b. \<not> busy (bufs s b) \<and> \<not> dirty (bufs s b)) (rev xs), s)"
proof -
  have r: "chain (\<lambda>b. b_prev (bufs s b)) (\<lambda>b. b_next (bufs s b)) BHEAD xs BHEAD" "b_prev (bufs s BHEAD) = last xs" "BHEAD \<notin> set xs"
    using assms by (auto simp: ring_def)
  let ?f = "\<lambda>b. if b = BHEAD then ret (Inr None) else bind (get_buf b (\<lambda>x. x)) (\<lambda>x.
    if b_flags x AND B_BUSY = 0 \<and> b_flags x AND B_DIRTY = 0 then ret (Inr (Some b)) else ret (Inl (b_prev x)))"
  have "iterate ?f (if xs = [] then BHEAD else last xs) s =
      Inr (List.find (\<lambda>b. \<not> busy (bufs s b) \<and> \<not> dirty (bufs s b)) (rev xs), s)"
    by (rule walk_prev [OF _ _ r(1)]) (use r(3) in \<open>auto simp: exec mask_bit flag_defs\<close>)
  then show ?thesis unfolding bufcache_victim_def using r(2) ring_nonempty [OF assms] by (simp add: bind_exec buf_ops)
qed

section \<open>The contents of the buffers\<close>

text \<open>
  \<open>H\<close> are the buffers in use, \<open>D\<close> the sectors of drive 1. No sector has two buffers; a buffer that is not in use and not
  dirty holds what the disk holds.
\<close>

definition coherent :: "(nat \<Rightarrow> buf) \<Rightarrow> nat set \<Rightarrow> (u32 \<Rightarrow> u8 list) \<Rightarrow> bool" where
  "coherent B H D \<longleftrightarrow> H \<subseteq> {0..<NBUF} \<and> (\<forall>b < NBUF. busy (B b) \<longleftrightarrow> b \<in> H) \<and>
     (\<forall>b < NBUF. \<forall>c < NBUF. b_dev (B b) = 1 \<longrightarrow> b_dev (B c) = 1 \<longrightarrow> b_sector (B b) = b_sector (B c) \<longrightarrow> b = c) \<and>
     (\<forall>b < NBUF. valid (B b) \<or> dirty (B b) \<longrightarrow> on_disk (B b) \<and> length (b_data (B b)) = BSIZE) \<and>
     (\<forall>b < NBUF. b \<notin> H \<longrightarrow> dirty (B b) \<longrightarrow> valid (B b)) \<and>
     (\<forall>b < NBUF. b \<notin> H \<longrightarrow> valid (B b) \<longrightarrow> \<not> dirty (B b) \<longrightarrow> b_data (B b) = D (b_sector (B b))) \<and>
     (\<forall>sec. length (D sec) = BSIZE)"

lemma coherentD:
  assumes "coherent B H D"
  shows "b < NBUF \<Longrightarrow> busy (B b) \<longleftrightarrow> b \<in> H" "H \<subseteq> {0..<NBUF}"
    "b < NBUF \<Longrightarrow> c < NBUF \<Longrightarrow> b_dev (B b) = 1 \<Longrightarrow> b_dev (B c) = 1 \<Longrightarrow> b_sector (B b) = b_sector (B c) \<Longrightarrow> b = c"
    "b < NBUF \<Longrightarrow> valid (B b) \<or> dirty (B b) \<Longrightarrow> on_disk (B b) \<and> length (b_data (B b)) = BSIZE"
    "b < NBUF \<Longrightarrow> b \<notin> H \<Longrightarrow> dirty (B b) \<Longrightarrow> valid (B b)"
    "b < NBUF \<Longrightarrow> b \<notin> H \<Longrightarrow> valid (B b) \<Longrightarrow> \<not> dirty (B b) \<Longrightarrow> b_data (B b) = D (b_sector (B b))"
    "length (D sec) = BSIZE"
  using assms unfolding coherent_def by blast+

lemma coherent_unique:
  assumes "coherent B H D" "b < NBUF" "b_dev (B b) = 1"
  shows "\<forall>c < NBUF. c \<noteq> b \<longrightarrow> b_dev (B c) = 1 \<longrightarrow> b_sector (B c) \<noteq> b_sector (B b)"
  using coherentD(3) [OF assms(1,2) _ assms(3)] by metis

text \<open>A buffer in use may be replaced by one with a different content.\<close>

lemma coherent_held:
  assumes "coherent B H D" "b < NBUF" "busy x" "valid x \<or> dirty x \<longrightarrow> on_disk x \<and> length (b_data x) = BSIZE"
    "\<forall>c < NBUF. c \<noteq> b \<longrightarrow> b_dev x = 1 \<longrightarrow> b_dev (B c) = 1 \<longrightarrow> b_sector (B c) \<noteq> b_sector x"
    "\<forall>c < NBUF. c \<notin> insert b H \<longrightarrow> b_dev (B c) = 1 \<longrightarrow> D' (b_sector (B c)) = D (b_sector (B c))" "\<forall>sec. length (D' sec) = BSIZE"
  shows "coherent (B(b := x)) (insert b H) D'"
  unfolding coherent_def
proof (intro conjI allI impI)
  note D = coherentD [OF assms(1)]
  let ?B = "B(b := x)"
  show "insert b H \<subseteq> {0..<NBUF}" using D(2) assms(2) by simp
  show "length (D' sec) = BSIZE" for sec using assms(7) by blast
  fix c assume c: "c < NBUF"
  show "busy (?B c) \<longleftrightarrow> c \<in> insert b H" using D(1) [OF c] assms(3) by simp
  show "on_disk (?B c)" "length (b_data (?B c)) = BSIZE" if "valid (?B c) \<or> dirty (?B c)"
    using that D(4) [OF c] assms(4) by (auto split: if_splits)
  show "valid (?B c)" if "c \<notin> insert b H" "dirty (?B c)" using that D(5) [OF c] by simp
  show "b_data (?B c) = D' (b_sector (?B c))" if "c \<notin> insert b H" "valid (?B c)" "\<not> dirty (?B c)"
    using that D(4,6) [OF c] assms(6) c by (simp add: on_disk_def)
  fix c' assume c': "c' < NBUF" "b_dev (?B c) = 1" "b_dev (?B c') = 1" "b_sector (?B c) = b_sector (?B c')"
  then show "c = c'" using D(3) [OF c c'(1)] assms(5) c by (cases "c = b"; cases "c' = b") auto
qed

definition cache_ok :: "'z disk_scheme \<Rightarrow> nat set \<Rightarrow> bool" where
  "cache_ok s H \<longleftrightarrow> quiet s \<and> (\<exists>xs. ring (bufs s) xs) \<and> coherent (bufs s) H (sectors s 1)"

lemma bcache_lk_same: "bcache_lk s = v \<Longrightarrow> s\<lparr>bcache_lk := v\<rparr> = s"
  by (cases s) simp

lemma quiet_bufs [simp]: "quiet (s\<lparr>bufs := B\<rparr>) = quiet s"
  by (simp add: quiet_def ide_ready_def)

text \<open>The buffer of a sector: the one that has it, or the least recently used one that can be recycled.\<close>

lemma get_ok:
  assumes "cache_ok s H" "b < NBUF" "b \<notin> H" "busy x" "b_dev x = 1" "b_sector x = sec" "sec < 0x10000000"
    "b_next x = b_next (bufs s b)" "b_prev x = b_prev (bufs s b)" "valid x \<or> dirty x \<longrightarrow> length (b_data x) = BSIZE"
    "\<forall>c < NBUF. c \<noteq> b \<longrightarrow> b_dev (bufs s c) = 1 \<longrightarrow> b_sector (bufs s c) \<noteq> sec"
  shows "cache_ok (s\<lparr>bufs := (bufs s)(b := x)\<rparr>) (insert b H)"
proof -
  have c: "coherent (bufs s) H (sectors s 1)" using assms(1) by (simp add: cache_ok_def)
  obtain xs where "ring (bufs s) xs" using assms(1) by (auto simp: cache_ok_def)
  then have "ring ((bufs s)(b := x)) xs" using assms(8,9) by (subst ring_cong) auto
  moreover have "coherent ((bufs s)(b := x)) (insert b H) (sectors s 1)"
    by (rule coherent_held [OF c]) (use assms coherentD(7) [OF c] in \<open>auto simp: on_disk_def\<close>)
  ultimately show ?thesis using assms(1) by (auto simp: cache_ok_def)
qed

lemma bufcache_get_exec:
  assumes "cache_ok s H" "\<forall>b \<in> H. b_dev (bufs s b) = 1 \<longrightarrow> b_sector (bufs s b) \<noteq> sec" "sec < 0x10000000"
    "(\<exists>b < NBUF. b_dev (bufs s b) = 1 \<and> b_sector (bufs s b) = sec) \<or> (\<exists>b < NBUF. b \<notin> H \<and> \<not> dirty (bufs s b))"
  obtains b x where "bufcache_get env 1 sec s = Inr (b, s\<lparr>bufs := (bufs s)(b := x)\<rparr>)" "b < NBUF" "b \<notin> H" "busy x" "b_dev x = 1" "b_sector x = sec"
    "dirty x \<longrightarrow> valid x \<and> dirty (bufs s b) \<and> b_sector (bufs s b) = sec"
    "valid x \<longrightarrow> length (b_data x) = BSIZE \<and> (\<not> dirty x \<longrightarrow> b_data x = sectors s 1 sec)"
    "cache_ok (s\<lparr>bufs := (bufs s)(b := x)\<rparr>) (insert b H)"
proof -
  obtain xs where r: "ring (bufs s) xs" using assms(1) by (auto simp: cache_ok_def)
  have c: "coherent (bufs s) H (sectors s 1)" using assms(1) by (simp add: cache_ok_def)
  note D = coherentD [OF c]
  have q: "cpu_ok s" "bcache_lk s = lock_init_val" using assms(1) by (auto simp: cache_ok_def quiet_def dest: sched_okD(1))
  let ?h = "s\<lparr>bcache_lk := lock_held_val (kstack_cpu_idx s)\<rparr>"
  have rh: "ring (bufs ?h) xs" using r by simp
  let ?P = "\<lambda>b. b_dev (bufs s b) = 1 \<and> b_sector (bufs s b) = sec"
  show thesis
  proof (cases "List.find ?P xs")
    case (Some b)
    then have b: "b < NBUF" "?P b" using r by (auto simp: find_Some_iff ring_def dest: nth_mem)
    then have nb: "b \<notin> H" "\<not> busy (bufs s b)" using assms(2) D(1) by auto
    let ?x = "(bufs s b)\<lparr>b_flags := b_flags (bufs s b) OR B_BUSY\<rparr>"
    have fl: "busy ?x" "valid ?x = valid (bufs s b)" "dirty ?x = dirty (bufs s b)" by (simp_all add: flag_defs flag_bits)
    have "bufcache_get env 1 sec s = Inr (b, s\<lparr>bufs := (bufs s)(b := ?x)\<rparr>)"
      unfolding bufcache_get_def using q nb(2) bufcache_find_exec [OF rh, of 1 sec] Some
      by (subst seq_exec, simp add: exec, intro iterate_done) (simp add: exec mask_bit flag_defs bcache_lk_same)
    moreover have "valid ?x \<or> dirty ?x \<longrightarrow> length (b_data ?x) = BSIZE" using fl D(4) [OF b(1)] by simp
    moreover from this have "cache_ok (s\<lparr>bufs := (bufs s)(b := ?x)\<rparr>) (insert b H)"
      using fl b(2) assms(3) coherent_unique [OF c b(1)] by (intro get_ok [OF assms(1) b(1) nb(1)]) simp_all
    ultimately show thesis
      using fl b nb D(4,5,6) [OF b(1)] by (intro that [of b ?x]) auto
  next
    case None
    then have new: "\<forall>b < NBUF. \<not> ?P b" using ring_range [OF r] by (auto simp: find_None_iff)
    let ?V = "\<lambda>b. \<not> busy (bufs s b) \<and> \<not> dirty (bufs s b)"
    obtain b where v: "List.find ?V (rev xs) = Some b"
    proof (cases "List.find ?V (rev xs)")
      case None
      then show ?thesis using assms(4) new ring_range [OF r] D(1) by (auto simp: find_None_iff)
    qed
    then have b: "b < NBUF" "b \<notin> H" "\<not> dirty (bufs s b)"
      using ring_range [OF r] D(1) by (auto simp: find_Some_iff dest: nth_mem) (metis length_rev nth_mem set_rev)+
    let ?x = "(bufs s b)\<lparr>b_dev := 1, b_sector := sec, b_flags := B_BUSY\<rparr>"
    have fl: "busy ?x" "\<not> valid ?x" "\<not> dirty ?x" by (simp_all add: flag_defs)
    have "bufcache_get env 1 sec s = Inr (b, s\<lparr>bufs := (bufs s)(b := ?x)\<rparr>)"
      unfolding bufcache_get_def using q bufcache_find_exec [OF rh, of 1 sec] bufcache_victim_exec [OF rh] None v
      by (subst seq_exec, simp add: exec, intro iterate_done) (simp add: exec mask_bit flag_defs bcache_lk_same)
    moreover have "cache_ok (s\<lparr>bufs := (bufs s)(b := ?x)\<rparr>) (insert b H)"
      by (rule get_ok [OF assms(1) b(1,2)]) (use fl new assms(3) in auto)
    ultimately show thesis using fl b by (intro that [of b ?x]) auto
  qed
qed

text \<open>Reading: the buffer holds the sector, or newer data that a transaction has left in it.\<close>

lemma bufcache_read_exec:
  assumes "serves env" "cache_ok s H" "\<forall>b \<in> H. b_dev (bufs s b) = 1 \<longrightarrow> b_sector (bufs s b) \<noteq> sec" "sec < 0x10000000"
    "(\<exists>b < NBUF. b_dev (bufs s b) = 1 \<and> b_sector (bufs s b) = sec) \<or> (\<exists>b < NBUF. b \<notin> H \<and> \<not> dirty (bufs s b))"
  obtains b t where "bufcache_read env 1 sec s = Inr (b, t)" "cache_ok t (insert b H)" "b < NBUF" "b \<notin> H" "disk.more t = disk.more s"
    "sectors t = sectors s" "disk_writes t = disk_writes s" "b_dev (bufs t b) = 1" "b_sector (bufs t b) = sec" "valid (bufs t b)"
    "length (b_data (bufs t b)) = BSIZE" "dirty (bufs t b) \<longrightarrow> dirty (bufs s b) \<and> b_sector (bufs s b) = sec"
    "\<not> dirty (bufs t b) \<longrightarrow> b_data (bufs t b) = sectors s 1 sec" "\<forall>c. c \<noteq> b \<longrightarrow> bufs t c = bufs s c"
proof -
  obtain b x where g: "bufcache_get env 1 sec s = Inr (b, s\<lparr>bufs := (bufs s)(b := x)\<rparr>)" "b < NBUF" "b \<notin> H" "busy x" "b_dev x = 1" "b_sector x = sec"
    "dirty x \<longrightarrow> valid x \<and> dirty (bufs s b) \<and> b_sector (bufs s b) = sec"
    "valid x \<longrightarrow> length (b_data x) = BSIZE \<and> (\<not> dirty x \<longrightarrow> b_data x = sectors s 1 sec)"
    "cache_ok (s\<lparr>bufs := (bufs s)(b := x)\<rparr>) (insert b H)" (is "cache_ok ?u _")
    by (rule bufcache_get_exec [OF assms(2-5)])
  show thesis
  proof (cases "valid x")
    case True
    then have "bufcache_read env 1 sec s = Inr (b, ?u)"
      using g(1) by (simp add: bufcache_read_def exec mask_bit flag_defs)
    then show thesis using g True by (intro that [of b ?u]) auto
  next
    case False
    let ?d = "sectors s 1 sec"
    have u: "quiet ?u" "busy (bufs ?u b)" "on_disk (bufs ?u b)" "\<not> valid (bufs ?u b) \<or> dirty (bufs ?u b)"
      using g False assms(4) by (simp_all add: cache_ok_def on_disk_def)
    obtain t where t: "ide_rw env b ?u = Inr ((), t)" "quiet t" "disk.more t = disk.more ?u"
      "bufs t = (bufs ?u)(b := served (sectors ?u 1 (b_sector (bufs ?u b))) ((bufs ?u b)\<lparr>b_qnext := None\<rparr>))"
      "sectors t = (if dirty (bufs ?u b) then (sectors ?u)(1 := (sectors ?u 1)(b_sector (bufs ?u b) := b_data (bufs ?u b))) else sectors ?u)"
      "disk_writes t = disk_writes ?u @ (if dirty (bufs ?u b) then [(1, b_sector (bufs ?u b), b_data (bufs ?u b))] else [])"
      by (rule ide_rw_exec [OF assms(1) u])
    have nd: "\<not> dirty x" using g(7) False by blast
    have b: "bufs t = (bufs s)(b := served ?d (x\<lparr>b_qnext := None\<rparr>))" "sectors t = sectors s" "disk_writes t = disk_writes s"
      using t(4-6) nd g(6) by simp_all
    have nd': "\<not> dirty (x\<lparr>b_qnext := None\<rparr>)" "busy (x\<lparr>b_qnext := None\<rparr>)" using nd g(4) by (simp_all add: flag_defs)
    have c: "coherent (bufs ?u) (insert b H) (sectors s 1)" using g(9) by (simp add: cache_ok_def)
    obtain xs where "ring (bufs ?u) xs" using g(9) by (auto simp: cache_ok_def)
    then have "ring (bufs t) xs" unfolding b(1) by (subst (asm) ring_cong [of _ "bufs t"]) (auto simp: b(1))
    moreover have "coherent ((bufs ?u)(b := served ?d (x\<lparr>b_qnext := None\<rparr>))) (insert b (insert b H)) (sectors s 1)"
      by (rule coherent_held [OF c g(2)])
        (use nd' g(5,6) assms(4) coherentD(7) [OF c] coherent_unique [OF c g(2)] in \<open>simp_all add: on_disk_def\<close>)
    ultimately have "cache_ok t (insert b H)" using t(2) b by (auto simp: cache_ok_def)
    moreover have "bufcache_read env 1 sec s = Inr (b, t)"
      using g(1) t(1) False by (simp add: bufcache_read_def exec mask_bit flag_defs)
    ultimately show thesis using g(2,3,5,6) b t(3) nd' coherentD(7) [OF c] by (intro that [of b t]) simp_all
  qed
qed

text \<open>Writing: the data of the buffer are on the disk when the call returns.\<close>

lemma bufcache_write_exec:
  assumes "serves env" "cache_ok s H" "b \<in> H" "on_disk (bufs s b)" "length (b_data (bufs s b)) = BSIZE"
  obtains t where "bufcache_write env b s = Inr ((), t)" "cache_ok t H" "disk.more t = disk.more s"
    "sectors t 1 = (sectors s 1)(b_sector (bufs s b) := b_data (bufs s b))"
    "disk_writes t = disk_writes s @ [(1, b_sector (bufs s b), b_data (bufs s b))]"
    "b_dev (bufs t b) = 1" "b_sector (bufs t b) = b_sector (bufs s b)" "b_data (bufs t b) = b_data (bufs s b)"
    "valid (bufs t b)" "\<not> dirty (bufs t b)" "\<forall>c. c \<noteq> b \<longrightarrow> bufs t c = bufs s c"
proof -
  have c: "coherent (bufs s) H (sectors s 1)" using assms(2) by (simp add: cache_ok_def)
  have b: "b < NBUF" "busy (bufs s b)" using coherentD(1,2) [OF c] assms(3) by auto
  let ?x = "(bufs s b)\<lparr>b_flags := b_flags (bufs s b) OR B_DIRTY\<rparr>" and ?y = "served (sectors s 1 (b_sector (bufs s b))) ((bufs s b)\<lparr>b_flags := b_flags (bufs s b) OR B_DIRTY, b_qnext := None\<rparr>)"
  let ?u = "s\<lparr>bufs := (bufs s)(b := ?x)\<rparr>"
  have fl: "busy ?x" "dirty ?x" "dirty (?x\<lparr>b_qnext := None\<rparr>)" "busy (?x\<lparr>b_qnext := None\<rparr>)"
    using b(2) by (simp_all add: flag_defs flag_bits)
  have u: "quiet ?u" "busy (bufs ?u b)" "on_disk (bufs ?u b)" "\<not> valid (bufs ?u b) \<or> dirty (bufs ?u b)"
    using assms(2,4) fl by (simp_all add: cache_ok_def on_disk_def)
  obtain t where t: "ide_rw env b ?u = Inr ((), t)" "quiet t" "disk.more t = disk.more ?u"
    "bufs t = (bufs ?u)(b := served (sectors ?u 1 (b_sector (bufs ?u b))) ((bufs ?u b)\<lparr>b_qnext := None\<rparr>))"
    "sectors t = (if dirty (bufs ?u b) then (sectors ?u)(1 := (sectors ?u 1)(b_sector (bufs ?u b) := b_data (bufs ?u b))) else sectors ?u)"
    "disk_writes t = disk_writes ?u @ (if dirty (bufs ?u b) then [(1, b_sector (bufs ?u b), b_data (bufs ?u b))] else [])"
    by (rule ide_rw_exec [OF assms(1) u])
  have t': "bufs t = (bufs s)(b := ?y)" "sectors t = (sectors s)(1 := (sectors s 1)(b_sector (bufs s b) := b_data (bufs s b)))"
    "disk_writes t = disk_writes s @ [(1, b_sector (bufs s b), b_data (bufs s b))]"
    using t(4-6) fl(2) by simp_all
  obtain xs where "ring (bufs s) xs" using assms(2) by (auto simp: cache_ok_def)
  then have "ring (bufs t) xs" by (subst (asm) ring_cong [of _ "bufs t"]) (auto simp: t'(1))
  moreover have "coherent ((bufs s)(b := ?y)) (insert b H) ((sectors s 1)(b_sector (bufs s b) := b_data (bufs s b)))"
    by (rule coherent_held [OF c b(1)])
      (use fl assms(4,5) coherentD(7) [OF c] coherent_unique [OF c b(1)] in \<open>simp_all add: on_disk_def\<close>)
  ultimately have "cache_ok t H" using t(2) t' assms(3) by (auto simp: cache_ok_def insert_absorb)
  moreover have "bufcache_write env b s = Inr ((), t)"
    using t(1) b(2) by (simp add: bufcache_write_def exec mask_bit flag_defs)
  ultimately show thesis using t(3) t' fl assms(4) by (intro that [of t]) (simp_all add: on_disk_def)
qed

text \<open>A buffer that differs at most in its place in the list and in being in use.\<close>

definition same_content :: "buf \<Rightarrow> buf \<Rightarrow> bool" where
  "same_content x y \<longleftrightarrow> b_dev y = b_dev x \<and> b_sector y = b_sector x \<and> b_data y = b_data x \<and> valid y = valid x \<and> dirty y = dirty x"

text \<open>Moving an element of a ring to its front.\<close>

lemma ring_front:
  assumes "ring B xs" "xs = as @ b # bs"
    and "n = b_next (B b)" "p = b_prev (B b)" "B1 = B(n := (B n)\<lparr>b_prev := p\<rparr>)" "B2 = B1(p := (B1 p)\<lparr>b_next := n\<rparr>)"
    "h = b_next (B2 BHEAD)" "B3 = B2(b := (B2 b)\<lparr>b_next := h, b_prev := BHEAD\<rparr>)" "B4 = B3(h := (B3 h)\<lparr>b_prev := b\<rparr>)"
    "B5 = B4(BHEAD := (B4 BHEAD)\<lparr>b_next := b\<rparr>)"
  shows "ring B5 (b # as @ bs)"
proof -
  have d: "distinct (as @ b # bs)" "BHEAD \<notin> set (as @ b # bs)" "set (as @ b # bs) = {0..<NBUF}"
    using assms(1,2) by (auto simp: ring_def)
  have c: "chain (\<lambda>b. b_prev (B b)) (\<lambda>b. b_next (B b)) BHEAD (as @ b # bs) BHEAD" using assms(1,2) by (simp add: ring_def)
  have p: "p = (if as = [] then BHEAD else last as)" and n: "n = (if bs = [] then BHEAD else hd bs)"
    using chain_links [OF c] assms(3,4) by simp_all
  have ne: "as @ bs \<noteq> []"
  proof
    assume "as @ bs = []"
    then have "{0..<NBUF} = {b}" using d(3) by simp
    then have "card {0..<NBUF} = card {b}" by (rule arg_cong)
    then show False by simp
  qed
  have out: "p \<notin> set (b # bs)" "n \<notin> set (b # as)" "p \<in> insert BHEAD (set as)" "n \<in> insert BHEAD (set bs)" "b \<noteq> BHEAD" "BHEAD \<notin> set as" "BHEAD \<notin> set bs"
    using d p n by (auto simp: disjoint_iff)
  have nx2: "b_next (B2 y) = (if y = p then n else b_next (B y))" and pr2: "b_prev (B2 y) = (if y = n then p else b_prev (B y))" for y
    unfolding assms(5,6) by simp_all
  have c2: "chain (\<lambda>b. b_prev (B2 b)) (\<lambda>b. b_next (B2 b)) BHEAD (as @ bs) BHEAD"
    by (rule chain_remove [OF c d(1)]) (use out p n d(1) in \<open>auto simp: nx2 pr2\<close>)
  have hd0: "b_next (B BHEAD) = hd (as @ b # bs)" "b_prev (B BHEAD) = last (as @ b # bs)" using assms(1,2) by (simp_all add: ring_def)
  have h: "h = hd (as @ bs)" and l: "b_prev (B2 BHEAD) = last (as @ bs)"
    unfolding assms(7) nx2 pr2
  proof -
    have "as \<noteq> [] \<Longrightarrow> p \<noteq> BHEAD" "bs \<noteq> [] \<Longrightarrow> n \<noteq> BHEAD" using p n out(6,7) by (metis last_in_set, metis hd_in_set)
    then show "(if BHEAD = p then n else b_next (B BHEAD)) = hd (as @ bs)" "(if BHEAD = n then p else b_prev (B BHEAD)) = last (as @ bs)"
      using hd0 p n ne by (cases "as = []"; cases "bs = []"; simp)+
  qed
  have h': "h \<in> set (as @ bs)" unfolding h using ne by (rule hd_in_set)
  then have "h \<noteq> b" "h \<noteq> BHEAD" using d out by auto
  then have nx5: "b_next (B5 y) = (if y = BHEAD then b else if y = b then h else b_next (B2 y))"
    and pr5: "b_prev (B5 y) = (if y = h then b else if y = b then BHEAD else b_prev (B2 y))" for y
    unfolding assms(8-10) using out(5) by simp_all
  have nb: "b \<notin> set (as @ bs)" "BHEAD \<notin> set (as @ bs)" "distinct (as @ bs)" using d(1) out by auto
  have "chain (\<lambda>b. b_prev (B5 b)) (\<lambda>b. b_next (B5 b)) b (as @ bs) BHEAD"
    by (rule chain_first_prev [OF c2 ne nb(3)]) (use nb h in \<open>auto simp: nx5 pr5\<close>)
  then show ?thesis
    using d nb ne h h' l \<open>h \<noteq> b\<close> \<open>h \<noteq> BHEAD\<close> out(5) by (simp add: ring_def nx5 pr5) auto
qed

lemma coherent_cong:
  assumes "coherent B H D" "\<And>c. same_content (B c) (B' c)" "\<And>c. c < NBUF \<Longrightarrow> busy (B' c) \<longleftrightarrow> c \<in> H'" "H' \<subseteq> H"
    "\<And>c. c \<in> H - H' \<Longrightarrow> valid (B c) \<and> (dirty (B c) \<or> b_data (B c) = D (b_sector (B c)))"
  shows "coherent B' H' D"
proof -
  note D = coherentD [OF assms(1)]
  have e: "b_dev (B' c) = b_dev (B c)" "b_sector (B' c) = b_sector (B c)" "b_data (B' c) = b_data (B c)" "valid (B' c) = valid (B c)"
    "dirty (B' c) = dirty (B c)" "on_disk (B' c) = on_disk (B c)" for c
    using assms(2) [of c] by (simp_all add: same_content_def on_disk_def)
  show ?thesis unfolding coherent_def e
  proof (intro conjI allI impI)
    fix c assume c: "c < NBUF"
    show "busy (B' c) \<longleftrightarrow> c \<in> H'" by (rule assms(3) [OF c])
    show "on_disk (B c)" "length (b_data (B c)) = BSIZE" if "valid (B c) \<or> dirty (B c)" using D(4) [OF c that] by simp_all
    show "valid (B c)" if "c \<notin> H'" "dirty (B c)" using that D(5) [OF c] assms(5) [of c] by blast
    show "b_data (B c) = D (b_sector (B c))" if "c \<notin> H'" "valid (B c)" "\<not> dirty (B c)"
      using that D(6) [OF c] assms(5) [of c] by blast
    show "c = c'" if "c' < NBUF" "b_dev (B c) = 1" "b_dev (B c') = 1" "b_sector (B c) = b_sector (B c')" for c'
      using D(3) [OF c that] .
  qed (use D(2,7) assms(4) in auto)
qed

lemma bufcache_release_exec:
  assumes "cache_ok s H" "b \<in> H" "valid (bufs s b)" "dirty (bufs s b) \<or> b_data (bufs s b) = sectors s 1 (b_sector (bufs s b))"
  obtains t where "bufcache_release b s = Inr ((), t)" "cache_ok t (H - {b})" "disk.more t = disk.more s"
    "sectors t = sectors s" "disk_writes t = disk_writes s" "\<forall>c. same_content (bufs s c) (bufs t c)"
proof -
  have c: "coherent (bufs s) H (sectors s 1)" and q: "quiet s" using assms(1) by (simp_all add: cache_ok_def)
  obtain xs where r: "ring (bufs s) xs" using assms(1) by (auto simp: cache_ok_def)
  have b: "b < NBUF" "busy (bufs s b)" using coherentD(1,2) [OF c] assms(2) by auto
  then have "b \<in> set xs" using ring_range [OF r] by simp
  then obtain as bs where xs: "xs = as @ b # bs" by (meson split_list)
  define B n p where "B = bufs s" and "n = b_next (B b)" and "p = b_prev (B b)"
  define B1 where "B1 = B(n := (B n)\<lparr>b_prev := p\<rparr>)"
  define B2 where "B2 = B1(p := (B1 p)\<lparr>b_next := n\<rparr>)"
  define h where "h = b_next (B2 BHEAD)"
  define B3 where "B3 = B2(b := (B2 b)\<lparr>b_next := h, b_prev := BHEAD\<rparr>)"
  define B4 where "B4 = B3(h := (B3 h)\<lparr>b_prev := b\<rparr>)"
  define B5 where "B5 = B4(BHEAD := (B4 BHEAD)\<lparr>b_next := b\<rparr>)"
  define B6 where "B6 = B5(b := (B5 b)\<lparr>b_flags := b_flags (B5 b) AND NOT B_BUSY\<rparr>)"
  have r5: "ring B5 (b # as @ bs)"
    by (rule ring_front [OF r xs n_def [unfolded B_def] p_def [unfolded B_def] B1_def [unfolded B_def] B2_def h_def B3_def B4_def B5_def])
  have flags: "b_flags (B5 y) = b_flags (B y)" "b_dev (B5 y) = b_dev (B y)" "b_sector (B5 y) = b_sector (B y)" "b_data (B5 y) = b_data (B y)" for y
    by (simp_all add: B5_def B4_def B3_def B2_def B1_def)
  have same: "same_content (B y) (B6 y)" "busy (B6 y) \<longleftrightarrow> y \<noteq> b \<and> busy (B y)" for y
    by (simp_all add: same_content_def B6_def flags flag_defs flag_bits)
  have r6: "ring B6 (b # as @ bs)" using r5 by (subst ring_cong [of _ B5]) (simp_all add: B6_def)
  have c6: "coherent B6 (H - {b}) (sectors s 1)"
    by (rule coherent_cong [OF c]) (use same coherentD(1) [OF c] assms(3,4) in \<open>auto simp: B_def\<close>)
  obtain y ys where so: "sched_ok s (y # ys)" "bcache_lk s = lock_init_val" using q by (auto simp: quiet_def)
  let ?u = "s\<lparr>bcache_lk := lock_held_val (kstack_cpu_idx s), bufs := B6\<rparr>"
  have "sched_ok ?u (y # ys)" using so(1) by simp
  then obtain T Q ws where w: "thread_wakeup (ChBuf b) ?u = Inr ((), ?u\<lparr>TCBPool := T, TQueuePool := Q\<rparr>)"
    "sched_ok (?u\<lparr>TCBPool := T, TQueuePool := Q\<rparr>) ((y # ys) @ ws)"
    using thread_wakeup_exec [OF _ refl] by metis
  let ?t = "s\<lparr>bufs := B6, TCBPool := T, TQueuePool := Q\<rparr>"
  have n1: "b_next (B1 b) = n" by (simp add: B1_def n_def)
  have "bufcache_release b s = Inr ((), ?t)"
    using b(2) so(2) sched_okD(1) [OF so(1)] w(1)
    by (simp add: bufcache_release_def exec mask_bit busy_def n1 B_def [symmetric] n_def [symmetric] p_def [symmetric] B1_def [symmetric]
        B2_def [symmetric] h_def [symmetric] B3_def [symmetric] B4_def [symmetric] B5_def [symmetric] B6_def [symmetric, simplified] bcache_lk_same)
  moreover have "sched_ok ?t ((y # ys) @ ws)" using w(2) by (subst sched_ok_cong [of _ "?u\<lparr>TCBPool := T, TQueuePool := Q\<rparr>"]) simp_all
  then have "quiet ?t" using q by (auto simp: quiet_def ide_ready_def)
  ultimately show thesis using r6 c6 same(1) by (intro that [of ?t]) (auto simp: cache_ok_def B_def)
qed

end
