(* ===== verification/Spec2Isabelle.thy ===== *)
theory Spec2Isabelle
  imports Trap Pipes User_Programs Shell_Pipeline Buf_Cache
begin

text \<open>
  This development models the mCertiKOS kernel of this repository (\<open>src/mCertiKOS/kern\<close>), and the library, the shell
  and the programs that run on it (\<open>src/mCertiKOS/user\<close>), and proves what makes the parts correct.

  \<^bold>\<open>How the C code is read.\<close> A kernel function is a computation on the machine state that either returns
  a value and a new state or stops (theory \<open>Kernel_Prelude\<close>, type \<open>kop\<close>): \<open>Panic\<close> is \<open>KERN_PANIC\<close> or a
  failed assertion, \<open>OutOfBounds\<close> an access outside an object or the use of a null pointer or an undefined
  value, \<open>DivideByZero\<close> a trap of the processor, \<open>Spin\<close> a loop that never ends, \<open>Switched\<close> the point where the
  processor is given to another thread. Unsigned and signed integers are 32-bit words with their wrap-around; signed
  comparisons are the signed ones of the word library. A C loop is \<open>for_loop\<close> when its bounds are fixed and
  \<open>iterate\<close> otherwise. \<open>iterate\<close> needs no fuel: it is the result after as many rounds as the loop takes,
  and \<open>Spin\<close> if there is no such number; \<open>iterate_returns\<close> and \<open>iterate_spins\<close> prove the one or the other.
  Tables of structures are functions from indices to records, pointers into a table are indices, strings
  and buffers are lists of bytes.

  The state is a chain of records in the order in which the layers of the kernel build on each other:
  \<open>machine\<close>, \<open>mem_map\<close>, \<open>mat\<close>, \<open>container\<close>, \<open>paging\<close>, \<open>tqueues\<close>, \<open>sched\<close>, \<open>ipc\<close>, \<open>io\<close>, \<open>console\<close>, \<open>disk\<close>,
  \<open>fs\<close>, \<open>intr\<close>. An operation of a layer works on every extension of its record, so that the layers above use
  it unchanged.

  A call that may put its thread to sleep takes a parameter \<open>env\<close>: what all other threads and the
  interrupt handlers do to the state until this thread runs again. Nothing is assumed about it except
  where a theorem says so.

  \<^bold>\<open>The parts and their theories.\<close>

  \<^item> \<open>Machine\<close>: processor records and spinlocks (\<open>pcpu/PCPUIntro\<close>, \<open>lib/spinlock.c\<close>, \<open>lib/kstack.c\<close>). Locale
    \<open>lock_field\<close> is the contract of a lock; every layer interprets it on its own lock.
  \<^item> \<open>Mem_Map\<close>: the memory map from the boot loader (\<open>dev/mboot.c\<close>). C2: it says of every address what the
    boot loader's entries say.
  \<^item> \<open>Phys_Mem\<close>: the page allocator (\<open>pmm/MATIntro\<close>, \<open>MATInit\<close>, \<open>MATOp\<close>). C1, C3 to C5: only RAM of the user range is
    handed out, never twice; a free page is found at the latest by the second attempt; freeing undoes allocating.
  \<^item> \<open>Container\<close>: memory quotas (\<open>pmm/MContainer\<close>). C10 to C13: the root quota, usage within quota, fresh children,
    and where the quota check wraps around.
  \<^item> \<open>Paging\<close>: page tables (\<open>vmm/*\<close>). C6 to C9: isolation of the processes in every reachable state (an inductive
    reachability relation), mapping, unmapping and the identity map at boot.
  \<^item> \<open>Linked_List\<close>: a generic theory of doubly linked lists in a table, used for queues of threads and of
    messages.
  \<^item> \<open>Thread_Queue\<close>, \<open>Scheduler\<close>: thread blocks, queues and the scheduler (\<open>thread/*\<close>). C14: the queues refine lists. C15:
    what the loop that initialises the blocks really reaches. C16 to C18: round robin, exact wake-ups, preemption.
    Locale \<open>sleep_lock\<close> is the contract of sleeping with a lock.
  \<^item> \<open>Bytes\<close>, \<open>C_String\<close>, \<open>User_Mem\<close>: memory as bytes, the string library (\<open>lib/string.c\<close>) and copying between kernel
    and user space (\<open>lib/pmap.c\<close>). C19 to C22: overlapping moves, copying out and in again, and what the range check and
    a failed allocation miss.
  \<^item> \<open>Trap_Frame\<close>, \<open>Ipc\<close>: the saved user context (\<open>trap/TSyscallArg\<close>) and message passing (\<open>lib/ipc.c\<close>). C23 to C25: the
    queue refines a list, a search that never ends, delivery of a message.
  \<^item> \<open>Printfmt\<close>: formatted output of the kernel and of the user library. C26 to C28: both copies agree, numbers can be read
    back, buffers are respected.
  \<^item> \<open>Io_Ports\<close>, \<open>Console\<close>: interrupt controllers, keyboard, serial line, screen and line editing (\<open>dev/*\<close>). C29 to C31:
    the input ring is a queue, line editing, the cursor stays on the screen.
  \<^item> \<open>Fs_Bytes\<close>, \<open>Disk\<close>, \<open>Log\<close>, \<open>Inode\<close>, \<open>File\<close>, \<open>Sysfile\<close>: the file system (\<open>dev/disk/ide.c\<close>, \<open>fs/*\<close>) on the byte layout of
    the disk, from the disk controller to the system calls. \<open>Pipes\<close>, C32: a pipe is a queue of bytes.
  \<^item> \<open>Interrupts\<close>, \<open>Syscall\<close>, \<open>Trap\<close>: descriptor tables and the local interrupt controller (\<open>lib/seg.c\<close>, \<open>dev/intr.c\<close>,
    \<open>dev/lapic.c\<close>), program loading and the remaining system calls (\<open>lib/elf.c\<close>, \<open>proc/PProc\<close>, \<open>trap/TSyscall\<close>), dispatch, traps,
    signals and the kernel's main function (\<open>trap/*\<close>, \<open>init/init.c\<close>).
  \<^item> \<open>User_Lib\<close>, \<open>Shell\<close>, \<open>Shell_Parse\<close>, \<open>Shell_Pipeline\<close>, \<open>User_Programs\<close>: the user side. A program is a computation on the record
    \<open>uproc\<close>, which holds the calls made so far; the kernel is a parameter of it, the function \<open>os\<close> from the earlier
    calls and a request to an answer, so that a theorem holds whatever the kernel answers, unless it says
    what it assumes. A pointer to characters is the rest of the object it points into. \<open>runs\<close> says that a computation
    returns and relates its result to the calls it has made. C33: the parser of the shell computes the words of the stages.
    C34: a pipeline closes the descriptors and awaits the processes it has created. C35: the filters copy their input.

  \<^bold>\<open>Not modelled.\<close> Firmware tables and the start of further processors (\<open>dev/acpi.c\<close>, \<open>dev/pcpu_mp.c\<close>): the number
  of processors is part of the state, and only the boot processor runs. Assembly, apart from the context switch. The boot loader,
  whose memory map is an argument of \<open>pmmap_init\<close>. The calibration of the time-stamp counter (\<open>dev/tsc.c\<close>). The
  kernel monitor and diagnostic output: a panic is a stop. What devices answer when a port is read is part of the state. The test program
  \<open>user/fstest\<close>, the locks and memory moves of the user library, which the other programs do not use, the host tool
  \<open>fs/mkfs.c\<close> and the directory \<open>samples\<close>, which is not built.
\<close>

end
